(* ===== verification/Prelude.thy ===== *)
theory Prelude
  imports Main "HOL-Library.Word"
begin

text \<open>
  Shared vocabulary of the development: results of fallible code, checked machine
  arithmetic, byte strings as the Rust sources see them, and the generic lemmas on
  lists and results that several components use.

  A Rust \<open>Result<T, E>\<close> is the sum \<open>'e + 'a\<close> with \<open>Inl\<close> the error.  A Rust
  \<open>str\<close> is the list of its UTF-8 bytes, each byte a \<open>char\<close>.  \<open>usize\<close> is a 64-bit
  unsigned integer, kept as a \<open>nat\<close> with its overflow condition written out.
\<close>

named_theorems result_simps "equations that evaluate chains of fallible calls"
named_theorems arith_guards "overflow and underflow guards of machine arithmetic"
named_theorems keeps "operations that keep an invariant"

type_synonym usize = nat
type_synonym u64 = "64 word"
type_synonym i64 = "64 word"

subsection \<open>Fallible calls\<close>

text \<open>Rust's \<open>?\<close>: stop at the first error, otherwise go on with the value.\<close>

primrec and_then :: "'e + 'a \<Rightarrow> ('a \<Rightarrow> 'e + 'b) \<Rightarrow> 'e + 'b" where
  "and_then (Inl e) f = Inl e"
| "and_then (Inr x) f = f x"

text \<open>\<open>Result::map_err\<close>.\<close>

primrec map_err :: "('e \<Rightarrow> 'f) \<Rightarrow> 'e + 'a \<Rightarrow> 'f + 'a" where
  "map_err f (Inl e) = Inl (f e)"
| "map_err f (Inr x) = Inr x"

text \<open>\<open>Option::ok_or\<close>.\<close>

primrec ok_or :: "'e \<Rightarrow> 'a option \<Rightarrow> 'e + 'a" where
  "ok_or e None = Inl e"
| "ok_or e (Some x) = Inr x"

text \<open>
  \<open>iter.map(f).collect::<Result<Vec<_>, _>>()\<close>: left to right, stopping at the first
  error.
\<close>

primrec try_map :: "('a \<Rightarrow> 'e + 'b) \<Rightarrow> 'a list \<Rightarrow> 'e + 'b list" where
  "try_map f [] = Inr []"
| "try_map f (x # xs) =
     (case f x of Inl e \<Rightarrow> Inl e
      | Inr y \<Rightarrow> (case try_map f xs of Inl e \<Rightarrow> Inl e | Inr ys \<Rightarrow> Inr (y # ys)))"

lemmas [result_simps] = and_then.simps map_err.simps ok_or.simps try_map.simps

lemma map_fixed: "map f xs = xs \<Longrightarrow> x \<in> set xs \<Longrightarrow> f x = x"
  by (induction xs) auto

lemma list_all2_right: "list_all2 P xs ys \<Longrightarrow> y \<in> set ys \<Longrightarrow> \<exists>x \<in> set xs. P x y"
  by (induction xs ys rule: list_all2_induct) auto

lemma and_then_eq_Inr:
  "and_then r f = Inr y \<longleftrightarrow> (\<exists>x. r = Inr x \<and> f x = Inr y)"
  by (cases r) auto

lemma and_then_eq_Inl:
  "and_then r f = Inl e \<longleftrightarrow> r = Inl e \<or> (\<exists>x. r = Inr x \<and> f x = Inl e)"
  by (cases r) auto

lemma map_err_eq_Inr [simp]: "map_err f r = Inr x \<longleftrightarrow> r = Inr x"
  by (cases r) auto

lemma map_err_eq_Inl: "map_err f r = Inl e \<longleftrightarrow> (\<exists>d. r = Inl d \<and> e = f d)"
  by (cases r) auto

lemma ok_or_eq_Inr [simp]: "ok_or e r = Inr x \<longleftrightarrow> r = Some x"
  by (cases r) auto

lemma ok_or_eq_Inl: "ok_or e r = Inl e' \<longleftrightarrow> r = None \<and> e' = e"
  by (cases r) auto

lemma try_map_eq_Inr:
  "try_map f xs = Inr ys \<longleftrightarrow> list_all2 (\<lambda>x y. f x = Inr y) xs ys"
proof (induction xs arbitrary: ys)
  case Nil
  show ?case by auto
next
  case (Cons x xs)
  show ?case
    by (cases "f x"; cases "try_map f xs")
      (auto simp: list_all2_Cons1 Cons.IH [symmetric])
qed

lemma try_map_length: "try_map f xs = Inr ys \<Longrightarrow> length ys = length xs"
  by (auto simp: try_map_eq_Inr dest: list_all2_lengthD)

lemma try_map_first_error:
  "try_map f xs = Inl e \<longleftrightarrow>
     (\<exists>ps x qs. xs = ps @ x # qs \<and> (\<forall>p \<in> set ps. \<exists>y. f p = Inr y) \<and> f x = Inl e)"
proof
  show "try_map f xs = Inl e \<Longrightarrow>
     \<exists>ps x qs. xs = ps @ x # qs \<and> (\<forall>p \<in> set ps. \<exists>y. f p = Inr y) \<and> f x = Inl e"
  proof (induction xs)
    case (Cons a xs)
    show ?case
    proof (cases "f a")
      case (Inl e')
      with Cons.prems have "f a = Inl e" by simp
      then show ?thesis by (intro exI [of _ "[]"]) auto
    next
      case (Inr y)
      with Cons.prems have "try_map f xs = Inl e" by (auto split: sum.splits)
      then obtain ps x qs where "xs = ps @ x # qs" "\<forall>p \<in> set ps. \<exists>y. f p = Inr y" "f x = Inl e"
        using Cons.IH by blast
      with Inr show ?thesis by (intro exI [of _ "a # ps"] exI [of _ x] exI [of _ qs]) auto
    qed
  qed simp
next
  have "(\<forall>p \<in> set ps. \<exists>y. f p = Inr y) \<Longrightarrow> f x = Inl e \<Longrightarrow> try_map f (ps @ x # qs) = Inl e"
    for ps x qs
    by (induction ps) auto
  then show "\<exists>ps x qs. xs = ps @ x # qs \<and> (\<forall>p \<in> set ps. \<exists>y. f p = Inr y) \<and> f x = Inl e \<Longrightarrow>
    try_map f xs = Inl e" by blast
qed

lemma try_map_cong [fundef_cong]:
  assumes "xs = ys" and "\<And>x. x \<in> set ys \<Longrightarrow> f x = g x"
  shows "try_map f xs = try_map g ys"
proof -
  have "try_map f ys = try_map g ys"
    using assms(2) by (induction ys) (auto split: sum.splits)
  with assms(1) show ?thesis by simp
qed

subsection \<open>Checked machine arithmetic\<close>

definition usize_max :: usize where
  "usize_max = 2 ^ 64 - 1"

text \<open>\<open>usize::checked_add\<close>.\<close>

definition checked_add :: "usize \<Rightarrow> usize \<Rightarrow> usize option" where
  "checked_add a b = (if a + b \<le> usize_max then Some (a + b) else None)"

text \<open>
  Plain \<open>+\<close> and \<open>-\<close> on \<open>usize\<close>: \<open>None\<close> where the operation overflows (a panic, or
  a wrapped value the code never means).
\<close>

definition plain_add :: "usize \<Rightarrow> usize \<Rightarrow> usize option" where
  "plain_add a b = (if a + b \<le> usize_max then Some (a + b) else None)"

definition plain_sub :: "usize \<Rightarrow> usize \<Rightarrow> usize option" where
  "plain_sub a b = (if b \<le> a then Some (a - b) else None)"

lemma checked_add_eq_Some [arith_guards]:
  "checked_add a b = Some c \<longleftrightarrow> c = a + b \<and> a + b \<le> usize_max"
  by (auto simp: checked_add_def)

lemma checked_add_eq_None [arith_guards]:
  "checked_add a b = None \<longleftrightarrow> usize_max < a + b"
  by (auto simp: checked_add_def)

lemma plain_add_eq_Some [arith_guards]:
  "plain_add a b = Some c \<longleftrightarrow> c = a + b \<and> a + b \<le> usize_max"
  by (auto simp: plain_add_def)

lemma plain_sub_eq_Some [arith_guards]:
  "plain_sub a b = Some c \<longleftrightarrow> c = a - b \<and> b \<le> a"
  by (auto simp: plain_sub_def)

subsection \<open>Panics, indexing and loops\<close>

text \<open>
  Where a call may panic its result is an option, \<open>None\<close> the panic.  \<open>index\<close> is the
  panicking \<open>xs[i]\<close>; \<open>for_each\<close> is a \<open>for\<close> loop whose body may return early with an error.
\<close>

definition index :: "'a list \<Rightarrow> nat \<Rightarrow> 'a option" where
  "index xs i = (if i < length xs then Some (xs ! i) else None)"

fun for_each :: "('a \<Rightarrow> ('e + unit) option) \<Rightarrow> 'a list \<Rightarrow> ('e + unit) option" where
  "for_each f [] = Some (Inr ())"
| "for_each f (x # xs) =
     (case f x of
        None \<Rightarrow> None
      | Some (Inl e) \<Rightarrow> Some (Inl e)
      | Some (Inr _) \<Rightarrow> for_each f xs)"

lemma for_each_cong [fundef_cong]:
  assumes "xs = ys" and "\<And>x. x \<in> set ys \<Longrightarrow> f x = g x"
  shows "for_each f xs = for_each g ys"
proof -
  have "for_each f ys = for_each g ys"
    using assms(2) by (induction ys) (auto split: option.split sum.split)
  with assms(1) show ?thesis by simp
qed

text \<open>If no iteration panics, the loop ends with the first error, if any.\<close>

lemma for_each_total:
  assumes "\<And>x. x \<in> set xs \<Longrightarrow> \<exists>r. f x = Some r \<and> (r = Inr () \<longleftrightarrow> P x) \<and> (\<forall>e. r = Inl e \<longrightarrow> E e)"
  shows "\<exists>r. for_each f xs = Some r \<and> (r = Inr () \<longleftrightarrow> (\<forall>x \<in> set xs. P x)) \<and>
    (\<forall>e. r = Inl e \<longrightarrow> E e)"
  using assms
proof (induction xs)
  case (Cons x xs)
  obtain r where r: "f x = Some r" "r = Inr () \<longleftrightarrow> P x" "\<forall>e. r = Inl e \<longrightarrow> E e"
    using Cons.prems [of x] by auto
  show ?case
  proof (cases r)
    case (Inl e)
    then show ?thesis using r by auto
  next
    case (Inr u)
    then show ?thesis using r Cons.IH Cons.prems by auto
  qed
qed simp

subsection \<open>Bytes and ASCII\<close>

abbreviation byte_of :: "char \<Rightarrow> nat" where
  "byte_of c \<equiv> of_char c"

lemma byte_of_lt [simp]: "byte_of c < 256"
  by (metis of_char_mod_256 mod_less_divisor zero_less_numeral)

lemma byte_of_eq_iff: "byte_of a = byte_of b \<longleftrightarrow> a = b"
  by simp

definition is_ascii_digit :: "char \<Rightarrow> bool" where
  "is_ascii_digit c \<longleftrightarrow> 48 \<le> byte_of c \<and> byte_of c \<le> 57"

definition is_ascii_uppercase :: "char \<Rightarrow> bool" where
  "is_ascii_uppercase c \<longleftrightarrow> 65 \<le> byte_of c \<and> byte_of c \<le> 90"

end
