(* ===== verification/RustStr.thy ===== *)
theory RustStr
  imports Prelude
begin

text \<open>
  The functions of Rust's \<open>str\<close> that the grammars of the repository are written with, on
  UTF-8 bytes.  \<open>OrderRows\<close>, \<open>StructSource\<close>, \<open>DeclaredTypes\<close> and the command lines use it.
\<close>

subsection \<open>Splitting\<close>

text \<open>\<open>s.split_once(c)\<close>, \<open>s.rsplit_once(c)\<close>, \<open>s.splitn(n, c)\<close> and \<open>s.split(p)\<close>.\<close>

definition split_once :: "char \<Rightarrow> string \<Rightarrow> (string \<times> string) option" where
  "split_once c s =
     (if c \<in> set s then Some (takeWhile (\<lambda>x. x \<noteq> c) s, tl (dropWhile (\<lambda>x. x \<noteq> c) s)) else None)"

definition rsplit_once :: "char \<Rightarrow> string \<Rightarrow> (string \<times> string) option" where
  "rsplit_once c s = map_option (\<lambda>(b, a). (rev a, rev b)) (split_once c (rev s))"

fun splitn :: "nat \<Rightarrow> char \<Rightarrow> string \<Rightarrow> string list" where
  "splitn 0 c s = []"
| "splitn (Suc 0) c s = [s]"
| "splitn (Suc (Suc n)) c s =
     (case split_once c s of None \<Rightarrow> [s] | Some (a, b) \<Rightarrow> a # splitn (Suc n) c b)"

fun split_chars :: "(char \<Rightarrow> bool) \<Rightarrow> string \<Rightarrow> string list" where
  "split_chars p [] = [[]]"
| "split_chars p (c # cs) =
     (if p c then [] # split_chars p cs
      else (case split_chars p cs of part # parts \<Rightarrow> (c # part) # parts | [] \<Rightarrow> [[c]]))"

abbreviation split_at :: "char \<Rightarrow> string \<Rightarrow> string list" where
  "split_at c \<equiv> split_chars (\<lambda>x. x = c)"

text \<open>\<open>s.strip_prefix(p)\<close>, \<open>s.strip_suffix(c)\<close>, \<open>s.ends_with(p)\<close>.\<close>

definition strip_prefix :: "string \<Rightarrow> string \<Rightarrow> string option" where
  "strip_prefix p s = (if take (length p) s = p then Some (drop (length p) s) else None)"

definition strip_suffix :: "char \<Rightarrow> string \<Rightarrow> string option" where
  "strip_suffix c s = (if s \<noteq> [] \<and> last s = c then Some (butlast s) else None)"

definition ends_with :: "string \<Rightarrow> string \<Rightarrow> bool" where
  "ends_with p s \<longleftrightarrow> take (length p) (rev s) = rev p"

text \<open>Texts written with a separator between them.\<close>

fun join :: "char \<Rightarrow> string list \<Rightarrow> string" where
  "join c [] = []"
| "join c [s] = s"
| "join c (s # t # ss) = s @ c # join c (t # ss)"

subsection \<open>Splitting what was joined\<close>

lemma split_once_at:
  assumes "c \<notin> set xs"
  shows "split_once c (xs @ c # ys) = Some (xs, ys)"
  using assms by (induction xs) (auto simp: split_once_def)

lemma split_once_None: "split_once c s = None \<longleftrightarrow> c \<notin> set s"
  by (simp add: split_once_def)

lemma split_once_none [simp]: "c \<notin> set s \<Longrightarrow> split_once c s = None"
  by (simp add: split_once_None)

lemma split_once_eq: "split_once c s = Some (xs, ys) \<Longrightarrow> s = xs @ c # ys \<and> c \<notin> set xs"
proof (induction s arbitrary: xs)
  case (Cons d s)
  show ?case
  proof (cases "d = c")
    case True
    then show ?thesis using Cons.prems by (auto simp: split_once_def)
  next
    case False
    with Cons.prems obtain xs' where "split_once c s = Some (xs', ys)" "xs = d # xs'"
      by (auto simp: split_once_def split: if_splits)
    with Cons.IH False show ?thesis by auto
  qed
qed (simp add: split_once_def)

lemma split_once_length: "split_once c s = Some (xs, ys) \<Longrightarrow> length s = length xs + length ys + 1"
  by (drule split_once_eq) simp

lemma rsplit_once_at:
  assumes "c \<notin> set ys"
  shows "rsplit_once c (xs @ c # ys) = Some (xs, ys)"
  using assms split_once_at [of c "rev ys" "rev xs"] by (simp add: rsplit_once_def)

lemma splitn_two:
  "c \<notin> set a \<Longrightarrow> splitn (Suc (Suc n)) c (a @ c # b) = a # splitn (Suc n) c b"
  by (simp add: split_once_at)

lemma splitn_one: "c \<notin> set a \<Longrightarrow> splitn (Suc (Suc n)) c a = [a]"
  by simp

lemma split_chars_nonempty: "split_chars p s \<noteq> []"
  by (induction s) (auto split: list.splits)

lemma split_chars_none: "list_all (\<lambda>c. \<not> p c) s \<Longrightarrow> split_chars p s = [s]"
  by (induction s) auto

lemma split_at_cons: "c \<notin> set s \<Longrightarrow> split_at c (s @ c # t) = s # split_at c t"
  by (induction s) auto

lemma split_at_join:
  "ss \<noteq> [] \<Longrightarrow> \<forall>s \<in> set ss. c \<notin> set s \<Longrightarrow> split_at c (join c ss) = ss"
  by (induction c ss rule: join.induct)
    (auto simp: split_at_cons intro!: split_chars_none simp: list_all_iff)

lemma join_split_at: "join c (split_at c s) = s"
proof (induction s)
  case (Cons x s)
  show ?case
  proof (cases "split_at c s")
    case (Cons p ps)
    with Cons.IH show ?thesis by (cases ps) auto
  qed (simp add: split_chars_nonempty)
qed simp

lemma split_at_free: "p \<in> set (split_at c s) \<Longrightarrow> c \<notin> set p"
  by (induction s arbitrary: p) (fastforce split: list.splits if_splits)+

lemma strip_prefix_at [simp]: "strip_prefix p (p @ s) = Some s"
  by (simp add: strip_prefix_def)

lemma strip_prefix_eq: "strip_prefix p s = Some t \<longleftrightarrow> s = p @ t"
  by (auto simp: strip_prefix_def) (metis append_take_drop_id)

lemma strip_suffix_at [simp]: "strip_suffix c (s @ [c]) = Some s"
  by (simp add: strip_suffix_def)

lemma strip_suffix_eq: "strip_suffix c s = Some t \<longleftrightarrow> s = t @ [c]"
  by (cases s rule: rev_cases) (auto simp: strip_suffix_def)

lemma ends_with_eq: "ends_with p s \<longleftrightarrow> (\<exists>t. s = t @ p)"
proof
  assume "ends_with p s"
  then have "rev s = rev p @ drop (length p) (rev s)"
    unfolding ends_with_def by (metis append_take_drop_id)
  then show "\<exists>t. s = t @ p" by (metis rev_append rev_rev_ident)
qed (auto simp: ends_with_def)

subsection \<open>White space\<close>

text \<open>The encodings of the characters with the Unicode property \<open>White_Space\<close>.\<close>

definition white_spaces :: "string list" where
  "white_spaces = map (map char_of)
     ([[9], [10], [11], [12], [13], [32], [194, 133], [194, 160], [225, 154, 128],
       [226, 128, 168], [226, 128, 169], [226, 128, 175], [226, 129, 159], [227, 128, 128]] @
      map (\<lambda>b. [226, 128, b]) [128 :: nat, 129, 130, 131, 132, 133, 134, 135, 136, 137, 138])"

text \<open>\<open>trim_start\<close>, and \<open>trim_end\<close> as the same from the other end.\<close>

function strip_front :: "string list \<Rightarrow> string \<Rightarrow> string" where
  "strip_front ws s =
     (case find (\<lambda>w. w \<noteq> [] \<and> length w \<le> length s \<and> take (length w) s = w) ws of
        None \<Rightarrow> s
      | Some w \<Rightarrow> strip_front ws (drop (length w) s))"
  by pat_completeness auto

lemma find_prefix_shorter:
  "find (\<lambda>w. w \<noteq> [] \<and> length w \<le> length s \<and> take (length w) s = w) ws = Some w \<Longrightarrow>
     length (drop (length w) s) < length s"
  by (auto simp: find_Some_iff) (metis diff_less le_zero_eq length_greater_0_conv list.size(3) not_gr_zero)

termination strip_front
  by (relation "measure (length \<circ> snd)") (use find_prefix_shorter in auto)

declare strip_front.simps [simp del]

definition trim :: "string \<Rightarrow> string" where
  "trim s = rev (strip_front (map rev white_spaces) (rev (strip_front white_spaces s)))"

lemma strip_front_length: "length (strip_front ws s) \<le> length s"
proof (induction ws s rule: strip_front.induct)
  case (1 ws s)
  show ?case
  proof (cases "find (\<lambda>w. w \<noteq> [] \<and> length w \<le> length s \<and> take (length w) s = w) ws")
    case (Some w)
    with 1 [OF Some] show ?thesis by (subst strip_front.simps) simp
  qed (subst strip_front.simps, simp)
qed

lemma trim_length: "length (trim s) \<le> length s"
  unfolding trim_def
  by (metis length_rev le_trans strip_front_length)

text \<open>A text that starts and ends with a visible ASCII character keeps its form.\<close>

definition visible :: "char \<Rightarrow> bool" where
  "visible c \<longleftrightarrow> 33 \<le> byte_of c \<and> byte_of c \<le> 126"

lemma strip_front_visible:
  assumes "s = [] \<or> visible (hd s)" and "\<forall>w \<in> set ws. w \<noteq> [] \<longrightarrow> \<not> visible (hd w)"
  shows "strip_front ws s = s"
proof -
  have "find (\<lambda>w. w \<noteq> [] \<and> length w \<le> length s \<and> take (length w) s = w) ws = None"
    using assms by (auto simp: find_None_iff) (metis hd_take length_greater_0_conv)
  then show ?thesis by (subst strip_front.simps) simp
qed

lemma white_spaces_invisible:
  "\<forall>w \<in> set white_spaces. w \<noteq> [] \<longrightarrow> \<not> visible (hd w)"
  "\<forall>w \<in> set (map rev white_spaces). w \<noteq> [] \<longrightarrow> \<not> visible (hd w)"
  by (simp_all add: white_spaces_def visible_def)

lemma trim_visible:
  assumes "s = [] \<or> visible (hd s) \<and> visible (last s)"
  shows "trim s = s"
proof -
  have "strip_front white_spaces s = s"
    by (rule strip_front_visible [OF _ white_spaces_invisible(1)]) (use assms in auto)
  moreover have "strip_front (map rev white_spaces) (rev s) = rev s"
    by (rule strip_front_visible [OF _ white_spaces_invisible(2)])
      (use assms in \<open>auto simp: hd_rev\<close>)
  ultimately show ?thesis by (simp add: trim_def)
qed

end
