(* ===== verification/CsvBatch.thy ===== *)
theory CsvBatch
  imports RustStr
begin

text \<open>
  Borrowed slices (src/crates/dtl-core/src/csv_zero_copy.rs, slices.rs): rows of a buffer as
  positions in it, the validity of UTF-8 bytes as \<open>str::from_utf8\<close> decides it, and the
  first word and the prefix of a slice.  A slice is a start and a length; nothing is copied.
\<close>

subsection \<open>UTF-8\<close>

definition is_continuation :: "char \<Rightarrow> bool" where
  "is_continuation c \<longleftrightarrow> 0x80 \<le> byte_of c \<and> byte_of c \<le> 0xBF"

text \<open>
  The well-formed sequences by first byte: how many bytes follow, and the range of the second
  (Unicode, table 3-7).
\<close>

definition utf8_class :: "nat \<Rightarrow> (nat \<times> nat \<times> nat) option" where
  "utf8_class b =
     (if b < 0x80 then Some (0, 0, 0)
      else if b < 0xC2 then None
      else if b < 0xE0 then Some (1, 0x80, 0xBF)
      else if b = 0xE0 then Some (2, 0xA0, 0xBF)
      else if b = 0xED then Some (2, 0x80, 0x9F)
      else if b < 0xF0 then Some (2, 0x80, 0xBF)
      else if b = 0xF0 then Some (3, 0x90, 0xBF)
      else if b < 0xF4 then Some (3, 0x80, 0xBF)
      else if b = 0xF4 then Some (3, 0x80, 0x8F)
      else None)"

definition well_follows :: "nat \<times> nat \<times> nat \<Rightarrow> string \<Rightarrow> bool" where
  "well_follows = (\<lambda>(n, lo, hi) s.
     n \<le> length s \<and> list_all is_continuation (take n s) \<and>
     (n = 0 \<or> lo \<le> byte_of (hd s) \<and> byte_of (hd s) \<le> hi))"

fun utf8_rest :: "string \<Rightarrow> string option" where
  "utf8_rest [] = None"
| "utf8_rest (c # s) =
     (case utf8_class (byte_of c) of
        None \<Rightarrow> None
      | Some k \<Rightarrow> if well_follows k s then Some (drop (fst k) s) else None)"

lemma utf8_rest_shorter: "utf8_rest s = Some r \<Longrightarrow> length r < length s"
  by (cases s) (auto split: option.splits if_splits)

function valid_utf8 :: "string \<Rightarrow> bool" where
  "valid_utf8 s =
     (s = [] \<or> (case utf8_rest s of None \<Rightarrow> False | Some r \<Rightarrow> valid_utf8 r))"
  by pat_completeness auto
termination
  by (relation "measure length") (auto dest: utf8_rest_shorter)

declare valid_utf8.simps [simp del]

definition is_ascii :: "char \<Rightarrow> bool" where
  "is_ascii c \<longleftrightarrow> byte_of c < 0x80"

lemma ascii_not_continuation: "is_ascii c \<Longrightarrow> \<not> is_continuation c"
  by (simp add: is_ascii_def is_continuation_def)

text \<open>An ASCII byte ends every sequence: what stands before it is read as if alone.\<close>

lemma well_follows_before:
  assumes "is_ascii d"
  shows "well_follows (n, lo, hi) (a @ d # b) \<longleftrightarrow> well_follows (n, lo, hi) a"
proof (cases "n \<le> length a")
  case True
  then have "take n (a @ d # b) = take n a" by simp
  moreover have "n = 0 \<or> hd (a @ d # b) = hd a" using True by (cases a) simp_all
  ultimately show ?thesis using True by (auto simp: well_follows_def)
next
  case False
  then have "d \<in> set (take n (a @ d # b))" by (simp add: take_Cons')
  then have "\<not> list_all is_continuation (take n (a @ d # b))"
    using ascii_not_continuation [OF assms] by (metis list_all_iff)
  with False show ?thesis by (auto simp: well_follows_def simp del: take_append list_all_append)
qed

lemma utf8_rest_before:
  assumes "is_ascii d" and "a \<noteq> []"
  shows "utf8_rest (a @ d # b) = map_option (\<lambda>r. r @ d # b) (utf8_rest a)"
proof (cases a)
  case (Cons c s)
  then show ?thesis using well_follows_before [OF assms(1)]
    by (auto simp: well_follows_def split: option.splits)
qed (use assms in simp)

lemma valid_utf8_split:
  assumes "is_ascii d"
  shows "valid_utf8 (a @ d # b) \<longleftrightarrow> valid_utf8 a \<and> valid_utf8 b"
proof (induction "length a" arbitrary: a rule: less_induct)
  case less
  show ?case
  proof (cases "a = []")
    case True
    have "utf8_rest (d # b) = Some b"
      using assms by (simp add: is_ascii_def utf8_class_def well_follows_def)
    with True show ?thesis by (simp add: valid_utf8.simps [of "d # b"] valid_utf8.simps [of "[]"])
  next
    case False
    show ?thesis
    proof (cases "utf8_rest a")
      case None
      with False utf8_rest_before [OF assms False, of b] show ?thesis
        by (simp add: valid_utf8.simps [of a] valid_utf8.simps [of "a @ d # b"])
    next
      case (Some r)
      with less [of r] utf8_rest_shorter [OF Some] utf8_rest_before [OF assms False, of b] False
      show ?thesis by (simp add: valid_utf8.simps [of a] valid_utf8.simps [of "a @ d # b"])
    qed
  qed
qed

lemma valid_utf8_pieces:
  assumes "is_ascii d"
  shows "valid_utf8 s \<longleftrightarrow> list_all valid_utf8 (split_at d s)"
proof (induction "length s" arbitrary: s rule: less_induct)
  case less
  show ?case
  proof (cases "d \<in> set s")
    case True
    then obtain a b where s: "s = a @ d # b" "d \<notin> set a" by (meson split_list_first)
    with less [of b] show ?thesis by (simp add: split_at_cons valid_utf8_split [OF assms])
  next
    case False
    then have "split_at d s = [s]" by (intro split_chars_none) (auto simp: list_all_iff)
    then show ?thesis by simp
  qed
qed

subsection \<open>Rows\<close>

record slice =
  sl_start :: nat
  sl_len :: nat

definition slice_of :: "string \<Rightarrow> slice \<Rightarrow> string" where
  "slice_of raw sl = take (sl_len sl) (drop (sl_start sl) raw)"

text \<open>\<open>raw.split(|&b| b == delimiter)\<close>, from a position on.\<close>

fun split_slices :: "char \<Rightarrow> nat \<Rightarrow> string \<Rightarrow> slice list" where
  "split_slices d pos [] = [\<lparr>sl_start = pos, sl_len = 0\<rparr>]"
| "split_slices d pos (c # cs) =
     (if c = d then \<lparr>sl_start = pos, sl_len = 0\<rparr> # split_slices d (pos + 1) cs
      else (case split_slices d (pos + 1) cs of
          sl # rest \<Rightarrow> \<lparr>sl_start = pos, sl_len = sl_len sl + 1\<rparr> # rest
        | [] \<Rightarrow> []))"

record csv_batch =
  cb_raw :: string
  cb_records :: "slice list"

definition parse_batch :: "string \<Rightarrow> char \<Rightarrow> csv_batch" where
  "parse_batch raw delimiter =
     \<lparr>cb_raw = raw, cb_records = filter (\<lambda>line. sl_len line \<noteq> 0) (split_slices delimiter 0 raw)\<rparr>"

definition record_count :: "csv_batch \<Rightarrow> nat" where
  "record_count batch = length (cb_records batch)"

definition record_at :: "csv_batch \<Rightarrow> nat \<Rightarrow> string option" where
  "record_at batch i =
     (if i < length (cb_records batch)
      then (let r = slice_of (cb_raw batch) (cb_records batch ! i) in
        if valid_utf8 r then Some r else None)
      else None)"

definition record_texts :: "csv_batch \<Rightarrow> string list" where
  "record_texts batch = map (slice_of (cb_raw batch)) (cb_records batch)"

text \<open>A slice starts where the one before it and its delimiter end.\<close>

definition inside :: "nat \<Rightarrow> slice \<Rightarrow> bool" where
  "inside n sl \<longleftrightarrow> sl_start sl + sl_len sl \<le> n"

definition before :: "slice \<Rightarrow> slice \<Rightarrow> bool" where
  "before a b \<longleftrightarrow> sl_start a + sl_len a < sl_start b"

lemma split_slices_pos:
  "split_slices d pos s \<noteq> [] \<and> sl_start (hd (split_slices d pos s)) = pos"
  by (induction s arbitrary: pos) (auto split: list.splits)

lemma split_slices_shape:
  "list_all (inside (pos + length s)) (split_slices d pos s) \<and> sorted_wrt before (split_slices d pos s) \<and>
   list_all (\<lambda>sl. pos \<le> sl_start sl) (split_slices d pos s)"
proof (induction s arbitrary: pos)
  case Nil
  then show ?case by (simp add: inside_def)
next
  case (Cons c s)
  obtain sl rest where split: "split_slices d (pos + 1) s = sl # rest" "sl_start sl = pos + 1"
    using split_slices_pos [of d "pos + 1" s] by (cases "split_slices d (pos + 1) s") auto
  from Cons.IH [of "pos + 1"] split show ?case
    by (auto simp: inside_def before_def list_all_iff)
qed

lemma split_slices_texts:
  "map (\<lambda>sl. take (sl_len sl) (drop (sl_start sl - pos) s)) (split_slices d pos s) = split_at d s"
proof (induction s arbitrary: pos)
  case (Cons c s)
  obtain sl rest where split: "split_slices d (pos + 1) s = sl # rest" "sl_start sl = pos + 1"
    using split_slices_pos [of d "pos + 1" s] by (cases "split_slices d (pos + 1) s") auto
  have later: "take (sl_len x) (drop (sl_start x - pos) (c # s)) = take (sl_len x) (drop (sl_start x - (pos + 1)) s)"
    if "x \<in> set (split_slices d (pos + 1) s)" for x
    using split_slices_shape [of "pos + 1" s d] that by (auto simp: list_all_iff drop_Cons' Suc_diff_le)
  then have "map (\<lambda>x. take (sl_len x) (drop (sl_start x - pos) (c # s))) (split_slices d (pos + 1) s) =
      map (\<lambda>x. take (sl_len x) (drop (sl_start x - (pos + 1)) s)) (split_slices d (pos + 1) s)"
    by (intro map_cong) auto
  also have "\<dots> = split_at d s" by (rule Cons.IH)
  finally have rest_texts: "map (\<lambda>x. take (sl_len x) (drop (sl_start x - pos) (c # s))) (sl # rest) = split_at d s"
    by (simp only: split(1))
  show ?case
  proof (cases "c = d")
    case True
    with rest_texts split(1) show ?thesis by simp
  next
    case False
    have "split_at d s = take (sl_len sl) s #
        map (\<lambda>x. take (sl_len x) (drop (sl_start x - pos) (c # s))) rest"
      using rest_texts split(2) by simp
    with split False show ?thesis by simp
  qed
qed simp

lemma parse_batch_texts: "record_texts (parse_batch raw d) = filter (\<lambda>p. p \<noteq> []) (split_at d raw)"
proof -
  have "filter (\<lambda>p. p \<noteq> []) (split_at d raw) =
      map (slice_of raw) (filter (\<lambda>sl. slice_of raw sl \<noteq> []) (split_slices d 0 raw))"
    unfolding split_slices_texts [of 0 raw d, symmetric] by (simp add: slice_of_def [abs_def] filter_map comp_def)
  also have "filter (\<lambda>sl. slice_of raw sl \<noteq> []) (split_slices d 0 raw) =
      filter (\<lambda>sl. sl_len sl \<noteq> 0) (split_slices d 0 raw)"
    using split_slices_shape [of 0 raw d]
    by (intro filter_cong) (auto simp: slice_of_def inside_def list_all_iff)
  finally show ?thesis by (simp add: record_texts_def parse_batch_def)
qed

lemma concat_pieces: "concat (split_at d s) = filter (\<lambda>c. c \<noteq> d) s"
proof (induction s)
  case (Cons c s)
  then show ?case by (cases "split_at d s") (auto simp: split_chars_nonempty)
qed simp

lemma concat_nonempty: "concat (filter (\<lambda>p. p \<noteq> []) ps) = concat ps"
  by (induction ps) auto

text \<open>
  The batch is a view of the buffer: its rows are slices inside it, in order and apart
  from each other, none of them empty or with a delimiter in it, and together they hold every
  byte of the buffer that is not a delimiter.
\<close>

theorem batch_is_view:
  "list_all (inside (length raw)) (cb_records (parse_batch raw d)) \<and>
   sorted_wrt before (cb_records (parse_batch raw d)) \<and>
   list_all (\<lambda>r. r \<noteq> [] \<and> d \<notin> set r) (record_texts (parse_batch raw d)) \<and>
   concat (record_texts (parse_batch raw d)) = filter (\<lambda>c. c \<noteq> d) raw"
proof (intro conjI)
  show "list_all (inside (length raw)) (cb_records (parse_batch raw d))"
    using split_slices_shape [of 0 raw d] by (simp add: parse_batch_def list_all_iff)
  show "sorted_wrt before (cb_records (parse_batch raw d))"
    using split_slices_shape [of 0 raw d] by (simp add: parse_batch_def sorted_wrt_filter)
  show "list_all (\<lambda>r. r \<noteq> [] \<and> d \<notin> set r) (record_texts (parse_batch raw d))"
    by (auto simp: parse_batch_texts list_all_iff dest: split_at_free)
  show "concat (record_texts (parse_batch raw d)) = filter (\<lambda>c. c \<noteq> d) raw"
    by (simp add: parse_batch_texts concat_nonempty concat_pieces)
qed

lemma record_at_texts:
  "record_at batch i =
     (if i < record_count batch \<and> valid_utf8 (record_texts batch ! i) then Some (record_texts batch ! i) else None)"
  by (simp add: record_at_def record_count_def record_texts_def Let_def)

text \<open>
  Splitting a text at an ASCII byte never cuts a character: every row of a valid UTF-8
  buffer is a valid text, so \<open>record_at\<close> is \<open>None\<close> past the end alone.
\<close>

theorem text_rows_readable:
  assumes "valid_utf8 raw" and "is_ascii d"
  shows "record_at (parse_batch raw d) i =
    (if i < record_count (parse_batch raw d) then Some (record_texts (parse_batch raw d) ! i) else None)"
proof -
  have "list_all valid_utf8 (record_texts (parse_batch raw d))"
    using assms valid_utf8_pieces [OF assms(2), of raw] by (simp add: parse_batch_texts list_all_iff)
  then show ?thesis
    by (auto simp: record_at_texts list_all_length record_count_def record_texts_def)
qed

lemma text_rows_readable_witness:
  "record_at (parse_batch ''ab;c;;'' CHR '';'') 1 = Some ''c'' \<and> record_at (parse_batch ''ab;c;;'' CHR '';'') 2 = None"
proof -
  have "valid_utf8 ''ab;c;;''" "is_ascii CHR '';''" by code_simp+
  note rows = text_rows_readable [OF this]
  have "record_count (parse_batch ''ab;c;;'' CHR '';'') = 2"
    "record_texts (parse_batch ''ab;c;;'' CHR '';'') = [''ab'', ''c'']" by code_simp+
  with rows [of 1] rows [of 2] show ?thesis by simp
qed

text \<open>A delimiter inside a character cuts it: half of a two-byte character is no text.\<close>

lemma cut_character: "record_at (parse_batch [CHR 0xC3, CHR 0xA9] CHR 0xA9) 0 = None"
  by code_simp

subsection \<open>Slices of slices\<close>

text \<open>\<open>&value[..index]\<close> panics, the outer \<open>None\<close>, unless \<open>index\<close> is a character boundary.\<close>

definition is_char_boundary :: "string \<Rightarrow> nat \<Rightarrow> bool" where
  "is_char_boundary s i \<longleftrightarrow> i = 0 \<or> i = length s \<or> i < length s \<and> \<not> is_continuation (s ! i)"

fun first_word_from :: "string \<Rightarrow> nat \<Rightarrow> string \<Rightarrow> string option" where
  "first_word_from str i [] = Some str"
| "first_word_from str i (byte # bytes) =
     (if byte = CHR '' '' then (if is_char_boundary str i then Some (take i str) else None)
      else first_word_from str (i + 1) bytes)"

definition first_word :: "string \<Rightarrow> string option" where
  "first_word str = first_word_from str 0 str"

definition number_prefix :: "32 word list \<Rightarrow> nat \<Rightarrow> 32 word list" where
  "number_prefix numbers n = take (min n (length numbers)) numbers"

lemma first_word_total: "first_word str = Some (takeWhile (\<lambda>c. c \<noteq> CHR '' '') str)"
proof -
  have loop: "first_word_from str (length a) b = Some (a @ takeWhile (\<lambda>c. c \<noteq> CHR '' '') b)"
    if "str = a @ b" for a b
    using that
  proof (induction b arbitrary: a)
    case (Cons c b)
    show ?case
    proof (cases "c = CHR '' ''")
      case True
      have "\<not> is_continuation CHR '' ''" by (simp add: is_continuation_def)
      with True Cons.prems show ?thesis by (simp add: is_char_boundary_def)
    next
      case False
      with Cons.IH [of "a @ [c]"] Cons.prems show ?thesis by simp
    qed
  qed simp
  from loop [of "[]" str] show ?thesis by (simp add: first_word_def)
qed

lemma number_prefix_total: "number_prefix numbers n = take n numbers"
  by (simp add: number_prefix_def min_def)

end
