(* ===== verification/StepInvariant.thy ===== *)
theory StepInvariant
  imports Prelude
begin

text \<open>
  Invariants of step relations: the reachable states of a system and the rule that an
  assertion which holds at the start and is kept by every step holds throughout.  The
  systems of \<open>TransportSystem\<close> and \<open>CancellationToken\<close> are instances.
\<close>

inductive reachable :: "('s \<Rightarrow> 's \<Rightarrow> bool) \<Rightarrow> 's \<Rightarrow> 's \<Rightarrow> bool" for step start where
  start: "reachable step start start"
| further: "reachable step start s \<Longrightarrow> step s s' \<Longrightarrow> reachable step start s'"

lemma reachable_trans:
  assumes "reachable step s' s''" and "reachable step s s'"
  shows "reachable step s s''"
  using assms by induction (auto intro: reachable.further)

text \<open>An invariant may lean on another one, \<open>known\<close>, that is already established.\<close>

locale step_invariant =
  fixes step :: "'s \<Rightarrow> 's \<Rightarrow> bool" and start :: 's and known inv :: "'s \<Rightarrow> bool"
  assumes known: "reachable step start s \<Longrightarrow> known s"
    and initially: "inv start"
    and kept: "known s \<Longrightarrow> inv s \<Longrightarrow> step s s' \<Longrightarrow> inv s'"
begin

lemma throughout: "reachable step start s \<Longrightarrow> inv s"
  by (induction rule: reachable.induct) (auto intro: initially kept known)

end

text \<open>A quantity no step decreases only grows along runs.\<close>

locale monotone_steps =
  fixes step :: "'s \<Rightarrow> 's \<Rightarrow> bool" and measure_of :: "'s \<Rightarrow> nat"
  assumes grows: "step s s' \<Longrightarrow> measure_of s \<le> measure_of s'"
begin

lemma along_runs: "reachable step s s' \<Longrightarrow> measure_of s \<le> measure_of s'"
  by (induction rule: reachable.induct) (auto dest: grows)

end

end
