(* ===== verification/FileRaces.thy ===== *)
theory FileRaces
  imports StepInvariant
begin

unbundle bit_operations_syntax

text \<open>
  The file-system patterns of \<open>dtl-core\<close> (src/crates/dtl-core/src/security_patterns.rs):
  creating a file or a directory in one system call against checking, or creating, first and
  acting later; and the two path containment checks.

  The callers are any number of threads of control that interleave at system calls, beside
  other programs that may do anything to the files between any two of these calls: add,
  remove, replace and rename, links included.
\<close>

subsection \<open>The file system\<close>

type_synonym mode = "32 word"

text \<open>A node remembers the caller that made it, if one of them did.  The mode of a file is left out.\<close>

datatype node =
    RegularFile "nat option"
  | Directory "nat option" mode
  | SymLink string

type_synonym files = "string \<rightharpoonup> node"

datatype io_error = AlreadyExists | IsADirectory | NotFound | TooManyLinks | OtherError

text \<open>Following links gives up after \<open>40\<close> of them, as the kernel does.\<close>

fun follow :: "nat \<Rightarrow> files \<Rightarrow> string \<Rightarrow> string option" where
  "follow fuel fs path =
     (case fs path of
        Some (SymLink target) \<Rightarrow> (case fuel of 0 \<Rightarrow> None | Suc fuel \<Rightarrow> follow fuel fs target)
      | _ \<Rightarrow> Some path)"

declare follow.simps [simp del]

text \<open>\<open>Path::exists\<close> follows links; a chain that cannot be followed does not exist.\<close>

definition path_exists :: "files \<Rightarrow> string \<Rightarrow> bool" where
  "path_exists fs path = (case follow 40 fs path of Some p \<Rightarrow> fs p \<noteq> None | None \<Rightarrow> False)"

text \<open>\<open>File::create\<close>: \<open>O_CREAT | O_TRUNC\<close>, links followed.  The value is the path opened.\<close>

definition file_create :: "nat \<Rightarrow> string \<Rightarrow> files \<Rightarrow> (io_error + string) \<times> files" where
  "file_create t path fs =
     (case follow 40 fs path of
        None \<Rightarrow> (Inl TooManyLinks, fs)
      | Some p \<Rightarrow>
          (case fs p of
             None \<Rightarrow> (Inr p, fs(p \<mapsto> RegularFile (Some t)))
           | Some (Directory _ _) \<Rightarrow> (Inl IsADirectory, fs)
           | Some _ \<Rightarrow> (Inr p, fs)))"

text \<open>\<open>O_CREAT | O_EXCL\<close>: anything at the path, a link included, is in the way.\<close>

definition create_file_atomically :: "nat \<Rightarrow> string \<Rightarrow> files \<Rightarrow> (io_error + string) \<times> files" where
  "create_file_atomically t path fs =
     (if fs path \<noteq> None then (Inl AlreadyExists, fs)
      else (Inr path, fs(path \<mapsto> RegularFile (Some t))))"

text \<open>\<open>create_file_racy\<close>, when nothing happens between its two calls.\<close>

definition create_file_racy :: "nat \<Rightarrow> string \<Rightarrow> files \<Rightarrow> (io_error + string) \<times> files" where
  "create_file_racy t path fs =
     (if path_exists fs path then (Inl AlreadyExists, fs) else file_create t path fs)"

text \<open>\<open>mkdir(2)\<close>: the requested permissions less the umask, the sticky bit with them.\<close>

definition masked :: "mode \<Rightarrow> mode \<Rightarrow> mode" where
  "masked umask m = m AND NOT umask AND 0x3FF"

definition create_dir :: "mode \<Rightarrow> nat \<Rightarrow> mode \<Rightarrow> string \<Rightarrow> files \<Rightarrow> (io_error + unit) \<times> files" where
  "create_dir umask t m path fs =
     (if fs path \<noteq> None then (Inl AlreadyExists, fs)
      else (Inr (), fs(path \<mapsto> Directory (Some t) (masked umask m))))"

definition mkdir_atomic_with_mode :: "mode \<Rightarrow> nat \<Rightarrow> mode \<Rightarrow> string \<Rightarrow> files \<Rightarrow> (io_error + unit) \<times> files" where
  "mkdir_atomic_with_mode umask t m path fs = create_dir umask t m path fs"

text \<open>\<open>fs::metadata\<close> and \<open>fs::set_permissions\<close>; the new mode replaces the old one whole.\<close>

definition read_metadata :: "string \<Rightarrow> files \<Rightarrow> io_error + node" where
  "read_metadata path fs =
     (case follow 40 fs path of
        None \<Rightarrow> Inl TooManyLinks
      | Some p \<Rightarrow> (case fs p of None \<Rightarrow> Inl NotFound | Some nd \<Rightarrow> Inr nd))"

definition set_permissions :: "mode \<Rightarrow> string \<Rightarrow> files \<Rightarrow> (io_error + unit) \<times> files" where
  "set_permissions m path fs =
     (case follow 40 fs path of
        None \<Rightarrow> (Inl TooManyLinks, fs)
      | Some p \<Rightarrow>
          (case fs p of
             None \<Rightarrow> (Inl NotFound, fs)
           | Some (Directory t _) \<Rightarrow> (Inr (), fs(p \<mapsto> Directory t (m AND 0xFFF)))
           | Some _ \<Rightarrow> (Inr (), fs)))"

text \<open>\<open>mkdir_racy_then_chmod\<close>, when nothing happens between its three calls.\<close>

definition mkdir_racy_then_chmod :: "mode \<Rightarrow> nat \<Rightarrow> mode \<Rightarrow> string \<Rightarrow> files \<Rightarrow> (io_error + unit) \<times> files" where
  "mkdir_racy_then_chmod umask t m path fs =
     (case create_dir umask t 0x1FF path fs of
        (Inl e, fs1) \<Rightarrow> (Inl e, fs1)
      | (Inr _, fs1) \<Rightarrow>
          (case read_metadata path fs1 of
             Inl e \<Rightarrow> (Inl e, fs1)
           | Inr _ \<Rightarrow> set_permissions m path fs1))"

subsection \<open>Callers that interleave\<close>

text \<open>What a caller runs, and how far it has come.\<close>

datatype call =
    CreateRacy string
  | CreateAtomically string
  | MkdirRacy string mode
  | MkdirAtomic string mode

datatype stage =
    NotStarted
  | FoundFree
  | MadeDirectory
  | ReadMetadata
  | Returned "io_error + string"

record fs_system =
  sy_files :: files
  sy_stages :: "nat \<Rightarrow> stage"

definition at_stage :: "nat \<Rightarrow> stage \<Rightarrow> files \<Rightarrow> fs_system \<Rightarrow> fs_system" where
  "at_stage t st fs s = s\<lparr>sy_files := fs, sy_stages := (sy_stages s)(t := st)\<rparr>"

definition returned :: "string \<Rightarrow> io_error + unit \<Rightarrow> stage" where
  "returned path r = Returned (case r of Inl e \<Rightarrow> Inl e | Inr _ \<Rightarrow> Inr path)"

text \<open>
  One system call of a caller.  Every call can also fail for a reason that is not modelled,
  and then leaves the files as they are.
\<close>

inductive caller_step :: "mode \<Rightarrow> (nat \<Rightarrow> call) \<Rightarrow> fs_system \<Rightarrow> fs_system \<Rightarrow> bool" for umask calls where
  racy_check: "calls t = CreateRacy path \<Longrightarrow> sy_stages s t = NotStarted \<Longrightarrow>
    caller_step umask calls s (at_stage t
      (if path_exists (sy_files s) path then Returned (Inl AlreadyExists) else FoundFree) (sy_files s) s)"
| racy_create: "calls t = CreateRacy path \<Longrightarrow> sy_stages s t = FoundFree \<Longrightarrow>
    file_create t path (sy_files s) = (r, fs) \<Longrightarrow>
    caller_step umask calls s (at_stage t (Returned r) fs s)"
| atomic_create: "calls t = CreateAtomically path \<Longrightarrow> sy_stages s t = NotStarted \<Longrightarrow>
    create_file_atomically t path (sy_files s) = (r, fs) \<Longrightarrow>
    caller_step umask calls s (at_stage t (Returned r) fs s)"
| racy_mkdir: "calls t = MkdirRacy path m \<Longrightarrow> sy_stages s t = NotStarted \<Longrightarrow>
    create_dir umask t 0x1FF path (sy_files s) = (r, fs) \<Longrightarrow>
    caller_step umask calls s (at_stage t
      (case r of Inl e \<Rightarrow> Returned (Inl e) | Inr _ \<Rightarrow> MadeDirectory) fs s)"
| racy_metadata: "calls t = MkdirRacy path m \<Longrightarrow> sy_stages s t = MadeDirectory \<Longrightarrow>
    caller_step umask calls s (at_stage t
      (case read_metadata path (sy_files s) of Inl e \<Rightarrow> Returned (Inl e) | Inr _ \<Rightarrow> ReadMetadata)
      (sy_files s) s)"
| racy_chmod: "calls t = MkdirRacy path m \<Longrightarrow> sy_stages s t = ReadMetadata \<Longrightarrow>
    set_permissions m path (sy_files s) = (r, fs) \<Longrightarrow>
    caller_step umask calls s (at_stage t (returned path r) fs s)"
| atomic_mkdir: "calls t = MkdirAtomic path m \<Longrightarrow> sy_stages s t = NotStarted \<Longrightarrow>
    mkdir_atomic_with_mode umask t m path (sy_files s) = (r, fs) \<Longrightarrow>
    caller_step umask calls s (at_stage t (returned path r) fs s)"
| call_failed: "(\<And>r. sy_stages s t \<noteq> Returned r) \<Longrightarrow>
    caller_step umask calls s (at_stage t (Returned (Inl OtherError)) (sy_files s) s)"

text \<open>
  A step of the whole system: a caller's, or one of the other programs, after which the files
  may be any.  Where the other programs rely on nothing but are known to leave one path
  alone, their steps are those that keep what stands at it.
\<close>

inductive fs_step :: "mode \<Rightarrow> (nat \<Rightarrow> call) \<Rightarrow> fs_system \<Rightarrow> fs_system \<Rightarrow> bool" for umask calls where
  own: "caller_step umask calls s s' \<Longrightarrow> fs_step umask calls s s'"
| intrusion: "fs_step umask calls s (s\<lparr>sy_files := fs\<rparr>)"

inductive sparing_step :: "string \<Rightarrow> mode \<Rightarrow> (nat \<Rightarrow> call) \<Rightarrow> fs_system \<Rightarrow> fs_system \<Rightarrow> bool"
  for path umask calls where
  spared_own: "caller_step umask calls s s' \<Longrightarrow> sparing_step path umask calls s s'"
| spared_intrusion: "fs path = sy_files s path \<Longrightarrow> sparing_step path umask calls s (s\<lparr>sy_files := fs\<rparr>)"

lemma sparing_is_step: "sparing_step path umask calls s s' \<Longrightarrow> fs_step umask calls s s'"
  by (auto elim!: sparing_step.cases intro: fs_step.intros)

definition started_on :: "files \<Rightarrow> fs_system" where
  "started_on fs = \<lparr>sy_files = fs, sy_stages = (\<lambda>_. NotStarted)\<rparr>"

fun is_link :: "node option \<Rightarrow> bool" where
  "is_link (Some (SymLink _)) = True"
| "is_link _ = False"

lemma follow_not_link: "\<not> is_link (fs path) \<Longrightarrow> follow fuel fs path = Some path"
  by (subst follow.simps) (auto split: option.splits node.splits)

subsection \<open>Alone, the two creations agree\<close>

lemma racy_is_atomic_alone:
  assumes "\<not> is_link (fs path)"
  shows "create_file_racy t path fs = create_file_atomically t path fs"
  using follow_not_link [of fs path 40] assms
  by (auto simp: create_file_racy_def create_file_atomically_def path_exists_def file_create_def)

subsection \<open>One call cannot be raced\<close>

text \<open>The node an atomic call asks for.\<close>

fun asked_node :: "mode \<Rightarrow> nat \<Rightarrow> call \<Rightarrow> (string \<times> node) option" where
  "asked_node umask t (CreateAtomically path) = Some (path, RegularFile (Some t))"
| "asked_node umask t (MkdirAtomic path m) = Some (path, Directory (Some t) (masked umask m))"
| "asked_node umask t _ = None"

text \<open>A node and what a \<open>chmod\<close> makes of it.\<close>

fun same_node :: "node \<Rightarrow> node \<Rightarrow> bool" where
  "same_node (Directory t m) (Directory t' m') \<longleftrightarrow> t = t'"
| "same_node nd nd' \<longleftrightarrow> nd = nd'"

lemma same_node_refl [simp]: "same_node nd nd"
  by (cases nd) auto

lemma same_node_trans: "same_node a b \<Longrightarrow> same_node b c \<Longrightarrow> same_node a c"
  by (cases a; cases b; cases c) auto

definition never_chmods :: "(nat \<Rightarrow> call) \<Rightarrow> bool" where
  "never_chmods calls \<longleftrightarrow> (\<forall>t path m. calls t \<noteq> MkdirRacy path m)"

lemma file_create_cases:
  assumes "file_create t path fs = (r, fs')"
  shows "fs' = fs \<or> (\<exists>p. fs p = None \<and> r = Inr p \<and> fs' = fs(p \<mapsto> RegularFile (Some t)))"
  using assms by (auto simp: file_create_def split: option.splits node.splits)

lemma create_dir_cases:
  assumes "create_dir umask t m path fs = (r, fs')"
  shows "(r = Inl AlreadyExists \<and> fs' = fs) \<or>
    (r = Inr () \<and> fs path = None \<and> fs' = fs(path \<mapsto> Directory (Some t) (masked umask m)))"
  using assms by (auto simp: create_dir_def split: if_splits)

lemma set_permissions_cases:
  assumes "set_permissions m path fs = (r, fs')"
  shows "fs' = fs \<or> (\<exists>p t old. fs p = Some (Directory t old) \<and> fs' = fs(p \<mapsto> Directory t (m AND 0xFFF)))"
  using assms by (auto simp: set_permissions_def split: option.splits node.splits)

lemma set_permissions_own:
  assumes "set_permissions m path fs = (r, fs')" and "fs path = Some (Directory t old)"
  shows "r = Inr () \<and> fs' = fs(path \<mapsto> Directory t (m AND 0xFFF))"
  using assms follow_not_link [of fs path 40] by (simp add: set_permissions_def)

text \<open>No caller removes or replaces anything; the most it does to a node is a \<open>chmod\<close>.\<close>

lemma callers_keep:
  assumes "caller_step umask calls s s'" and "sy_files s p = Some nd"
  shows "\<exists>nd'. sy_files s' p = Some nd' \<and> same_node nd nd' \<and> (never_chmods calls \<longrightarrow> nd' = nd)"
  using assms
proof cases
  case (racy_create t path r fs)
  with file_create_cases [OF racy_create(4)] assms(2) show ?thesis by (auto simp: at_stage_def)
next
  case (racy_chmod t path m r fs)
  with set_permissions_cases [OF racy_chmod(4)] assms(2) show ?thesis
    by (auto simp: at_stage_def never_chmods_def)
qed (use assms(2) in \<open>auto simp: at_stage_def create_file_atomically_def mkdir_atomic_with_mode_def
    dest!: create_dir_cases split: if_splits\<close>)

text \<open>When an atomic call succeeds, it has made its node where nothing was.\<close>

lemma atomic_success:
  assumes "caller_step umask calls s s'" and "asked_node umask t (calls t) = Some (path, nd)"
    and "sy_stages s t \<noteq> Returned (Inr got)" and "sy_stages s' t = Returned (Inr got)"
  shows "got = path \<and> sy_files s path = None \<and> sy_files s' = (sy_files s)(path \<mapsto> nd)"
  using assms(1)
proof cases
  case (atomic_create u q r fs)
  with assms(2-4) show ?thesis
    by (auto simp: at_stage_def create_file_atomically_def split: if_splits)
next
  case (atomic_mkdir u q m r fs)
  with assms(2-4) create_dir_cases [of umask u m q "sy_files s" r fs] show ?thesis
    by (auto simp: at_stage_def mkdir_atomic_with_mode_def returned_def split: if_splits)
qed (use assms(2-4) in \<open>auto simp: at_stage_def split: if_splits\<close>)

subsection \<open>The guarantee\<close>

text \<open>From a state on where \<open>nd\<close> stands at the path, as long as the other programs spare it.\<close>

definition holds_path ::
    "mode \<Rightarrow> (nat \<Rightarrow> call) \<Rightarrow> string \<Rightarrow> node \<Rightarrow> fs_system \<Rightarrow> fs_system \<Rightarrow> bool" where
  "holds_path umask calls path nd s0 s \<longleftrightarrow>
     (\<exists>nd'. sy_files s path = Some nd' \<and> same_node nd nd' \<and> (never_chmods calls \<longrightarrow> nd' = nd)) \<and>
     (\<forall>u other g. asked_node umask u (calls u) = Some (path, other) \<longrightarrow>
        sy_stages s u = Returned (Inr g) \<longrightarrow> sy_stages s0 u = Returned (Inr g))"

lemma holds_path_step:
  assumes "sparing_step path umask calls s s'" and "holds_path umask calls path nd s0 s"
  shows "holds_path umask calls path nd s0 s'"
  using assms(1)
proof cases
  case spared_own
  from assms(2) obtain nd' where now: "sy_files s path = Some nd'" "same_node nd nd'"
      "never_chmods calls \<longrightarrow> nd' = nd" by (auto simp: holds_path_def)
  from callers_keep [OF spared_own now(1)] obtain nd2 where later: "sy_files s' path = Some nd2"
      "same_node nd' nd2" "never_chmods calls \<longrightarrow> nd2 = nd'" by blast
  have "sy_stages s0 u = Returned (Inr g)"
    if "asked_node umask u (calls u) = Some (path, other)" "sy_stages s' u = Returned (Inr g)" for u other g
    using atomic_success [OF spared_own that(1) _ that(2)] now(1) assms(2) that
    by (fastforce simp: holds_path_def)
  with now later same_node_trans show ?thesis by (auto simp: holds_path_def)
next
  case (spared_intrusion fs)
  with assms(2) show ?thesis by (auto simp: holds_path_def)
qed

interpretation spared: step_invariant "sparing_step path umask calls" s0 "\<lambda>_. True"
    "\<lambda>s. sy_files s0 path = Some nd \<longrightarrow> holds_path umask calls path nd s0 s" for path umask calls nd s0
  by unfold_locales (blast intro: holds_path_step | simp add: holds_path_def)+

text \<open>
  C39. A file or directory created in one call cannot be raced, whatever the other callers and
  programs have done and do: at the moment such a call succeeds, nothing was at the path it
  named, and its only effect is the very node it asked for, there.  From then on, for as long
  as the other programs leave that path alone, the node stays - as it is, unless a caller
  that makes directories the racy way redirects its later \<open>chmod\<close> to it - and no other such
  call succeeds on that path.
\<close>

theorem atomic_calls_exclusive:
  assumes "fs_step umask calls s s'" and "asked_node umask t (calls t) = Some (path, nd)"
    and "sy_stages s t \<noteq> Returned (Inr got)" and "sy_stages s' t = Returned (Inr got)"
  shows "got = path \<and> sy_files s path = None \<and> sy_files s' = (sy_files s)(path \<mapsto> nd) \<and>
    (\<forall>later. reachable (sparing_step path umask calls) s' later \<longrightarrow>
       (\<exists>nd'. sy_files later path = Some nd' \<and> same_node nd nd' \<and> (never_chmods calls \<longrightarrow> nd' = nd)) \<and>
       (\<forall>u other g. asked_node umask u (calls u) = Some (path, other) \<longrightarrow>
          sy_stages later u = Returned (Inr g) \<longrightarrow> sy_stages s' u = Returned (Inr g)))"
proof -
  from assms(1,3,4) have "caller_step umask calls s s'" by (auto elim: fs_step.cases)
  from atomic_success [OF this assms(2-4)]
  have made: "got = path \<and> sy_files s path = None \<and> sy_files s' = (sy_files s)(path \<mapsto> nd)" .
  have "holds_path umask calls path nd s' later" if "reachable (sparing_step path umask calls) s' later" for later
    using spared.throughout [OF that, of nd] made by simp
  with made show ?thesis by (simp add: holds_path_def)
qed

lemma masked_within: "masked umask m AND NOT m = 0" and masked_low: "masked umask m AND umask = 0"
  unfolding masked_def by (simp_all add: bit_eq_iff bit_simps)

subsection \<open>Two calls can\<close>

text \<open>Two callers of \<open>create_file_racy\<close>, both between check and creation.\<close>

lemma racy_both_succeed:
  "\<exists>s. reachable (sparing_step ''x'' umask (\<lambda>_. CreateRacy ''x'')) (started_on Map.empty) s \<and>
     sy_stages s 0 = Returned (Inr ''x'') \<and> sy_stages s 1 = Returned (Inr ''x'')"
proof -
  let ?calls = "\<lambda>_. CreateRacy ''x''" and ?s0 = "started_on Map.empty"
  let ?s1 = "at_stage 0 FoundFree Map.empty ?s0"
  let ?s2 = "at_stage 1 FoundFree Map.empty ?s1"
  let ?fs = "[''x'' \<mapsto> RegularFile (Some 0)]"
  let ?s3 = "at_stage 0 (Returned (Inr ''x'')) ?fs ?s2"
  let ?s4 = "at_stage 1 (Returned (Inr ''x'')) ?fs ?s3"
  note go = reachable.further [where step = "sparing_step ''x'' umask ?calls" and start = ?s0]
  have free: "follow 40 Map.empty ''x'' = Some ''x''" "follow 40 ?fs ''x'' = Some ''x''"
    by (simp_all add: follow_not_link)
  have s1: "sparing_step ''x'' umask ?calls ?s0 ?s1"
    using racy_check [of ?calls 0 "''x''" ?s0] free
    by (intro spared_own) (simp add: started_on_def path_exists_def)
  have s2: "sparing_step ''x'' umask ?calls ?s1 ?s2"
    using racy_check [of ?calls 1 "''x''" ?s1] free
    by (intro spared_own) (simp add: started_on_def at_stage_def path_exists_def)
  have s3: "sparing_step ''x'' umask ?calls ?s2 ?s3"
    using racy_create [of ?calls 0 "''x''" ?s2] free
    by (intro spared_own) (simp add: started_on_def at_stage_def file_create_def)
  have s4: "sparing_step ''x'' umask ?calls ?s3 ?s4"
    using racy_create [of ?calls 1 "''x''" ?s3] free
    by (intro spared_own) (simp add: started_on_def at_stage_def file_create_def)
  have "reachable (sparing_step ''x'' umask ?calls) ?s0 ?s4"
    by (rule go [OF go [OF go [OF go [OF reachable.start s1] s2] s3] s4])
  then show ?thesis by (intro exI [of _ ?s4]) (simp add: at_stage_def)
qed

text \<open>A link planted after the check sends the file somewhere else.\<close>

lemma racy_redirected:
  "\<exists>s. reachable (fs_step umask (\<lambda>_. CreateRacy ''x'')) (started_on Map.empty) s \<and>
     sy_stages s 0 = Returned (Inr ''y'') \<and> sy_files s ''y'' = Some (RegularFile (Some 0))"
proof -
  let ?calls = "\<lambda>_. CreateRacy ''x''" and ?s0 = "started_on Map.empty"
  let ?s1 = "at_stage 0 FoundFree Map.empty ?s0"
  let ?link = "[''x'' \<mapsto> SymLink ''y'']"
  let ?s2 = "?s1\<lparr>sy_files := ?link\<rparr>"
  let ?s3 = "at_stage 0 (Returned (Inr ''y'')) (?link(''y'' \<mapsto> RegularFile (Some 0))) ?s2"
  note go = reachable.further [where step = "fs_step umask ?calls" and start = ?s0]
  have links: "follow 40 Map.empty ''x'' = Some ''x''" "follow 40 ?link ''x'' = Some ''y''"
    by code_simp+
  have s1: "fs_step umask ?calls ?s0 ?s1"
    using racy_check [of ?calls 0 "''x''" ?s0] links by (intro own) (simp add: started_on_def path_exists_def)
  have s2: "fs_step umask ?calls ?s1 ?s2" by (rule intrusion)
  have s3: "fs_step umask ?calls ?s2 ?s3"
    using racy_create [of ?calls 0 "''x''" ?s2] links
    by (intro own) (simp add: started_on_def at_stage_def file_create_def)
  have "reachable (fs_step umask ?calls) ?s0 ?s3"
    by (rule go [OF go [OF go [OF reachable.start s1] s2] s3])
  then show ?thesis by (intro exI [of _ ?s3]) (simp add: at_stage_def)
qed

text \<open>Between creation and \<open>chmod\<close> a private directory (mode 700) is open to all (755).\<close>

lemma racy_mkdir_window:
  "\<exists>s. reachable (sparing_step ''d'' 0x12 (\<lambda>_. MkdirRacy ''d'' 0x1C0)) (started_on Map.empty) s \<and>
     sy_files s ''d'' = Some (Directory (Some 0) 0x1ED)"
proof -
  let ?calls = "\<lambda>_. MkdirRacy ''d'' 0x1C0" and ?s0 = "started_on Map.empty"
  let ?s1 = "at_stage 0 MadeDirectory [''d'' \<mapsto> Directory (Some 0) 0x1ED] ?s0"
  have "create_dir 0x12 0 0x1FF ''d'' Map.empty = (Inr (), [''d'' \<mapsto> Directory (Some 0) 0x1ED])"
    by (simp add: create_dir_def masked_def)
  then have step: "sparing_step ''d'' 0x12 ?calls ?s0 ?s1"
    using racy_mkdir [where umask = "0x12" and calls = ?calls and t = 0 and s = ?s0 and path = "''d''" and r = "Inr ()"]
    by (intro spared_own) (simp add: started_on_def)
  have "reachable (sparing_step ''d'' 0x12 ?calls) ?s0 ?s1"
    by (rule reachable.further) (rule reachable.start step)+
  then show ?thesis by (intro exI [of _ ?s1]) (simp add: at_stage_def)
qed

text \<open>
  What the guarantee leaves open is open: once another program removes the file, the next
  atomic call makes it anew.
\<close>

lemma removed_and_made_again:
  "\<exists>s. reachable (fs_step umask (\<lambda>_. CreateAtomically ''x'')) (started_on Map.empty) s \<and>
     sy_stages s 0 = Returned (Inr ''x'') \<and> sy_stages s 1 = Returned (Inr ''x'')"
proof -
  let ?calls = "\<lambda>_. CreateAtomically ''x''" and ?s0 = "started_on Map.empty"
  let ?s1 = "at_stage 0 (Returned (Inr ''x'')) [''x'' \<mapsto> RegularFile (Some 0)] ?s0"
  let ?s2 = "?s1\<lparr>sy_files := Map.empty\<rparr>"
  let ?s3 = "at_stage 1 (Returned (Inr ''x'')) [''x'' \<mapsto> RegularFile (Some 1)] ?s2"
  note go = reachable.further [where step = "fs_step umask ?calls" and start = ?s0]
  have s1: "fs_step umask ?calls ?s0 ?s1"
    using atomic_create [of ?calls 0 "''x''" ?s0] by (intro own) (simp add: started_on_def create_file_atomically_def)
  have s2: "fs_step umask ?calls ?s1 ?s2" by (rule intrusion)
  have s3: "fs_step umask ?calls ?s2 ?s3"
    using atomic_create [of ?calls 1 "''x''" ?s2]
    by (intro own) (simp add: started_on_def at_stage_def create_file_atomically_def)
  have "reachable (fs_step umask ?calls) ?s0 ?s3"
    by (rule go [OF go [OF go [OF reachable.start s1] s2] s3])
  then show ?thesis by (intro exI [of _ ?s3]) (simp add: at_stage_def)
qed

text \<open>
  The two ways to make a directory end in the same state exactly when the umask takes
  nothing from the requested mode: a single \<open>mkdir\<close> applies the mode less the umask, the
  later \<open>chmod\<close> applies it whole.
\<close>

theorem mkdir_mode_masked:
  assumes "fs path = None"
  shows "mkdir_atomic_with_mode umask t m path fs = mkdir_racy_then_chmod umask t m path fs \<longleftrightarrow>
    m AND 0xFFF = masked umask m"
proof -
  let ?made = "fs(path \<mapsto> Directory (Some t) (masked umask 0x1FF))"
  have made: "create_dir umask t 0x1FF path fs = (Inr (), ?made)" using assms by (simp add: create_dir_def)
  have "read_metadata path ?made = Inr (Directory (Some t) (masked umask 0x1FF))"
    using follow_not_link [of ?made path 40] by (simp add: read_metadata_def)
  with made set_permissions_own [of m path ?made _ _ "Some t" "masked umask 0x1FF"]
  have "mkdir_racy_then_chmod umask t m path fs = (Inr (), ?made(path \<mapsto> Directory (Some t) (m AND 0xFFF)))"
    by (cases "set_permissions m path ?made") (simp add: mkdir_racy_then_chmod_def)
  with assms show ?thesis
    by (auto simp: mkdir_atomic_with_mode_def create_dir_def dest: map_upd_eqD1)
qed

lemma mkdir_mode_masked_witness:
  "mkdir_atomic_with_mode 0x12 0 0x1FF ''d'' Map.empty \<noteq> mkdir_racy_then_chmod 0x12 0 0x1FF ''d'' Map.empty"
  using mkdir_mode_masked [of Map.empty "''d''" "0x12" 0 "0x1FF"] by (simp add: masked_def)

lemma atomic_calls_exclusive_witness:
  "\<exists>s. reachable (sparing_step ''x'' 0x12 (\<lambda>_. CreateAtomically ''x'')) (started_on Map.empty) s \<and>
     sy_files s ''x'' = Some (RegularFile (Some 0)) \<and> sy_stages s 1 = Returned (Inl AlreadyExists)"
proof -
  let ?calls = "\<lambda>_. CreateAtomically ''x''" and ?s0 = "started_on Map.empty"
  let ?fs = "[''x'' \<mapsto> RegularFile (Some 0)]"
  let ?s1 = "at_stage 0 (Returned (Inr ''x'')) ?fs ?s0"
  let ?s2 = "at_stage 1 (Returned (Inl AlreadyExists)) ?fs ?s1"
  have c1: "caller_step 0x12 ?calls ?s0 ?s1"
    using atomic_create [of ?calls 0 "''x''" ?s0] by (simp add: started_on_def create_file_atomically_def)
  have c2: "caller_step 0x12 ?calls ?s1 ?s2"
    using atomic_create [of ?calls 1 "''x''" ?s1] by (simp add: started_on_def at_stage_def create_file_atomically_def)
  have run2: "reachable (sparing_step ''x'' 0x12 ?calls) ?s1 ?s2"
    by (rule reachable.further) (rule reachable.start spared_own c2)+
  have run1: "reachable (sparing_step ''x'' 0x12 ?calls) ?s0 ?s1"
    by (rule reachable.further) (rule reachable.start spared_own c1)+
  have "asked_node 0x12 0 (?calls 0) = Some (''x'', RegularFile (Some 0))" "never_chmods ?calls"
    "sy_stages ?s0 0 \<noteq> Returned (Inr ''x'')" "sy_stages ?s1 0 = Returned (Inr ''x'')"
    by (simp_all add: at_stage_def started_on_def never_chmods_def)
  with atomic_calls_exclusive [OF own [OF c1], of 0] run2
  have "sy_files ?s2 ''x'' = Some (RegularFile (Some 0))" by blast
  with reachable_trans [OF run2 run1] show ?thesis
    by (intro exI [of _ ?s2]) (simp add: at_stage_def)
qed

subsection \<open>Path containment\<close>

definition is_within_naive :: "string \<Rightarrow> string \<Rightarrow> bool" where
  "is_within_naive base candidate \<longleftrightarrow> take (length base) candidate = base"

text \<open>\<open>canonicalize\<close> gives the components of the resolved path; \<open>Path::starts_with\<close> compares those.\<close>

definition is_within_safe :: "(string \<Rightarrow> string list option) \<Rightarrow> string \<Rightarrow> string \<Rightarrow> bool option" where
  "is_within_safe canonicalize base candidate =
     Option.bind (canonicalize base) (\<lambda>b.
     Option.bind (canonicalize candidate) (\<lambda>c. Some (take (length b) c = b)))"

definition path_text :: "string list \<Rightarrow> string" where
  "path_text cs = concat (map (\<lambda>c. CHR ''/'' # c) cs)"

definition component :: "string \<Rightarrow> bool" where
  "component c \<longleftrightarrow> c \<noteq> [] \<and> CHR ''/'' \<notin> set c"

lemma first_component:
  assumes "CHR ''/'' \<notin> set c" and "xs = [] \<or> hd xs = CHR ''/''"
  shows "takeWhile (\<lambda>x. x \<noteq> CHR ''/'') (c @ xs) = c"
proof -
  have "takeWhile (\<lambda>x. x \<noteq> CHR ''/'') xs = []" using assms(2) by (cases xs) simp_all
  with assms(1) show ?thesis by (subst takeWhile_append2) auto
qed

lemma component_apart:
  assumes "CHR ''/'' \<notin> set c" and "CHR ''/'' \<notin> set d" and "c @ xs = d @ ys"
    and "xs = [] \<or> hd xs = CHR ''/''" and "ys = [] \<or> hd ys = CHR ''/''"
  shows "c = d \<and> xs = ys"
  using first_component [OF assms(1,4)] first_component [OF assms(2,5)] assms(3) by simp

lemma path_text_head: "path_text cs = [] \<or> hd (path_text cs) = CHR ''/''"
  by (cases cs) (simp_all add: path_text_def)

lemma path_text_prefix:
  assumes "list_all component b" and "list_all component c"
  shows "take (length b) c = b \<longleftrightarrow>
    (\<exists>rest. path_text c = path_text b @ rest \<and> (rest = [] \<or> hd rest = CHR ''/''))"
  using assms
proof (induction b arbitrary: c)
  case Nil
  then show ?case using path_text_head [of c] by (auto simp: path_text_def)
next
  case (Cons x b)
  show ?case
  proof (cases c)
    case Nil
    then show ?thesis by (simp add: path_text_def)
  next
    case (Cons y c')
    have "(\<exists>rest. path_text (y # c') = path_text (x # b) @ rest \<and> (rest = [] \<or> hd rest = CHR ''/'')) \<longleftrightarrow>
      x = y \<and> (\<exists>rest. path_text c' = path_text b @ rest \<and> (rest = [] \<or> hd rest = CHR ''/''))"
    proof (intro iffI; elim exE conjE)
      fix rest
      assume "path_text (y # c') = path_text (x # b) @ rest" and rest: "rest = [] \<or> hd rest = CHR ''/''"
      then have "y @ path_text c' = x @ (path_text b @ rest)" by (simp add: path_text_def)
      moreover have "path_text b @ rest = [] \<or> hd (path_text b @ rest) = CHR ''/''"
        using rest path_text_head [of b] by (cases "path_text b") auto
      ultimately have "y = x \<and> path_text c' = path_text b @ rest"
        using component_apart [of y x "path_text c'" "path_text b @ rest"] path_text_head [of c']
          Cons.prems \<open>c = y # c'\<close> by (simp add: component_def)
      with rest show "x = y \<and> (\<exists>rest. path_text c' = path_text b @ rest \<and> (rest = [] \<or> hd rest = CHR ''/''))"
        by blast
    qed (auto simp: path_text_def)
    with Cons.IH [of c'] Cons.prems Cons show ?thesis by auto
  qed
qed

text \<open>On resolved paths the naive check errs on siblings alone: it does not ask for the separator.\<close>

lemma naive_against_safe:
  assumes "canonicalize base = Some b" and "canonicalize candidate = Some c"
    and "list_all component b" and "list_all component c"
  shows "is_within_safe canonicalize base candidate = Some True \<longleftrightarrow>
    is_within_naive (path_text b) (path_text c) \<and>
    (let rest = drop (length (path_text b)) (path_text c) in rest = [] \<or> hd rest = CHR ''/'')"
proof -
  have "is_within_safe canonicalize base candidate = Some True \<longleftrightarrow> take (length b) c = b"
    using assms(1,2) by (simp add: is_within_safe_def)
  also have "\<dots> \<longleftrightarrow> (\<exists>rest. path_text c = path_text b @ rest \<and> (rest = [] \<or> hd rest = CHR ''/''))"
    by (rule path_text_prefix [OF assms(3,4)])
  finally show ?thesis by (auto simp: is_within_naive_def Let_def) (metis append_take_drop_id)+
qed

end
