(* ===== verification/ArrowTypes.thy ===== *)
theory ArrowTypes
  imports Prelude
begin

text \<open>
  Arrow's own \<open>DataType\<close> and \<open>Field\<close> are data the code builds and reads; they are datatypes
  here with the constructors the repository uses, every other data type being \<open>OtherType\<close>.
\<close>

subsection \<open>Arrow's schema data\<close>

datatype time_unit = Second | Millisecond | Microsecond | Nanosecond

datatype data_type =
    Boolean | Int8 | Int16 | Int32 | Int64 | UInt8 | UInt16 | UInt32 | UInt64
  | Float32 | Float64 | Utf8
  | Decimal128 int int
  | Timestamp time_unit "string option"
  | ListOf arrow_field
  | LargeListOf arrow_field
  | StructOf "arrow_field list"
  | MapEntries arrow_field bool
  | OtherType string
and arrow_field =
  Field (f_name: string) (f_type: data_type) (f_nullable: bool) (f_meta: "(string \<times> string) list")

text \<open>\<open>Field::new\<close> carries no metadata.\<close>

definition field_new :: "string \<Rightarrow> data_type \<Rightarrow> bool \<Rightarrow> arrow_field" where
  "field_new name ty nullable = Field name ty nullable []"

type_synonym arrow_schema = "arrow_field list"

end
