(* ===== verification/PipelineErrors.thy ===== *)
theory PipelineErrors
  imports ArrowTypes
begin

text \<open>
  The error and outcome types of \<open>crates/pipeline/src\<close> (\<open>lib.rs\<close>, \<open>bounded.rs\<close>,
  \<open>batch_contract.rs\<close>, \<open>manifest.rs\<close>, \<open>object_store_io.rs\<close>, \<open>staging.rs\<close>,
  \<open>publication.rs\<close>) with the source's constructors.  An error value of a library
  (I/O, CSV, Parquet, JSON) is only ever wrapped and is a string here; of an object
  store's error the code distinguishes the kinds below.
\<close>

type_synonym foreign = string
type_synonym object_path = string
type_synonym file_path = string

datatype store_error =
    StoreNotFound foreign
  | StorePrecondition foreign
  | StoreNotModified foreign
  | StoreOther foreign

text \<open>\<open>batch_contract.rs\<close>.\<close>

datatype batch_violation =
    ColumnCount nat nat
  | FieldName nat string string
  | DataTypeViolation nat data_type data_type
  | Nullability nat bool bool
  | NullValues nat nat
  | ArrayRepresentation nat

text \<open>\<open>manifest.rs\<close>.\<close>

datatype manifest_violation =
    OutputKeyMismatch
  | MissingRunId
  | MissingOutputKey
  | MissingOutputIdentity
  | EmptyOutputIdentity
  | MissingDigestScheme

text \<open>\<open>object_store_io.rs\<close>; a range is its pair of bounds.\<close>

datatype snapshot_violation =
    MissingIdentity
  | Location
  | Identity
  | Size nat nat
  | Range "nat \<times> nat" "nat \<times> nat"
  | Length nat nat

text \<open>\<open>lib.rs\<close>.\<close>

datatype callback_stage = Transform | Sink

datatype pipeline_io_error =
    DeleteObject object_path store_error
  | CompletionIdentityRequired nat
  | Callback callback_stage nat pipeline_io_error
  | InvalidBatch batch_violation
  | OpenInput file_path foreign
  | ReadRecord foreign
  | InvalidId nat string
  | InvalidAmount nat string
  | InvalidTimestamp nat string
  | BuildBatch foreign
  | OpenOutput file_path foreign
  | WriteParquet foreign
  | ReadParquet foreign
  | DownloadObject object_path store_error
  | InvalidSnapshot object_path snapshot_violation
  | SnapshotPrecondition object_path store_error
  | UploadObject object_path store_error
  | MultipartAbort pipeline_io_error store_error
  | HeadObject object_path store_error
  | ReadManifest foreign
  | UnsupportedManifestVersion nat
  | InvalidManifest manifest_violation
  | UnsupportedDigestScheme string
  | WriteManifest foreign

text \<open>\<open>staging.rs\<close>.\<close>

datatype local_phase = Create | Write | Close | FileSync | Rename | ParentSync

datatype local_outcome = NotPublished | PublishedDurabilityUncertain

text \<open>\<open>publication.rs\<close>.\<close>

datatype remote_phase =
    Upload | InvalidateCompletion | PublishOutput | CaptureOutputIdentity
  | WriteCompletion | CleanupStaging

datatype remote_outcome =
    RemoteNotPublished | PublicationUnknown | PublishedWithoutCompletion
  | CompletionUnknown | CompletedCleanupUnknown

record remote_error =
  re_phase :: remote_phase
  re_outcome :: remote_outcome
  re_output_key :: object_path
  re_manifest_key :: object_path
  re_staging_key :: object_path
  re_source :: pipeline_io_error
  re_cleanup_error :: "pipeline_io_error option"

text \<open>\<open>bounded.rs\<close>.\<close>

datatype pipeline_error =
    RemotePublication remote_error
  | LocalPublication local_phase local_outcome file_path pipeline_io_error
  | BatchTooLarge nat nat
  | BatchGrowthExceedsBudget nat nat
  | ByteChargeOverflow
  | Io pipeline_io_error
  | Cancelled

subsection \<open>Which failures \<open>source()\<close> reaches\<close>

text \<open>
  \<open>Error::source\<close> of \<open>PipelineIoError\<close> and \<open>PipelineError\<close>, for the causes that are
  themselves errors of this crate; \<open>root_cause\<close> follows the chain.
\<close>

datatype cause = NoCause | LeafCause | IoCause pipeline_io_error | RemoteCause remote_error

fun io_source :: "pipeline_io_error \<Rightarrow> cause" where
  "io_source (MultipartAbort source _) = IoCause source"
| "io_source (Callback _ _ source) = IoCause source"
| "io_source (CompletionIdentityRequired _) = NoCause"
| "io_source (InvalidId _ _) = NoCause"
| "io_source (InvalidAmount _ _) = NoCause"
| "io_source (InvalidTimestamp _ _) = NoCause"
| "io_source (UnsupportedManifestVersion _) = NoCause"
| "io_source (UnsupportedDigestScheme _) = NoCause"
| "io_source _ = LeafCause"

fun pipeline_source :: "pipeline_error \<Rightarrow> cause" where
  "pipeline_source (RemotePublication e) = RemoteCause e"
| "pipeline_source (Io source) = IoCause source"
| "pipeline_source (LocalPublication _ _ _ source) = IoCause source"
| "pipeline_source Cancelled = NoCause"
| "pipeline_source (BatchTooLarge _ _) = NoCause"
| "pipeline_source (BatchGrowthExceedsBudget _ _) = NoCause"
| "pipeline_source ByteChargeOverflow = NoCause"

end
