(* ===== verification/Decimal.thy ===== *)
theory Decimal
  imports Prelude
begin

text \<open>
  Decimal numerals: the grammar that \<open>str::parse\<close> of Rust's integer types accepts, the
  rendering of \<open>Display\<close>, and their round trip.  \<open>IngestBatch\<close> reads identifiers with
  it, \<open>OrderRows\<close> amounts, and the error texts of \<open>SimdAdd\<close> and \<open>QueryFunctions\<close> count with it.
\<close>

subsection \<open>Reading\<close>

text \<open>An optional sign and at least one digit.\<close>

fun parse_digits :: "int \<Rightarrow> string \<Rightarrow> int option" where
  "parse_digits acc [] = Some acc"
| "parse_digits acc (c # cs) =
     (if is_ascii_digit c then parse_digits (acc * 10 + (int (byte_of c) - 48)) cs else None)"

fun parse_magnitude :: "string \<Rightarrow> int option" where
  "parse_magnitude [] = None"
| "parse_magnitude cs = parse_digits 0 cs"

definition parse_signed :: "string \<Rightarrow> int option" where
  "parse_signed s =
     (if s \<noteq> [] \<and> hd s = CHR ''-'' then map_option uminus (parse_magnitude (tl s))
      else if s \<noteq> [] \<and> hd s = CHR ''+'' then parse_magnitude (tl s)
      else parse_magnitude s)"

subsection \<open>Writing\<close>

text \<open>The decimal rendering of an integer.\<close>

function digits :: "nat \<Rightarrow> string" where
  "digits n = (if n < 10 then [char_of (48 + n)] else digits (n div 10) @ [char_of (48 + n mod 10)])"
  by pat_completeness auto
termination by (relation "measure id") auto

declare digits.simps [simp del]

definition show_int :: "int \<Rightarrow> string" where
  "show_int n = (if n < 0 then ''-'' @ digits (nat (- n)) else digits (nat n))"

lemma parse_digits_append:
  "parse_digits acc (s @ t) = Option.bind (parse_digits acc s) (\<lambda>a. parse_digits a t)"
  by (induction acc s rule: parse_digits.induct) auto

lemma digit_char:
  "d < 10 \<Longrightarrow> byte_of (char_of (48 + d) :: char) = 48 + d"
  "d < 10 \<Longrightarrow> is_ascii_digit (char_of (48 + d))"
  by (simp_all add: is_ascii_digit_def)

lemma digits_nonempty: "digits n \<noteq> []"
  by (subst digits.simps) simp

lemma parse_digits_digits: "parse_digits 0 (digits n) = Some (int n)"
proof (induction n rule: digits.induct)
  case (1 n)
  show ?case
  proof (cases "n < 10")
    case True
    then show ?thesis by (subst digits.simps) (simp add: digit_char)
  next
    case False
    have "int (n div 10) * 10 + int (n mod 10) = int n"
      by (metis div_mult_mod_eq of_nat_add of_nat_mult of_nat_numeral)
    with False 1 show ?thesis
      by (subst digits.simps) (simp add: parse_digits_append digit_char)
  qed
qed

lemma parse_magnitude_digits: "parse_magnitude (digits n) = Some (int n)"
  using digits_nonempty [of n] parse_digits_digits [of n] by (cases "digits n") simp_all

lemma digits_hd: "byte_of (hd (digits n)) \<ge> 48"
proof (induction n rule: digits.induct)
  case (1 n)
  then show ?case
    by (cases "n < 10") (subst digits.simps, simp add: digit_char digits_nonempty)+
qed

lemma digits_no_sign: "hd (digits n) \<noteq> CHR ''-''" "hd (digits n) \<noteq> CHR ''+''"
  using digits_hd [of n] by (auto simp: )

lemma parse_signed_show: "parse_signed (show_int n) = Some n"
  by (simp add: parse_signed_def show_int_def parse_magnitude_digits digits_no_sign digits_nonempty)

lemma digits_ascii: "list_all is_ascii_digit (digits n)"
proof (induction n rule: digits.induct)
  case (1 n)
  then show ?case
    by (cases "n < 10") (subst digits.simps, simp add: digit_char)+
qed

subsection \<open>The value of a numeral\<close>

definition digits_value :: "string \<Rightarrow> int" where
  "digits_value = foldl (\<lambda>acc c. acc * 10 + (int (byte_of c) - 48)) 0"

lemma parse_digits_value:
  assumes "list_all is_ascii_digit ds"
  shows "parse_digits acc ds = Some (foldl (\<lambda>acc c. acc * 10 + (int (byte_of c) - 48)) acc ds)"
  using assms by (induction acc ds rule: parse_digits.induct) auto

lemma parse_magnitude_value:
  assumes "list_all is_ascii_digit ds" and "ds \<noteq> []"
  shows "parse_magnitude ds = Some (digits_value ds)"
  using assms by (cases ds) (auto simp: parse_digits_value digits_value_def)

lemma digits_value_digits [simp]: "digits_value (digits n) = int n"
  using parse_digits_digits [of n] digits_ascii [of n]
  by (simp add: parse_digits_value digits_value_def)

lemma foldl_digits_nonneg:
  assumes "list_all is_ascii_digit ds" and "0 \<le> acc"
  shows "0 \<le> foldl (\<lambda>acc c. acc * 10 + (int (byte_of c) - 48)) acc ds"
  using assms by (induction ds arbitrary: acc) (auto simp: is_ascii_digit_def)

lemma digits_value_nonneg: "list_all is_ascii_digit ds \<Longrightarrow> 0 \<le> digits_value ds"
  by (simp add: digits_value_def foldl_digits_nonneg)

lemma ascii_digit_no_sign:
  "is_ascii_digit c \<Longrightarrow> c \<noteq> CHR ''-'' \<and> c \<noteq> CHR ''+'' \<and> c \<noteq> CHR ''.''"
  by (auto simp: is_ascii_digit_def)

text \<open>The optional signs, and what a sign does to the value.\<close>

definition sign_texts :: "string list" where
  "sign_texts = ['''', ''-'', ''+'']"

definition sign_factor :: "string \<Rightarrow> int" where
  "sign_factor sg = (if sg = ''-'' then - 1 else 1)"

lemma parse_signed_value:
  assumes "sg \<in> set sign_texts" and "list_all is_ascii_digit ds" and "ds \<noteq> []"
  shows "parse_signed (sg @ ds) = Some (sign_factor sg * digits_value ds)"
proof -
  obtain d ds' where ds: "ds = d # ds'" using assms(3) by (cases ds) auto
  have d: "d \<noteq> CHR ''-''" "d \<noteq> CHR ''+''" using assms(2) ds ascii_digit_no_sign [of d] by auto
  have m: "parse_magnitude ds = Some (digits_value ds)"
    by (rule parse_magnitude_value [OF assms(2,3)])
  show ?thesis using assms(1) m ds d
    by (auto simp: parse_signed_def sign_texts_def sign_factor_def)
qed

subsection \<open>Machine integers\<close>

definition in_i64 :: "int \<Rightarrow> bool" where
  "in_i64 n \<longleftrightarrow> - (2 ^ 63) \<le> n \<and> n < 2 ^ 63"

text \<open>\<open>str::parse::<i64>\<close>, and \<open>str::parse::<usize>\<close>, which takes no minus sign.\<close>

definition parse_i64 :: "string \<Rightarrow> i64 option" where
  "parse_i64 s =
     (case parse_signed s of
        None \<Rightarrow> None
      | Some n \<Rightarrow> if in_i64 n then Some (word_of_int n) else None)"

definition parse_usize :: "string \<Rightarrow> usize option" where
  "parse_usize s =
     (case parse_magnitude (if s \<noteq> [] \<and> hd s = CHR ''+'' then tl s else s) of
        None \<Rightarrow> None
      | Some n \<Rightarrow> if nat n \<le> usize_max then Some (nat n) else None)"

lemma parse_i64_show:
  "parse_i64 (show_int n) = (if in_i64 n then Some (word_of_int n) else None)"
  by (simp add: parse_i64_def parse_signed_show)

lemma sint_in_i64: "in_i64 (sint (n :: i64))"
  using sint_ge [of n] sint_lt [of n] by (simp add: in_i64_def)

lemma parse_i64_sint: "parse_i64 (show_int (sint n)) = Some n"
  by (simp add: parse_i64_show sint_in_i64)

lemma parse_usize_digits: "n \<le> usize_max \<Longrightarrow> parse_usize (digits n) = Some n"
  by (simp add: parse_usize_def parse_magnitude_digits digits_no_sign)

lemma parse_usize_bound: "parse_usize s = Some n \<Longrightarrow> n \<le> usize_max"
  by (auto simp: parse_usize_def split: option.splits if_splits)

end
