(* ===== verification/PipelineTexts.thy ===== *)
theory PipelineTexts
  imports PipelineErrors Decimal "HOL-Library.Sublist"
begin

text \<open>
  The messages of the pipeline's errors: \<open>Display\<close> of the types of \<open>PipelineErrors\<close>
  (src/crates/pipeline/src: lib.rs, batch_contract.rs, manifest.rs, object_store_io.rs,
  publication.rs, bounded.rs), and that a message never loses the cause it wraps.

  How a library prints its own values - an object store's error, a data type, a string in
  \<open>Debug\<close> form - is a parameter; a foreign error is kept as its text.
\<close>

record printers =
  pr_store :: "store_error \<Rightarrow> string"
  pr_type :: "data_type \<Rightarrow> string"
  pr_debug :: "string \<Rightarrow> string"

subsection \<open>Violations\<close>

fun bool_text :: "bool \<Rightarrow> string" where
  "bool_text True = ''true''"
| "bool_text False = ''false''"

fun manifest_violation_text :: "manifest_violation \<Rightarrow> string" where
  "manifest_violation_text OutputKeyMismatch = ''completion names a different output key''"
| "manifest_violation_text MissingRunId = ''version 2 requires a run ID''"
| "manifest_violation_text MissingOutputKey = ''version 2 requires an output key''"
| "manifest_violation_text MissingOutputIdentity = ''version 2 requires an output version or ETag''"
| "manifest_violation_text EmptyOutputIdentity = ''output identity must not be empty''"
| "manifest_violation_text MissingDigestScheme = ''version 2 requires a digest scheme''"

definition range_text :: "nat \<times> nat \<Rightarrow> string" where
  "range_text r = digits (fst r) @ ''..'' @ digits (snd r)"

fun snapshot_violation_text :: "snapshot_violation \<Rightarrow> string" where
  "snapshot_violation_text MissingIdentity = ''no object version or ETag is available''"
| "snapshot_violation_text Location = ''response names a different object''"
| "snapshot_violation_text Identity = ''response identity differs from the captured identity''"
| "snapshot_violation_text (Size expected actual) =
     ''expected object size '' @ digits expected @ '', got '' @ digits actual"
| "snapshot_violation_text (Range expected actual) =
     ''expected range '' @ range_text expected @ '', got '' @ range_text actual"
| "snapshot_violation_text (Length expected actual) =
     ''expected '' @ digits expected @ '' response bytes, got '' @ digits actual"

fun batch_violation_text :: "printers \<Rightarrow> batch_violation \<Rightarrow> string" where
  "batch_violation_text pr (ColumnCount expected found) =
     ''expected '' @ digits expected @ '' columns, found '' @ digits found"
| "batch_violation_text pr (FieldName i expected found) =
     ''column '' @ digits i @ '': expected name '' @ pr_debug pr expected @ '', found '' @ pr_debug pr found"
| "batch_violation_text pr (DataTypeViolation i expected found) =
     ''column '' @ digits i @ '': expected '' @ pr_type pr expected @ '', found '' @ pr_type pr found"
| "batch_violation_text pr (Nullability i expected found) =
     ''column '' @ digits i @ '': expected nullable='' @ bool_text expected @ '', found '' @ bool_text found"
| "batch_violation_text pr (NullValues i count) =
     ''column '' @ digits i @ '': found '' @ digits count @ '' forbidden nulls''"
| "batch_violation_text pr (ArrayRepresentation i) =
     ''column '' @ digits i @ '': unsupported Arrow array representation''"

subsection \<open>Errors\<close>

fun callback_stage_text :: "callback_stage \<Rightarrow> string" where
  "callback_stage_text Transform = ''transform''"
| "callback_stage_text Sink = ''sink''"

fun io_text :: "printers \<Rightarrow> pipeline_io_error \<Rightarrow> string" where
  "io_text pr (DeleteObject key source) = ''failed to delete '' @ key @ '': '' @ pr_store pr source"
| "io_text pr (CompletionIdentityRequired version) =
     ''manifest version '' @ digits version @ '' has no bound output identity''"
| "io_text pr (Callback stage batch source) =
     callback_stage_text stage @ '' callback at batch '' @ digits batch @ '': '' @ io_text pr source"
| "io_text pr (InvalidBatch violation) = ''invalid ingest batch: '' @ batch_violation_text pr violation"
| "io_text pr (OpenInput path source) = ''failed to open '' @ path @ '': '' @ source"
| "io_text pr (ReadRecord source) = ''failed to read CSV record: '' @ source"
| "io_text pr (InvalidId row cell) =
     ''row '' @ digits row @ '': invalid id '' @ pr_debug pr cell @ '', expected an integer''"
| "io_text pr (InvalidAmount row cell) =
     ''row '' @ digits row @ '': invalid amount '' @ pr_debug pr cell @ '', expected a fixed-scale-2 decimal''"
| "io_text pr (InvalidTimestamp row cell) =
     ''row '' @ digits row @ '': invalid placed_at '' @ pr_debug pr cell @ '', expected YYYY-MM-DDTHH:MM:SS''"
| "io_text pr (BuildBatch source) = ''failed to build record batch: '' @ source"
| "io_text pr (OpenOutput path source) = ''failed to create '' @ path @ '': '' @ source"
| "io_text pr (WriteParquet source) = ''failed to write parquet: '' @ source"
| "io_text pr (ReadParquet source) = ''failed to read parquet: '' @ source"
| "io_text pr (DownloadObject key source) = ''failed to download '' @ key @ '': '' @ pr_store pr source"
| "io_text pr (InvalidSnapshot key violation) =
     ''invalid snapshot response for '' @ key @ '': '' @ snapshot_violation_text violation"
| "io_text pr (SnapshotPrecondition key source) =
     ''snapshot condition failed for '' @ key @ '': '' @ pr_store pr source"
| "io_text pr (UploadObject key source) = ''failed to upload '' @ key @ '': '' @ pr_store pr source"
| "io_text pr (MultipartAbort source abort_source) =
     io_text pr source @ ''; multipart abort also failed: '' @ pr_store pr abort_source"
| "io_text pr (HeadObject key source) = ''failed to read metadata for '' @ key @ '': '' @ pr_store pr source"
| "io_text pr (ReadManifest source) = ''failed to decode completion manifest: '' @ source"
| "io_text pr (UnsupportedManifestVersion version) =
     ''unsupported completion manifest version '' @ digits version"
| "io_text pr (InvalidManifest violation) =
     ''invalid completion manifest: '' @ manifest_violation_text violation"
| "io_text pr (UnsupportedDigestScheme scheme) = ''unsupported digest scheme '' @ pr_debug pr scheme"
| "io_text pr (WriteManifest source) = ''failed to serialize completion manifest: '' @ source"

text \<open>The derived \<open>Debug\<close> of a phase or an outcome is its name.\<close>

fun remote_phase_name :: "remote_phase \<Rightarrow> string" where
  "remote_phase_name Upload = ''Upload''"
| "remote_phase_name InvalidateCompletion = ''InvalidateCompletion''"
| "remote_phase_name PublishOutput = ''PublishOutput''"
| "remote_phase_name CaptureOutputIdentity = ''CaptureOutputIdentity''"
| "remote_phase_name WriteCompletion = ''WriteCompletion''"
| "remote_phase_name CleanupStaging = ''CleanupStaging''"

fun remote_outcome_name :: "remote_outcome \<Rightarrow> string" where
  "remote_outcome_name RemoteNotPublished = ''NotPublished''"
| "remote_outcome_name PublicationUnknown = ''PublicationUnknown''"
| "remote_outcome_name PublishedWithoutCompletion = ''PublishedWithoutCompletion''"
| "remote_outcome_name CompletionUnknown = ''CompletionUnknown''"
| "remote_outcome_name CompletedCleanupUnknown = ''CompletedCleanupUnknown''"

definition remote_text :: "printers \<Rightarrow> remote_error \<Rightarrow> string" where
  "remote_text pr e =
     ''remote publication '' @ remote_phase_name (re_phase e) @ '' for '' @ re_output_key e @ '' ('' @
     remote_outcome_name (re_outcome e) @ ''): '' @ io_text pr (re_source e) @
     (case re_cleanup_error e of
        None \<Rightarrow> []
      | Some error \<Rightarrow> ''; owned staging cleanup also failed: '' @ io_text pr error)"

fun local_phase_name :: "local_phase \<Rightarrow> string" where
  "local_phase_name Create = ''Create''"
| "local_phase_name Write = ''Write''"
| "local_phase_name Close = ''Close''"
| "local_phase_name FileSync = ''FileSync''"
| "local_phase_name Rename = ''Rename''"
| "local_phase_name ParentSync = ''ParentSync''"

fun local_outcome_name :: "local_outcome \<Rightarrow> string" where
  "local_outcome_name NotPublished = ''NotPublished''"
| "local_outcome_name PublishedDurabilityUncertain = ''PublishedDurabilityUncertain''"

fun pipeline_text :: "printers \<Rightarrow> pipeline_error \<Rightarrow> string" where
  "pipeline_text pr (LocalPublication phase outcome output source) =
     ''local publication '' @ local_phase_name phase @ '' for '' @ output @ '' ('' @
     local_outcome_name outcome @ ''): '' @ io_text pr source"
| "pipeline_text pr (BatchTooLarge bytes limit) =
     ''batch charge '' @ digits bytes @ '' exceeds byte budget '' @ digits limit"
| "pipeline_text pr (BatchGrowthExceedsBudget bytes available) =
     ''transformed batch charge '' @ digits bytes @ '' exceeds available budget '' @ digits available"
| "pipeline_text pr ByteChargeOverflow = ''batch byte charge overflow''"
| "pipeline_text pr (RemotePublication e) = remote_text pr e"
| "pipeline_text pr (Io source) = io_text pr source"
| "pipeline_text pr Cancelled = ''pipeline was cancelled before output was published''"

subsection \<open>No cause is lost\<close>

text \<open>The messages along \<open>source()\<close>, from an error down to the last one of this crate.\<close>

fun io_chain :: "printers \<Rightarrow> pipeline_io_error \<Rightarrow> string list" where
  "io_chain pr (MultipartAbort source abort) = io_text pr (MultipartAbort source abort) # io_chain pr source"
| "io_chain pr (Callback stage batch source) = io_text pr (Callback stage batch source) # io_chain pr source"
| "io_chain pr e = [io_text pr e]"

fun cause_chain :: "printers \<Rightarrow> cause \<Rightarrow> string list" where
  "cause_chain pr (IoCause e) = io_chain pr e"
| "cause_chain pr (RemoteCause e) = remote_text pr e # io_chain pr (re_source e)"
| "cause_chain pr _ = []"

definition pipeline_chain :: "printers \<Rightarrow> pipeline_error \<Rightarrow> string list" where
  "pipeline_chain pr e = pipeline_text pr e # cause_chain pr (pipeline_source e)"

lemma io_chain_follows_source:
  "io_chain pr e = io_text pr e # (case io_source e of IoCause s \<Rightarrow> io_chain pr s | _ \<Rightarrow> [])"
  by (cases e) simp_all

lemma sublist_inside: "sublist s t \<Longrightarrow> sublist s (a @ t @ b)"
  by (metis sublist_appendI sublist_order.order.trans)

lemma sublist_last: "sublist s t \<Longrightarrow> sublist s (a @ t)"
  using sublist_inside [of s t a "[]"] by simp

lemma io_chain_inside: "list_all (\<lambda>m. sublist m (io_text pr e)) (io_chain pr e)"
proof (induction e)
  case (Callback stage batch source)
  then show ?case
    using sublist_last [of _ "io_text pr source"
        "callback_stage_text stage @ '' callback at batch '' @ digits batch @ '': ''"]
    by (auto simp: list_all_iff)
next
  case (MultipartAbort source abort)
  then show ?case
    using sublist_inside [of _ "io_text pr source" "[]" "''; multipart abort also failed: '' @ pr_store pr abort"]
    by (auto simp: list_all_iff)
qed simp_all

lemma remote_inside:
  assumes "sublist m (io_text pr (re_source e))"
  shows "sublist m (remote_text pr e)"
  using sublist_inside [OF assms, of
      "''remote publication '' @ remote_phase_name (re_phase e) @ '' for '' @ re_output_key e @ '' ('' @
       remote_outcome_name (re_outcome e) @ ''): ''"
      "case re_cleanup_error e of None \<Rightarrow> []
       | Some error \<Rightarrow> ''; owned staging cleanup also failed: '' @ io_text pr error"]
  by (simp add: remote_text_def)

text \<open>
  Nothing is lost on the way up: the message of an error of the pipeline contains the
  message of every error along its chain of causes.
\<close>

theorem message_contains_causes:
  "list_all (\<lambda>m. sublist m (pipeline_text pr e)) (pipeline_chain pr e)"
proof (cases e)
  case (RemotePublication r)
  with io_chain_inside [of pr "re_source r"] show ?thesis
    by (auto simp: pipeline_chain_def list_all_iff intro: remote_inside)
next
  case (LocalPublication phase known dest source)
  with io_chain_inside [of pr source] sublist_last [of _ "io_text pr source"
      "''local publication '' @ local_phase_name phase @ '' for '' @ dest @ '' ('' @
       local_outcome_name known @ ''): ''"]
  show ?thesis by (auto simp: pipeline_chain_def list_all_iff)
next
  case (Io source)
  with io_chain_inside [of pr source] show ?thesis by (simp add: pipeline_chain_def)
qed (simp_all add: pipeline_chain_def)

end
