(* ===== verification/ContractTypes.thy ===== *)
theory ContractTypes
  imports Prelude
begin

text \<open>
  The data of \<open>crates/contracts/src/lib.rs\<close> (type shapes, fields, policies), its
  \<open>const fn\<close> byte-string comparisons, field lookups and shape equality, with the list
  equations they are equal to.
\<close>

subsection \<open>Shapes and policies\<close>

text \<open>\<open>TypeShape\<close> and \<open>FieldShape\<close>; the two Rust types are mutually recursive.\<close>

datatype type_shape =
    Primitive string
  | Optional type_shape
  | Sequence type_shape
  | MapOf type_shape type_shape
  | Struct "field_shape list"
and field_shape = FieldShape (fs_name: string) (fs_shape: type_shape) (fs_default: bool)

datatype schema_policy =
    Exact | ExactUnorderedCI | ExactOrdered | ExactOrderedCI | ExactByPosition
  | Backward | Forward | Full

datatype diff_kind = Missing | Extra | Mismatch

subsection \<open>Byte-string comparison\<close>

definition to_ascii_lower :: "char \<Rightarrow> char" where
  "to_ascii_lower b = (if is_ascii_uppercase b then char_of (byte_of b + 32) else b)"

text \<open>The \<open>while i < a.len()\<close> loop of \<open>str_eq\<close> and \<open>str_eq_ci\<close>, \<open>f\<close> applied to each byte.\<close>

function bytes_agree_from :: "(char \<Rightarrow> char) \<Rightarrow> string \<Rightarrow> string \<Rightarrow> nat \<Rightarrow> bool" where
  "bytes_agree_from f a b i =
     (if i < length a
      then (if f (a ! i) \<noteq> f (b ! i) then False else bytes_agree_from f a b (i + 1))
      else True)"
  by pat_completeness auto
termination
  by (relation "measure (\<lambda>(f, a, b, i). length a - i)") auto

declare bytes_agree_from.simps [simp del]

definition str_eq :: "string \<Rightarrow> string \<Rightarrow> bool" where
  "str_eq a b = (if length a \<noteq> length b then False else bytes_agree_from (\<lambda>c. c) a b 0)"

definition str_eq_ci :: "string \<Rightarrow> string \<Rightarrow> bool" where
  "str_eq_ci a b = (if length a \<noteq> length b then False else bytes_agree_from to_ascii_lower a b 0)"

definition name_eq :: "bool \<Rightarrow> string \<Rightarrow> string \<Rightarrow> bool" where
  "name_eq ci a b = (if ci then str_eq_ci a b else str_eq a b)"

subsection \<open>Field lookups and shape equality\<close>

text \<open>The inner \<open>j\<close> loop of \<open>duplicate_field_name\<close>: a later field named like \<open>name\<close>.\<close>

fun later_duplicate :: "string \<Rightarrow> field_shape list \<Rightarrow> bool \<Rightarrow> string option" where
  "later_duplicate name [] ci = None"
| "later_duplicate name (f # fs) ci =
     (if name_eq ci name (fs_name f) then Some (fs_name f) else later_duplicate name fs ci)"

fun duplicate_field_name :: "field_shape list \<Rightarrow> bool \<Rightarrow> string option" where
  "duplicate_field_name [] ci = None"
| "duplicate_field_name (f # fs) ci =
     (case later_duplicate (fs_name f) fs ci of
        Some name \<Rightarrow> Some name
      | None \<Rightarrow> duplicate_field_name fs ci)"

fun find_field_mode :: "field_shape list \<Rightarrow> string \<Rightarrow> bool \<Rightarrow> field_shape option" where
  "find_field_mode [] name ci = None"
| "find_field_mode (f # fs) name ci =
     (if name_eq ci (fs_name f) name then Some f else find_field_mode fs name ci)"

definition min_len :: "nat \<Rightarrow> nat \<Rightarrow> nat" where
  "min_len a b = (if a < b then a else b)"

fun is_optional :: "type_shape \<Rightarrow> bool" where
  "is_optional (Optional t) = True"
| "is_optional _ = False"

text \<open>\<open>shape_eq\<close> and the loop of \<open>fields_eq\<close>; declared defaults are not compared.\<close>

fun shape_eq :: "type_shape \<Rightarrow> type_shape \<Rightarrow> bool"
  and fields_eq :: "field_shape list \<Rightarrow> field_shape list \<Rightarrow> bool"
  and fields_eq_loop :: "field_shape list \<Rightarrow> field_shape list \<Rightarrow> bool" where
  "shape_eq (Primitive x) (Primitive y) = str_eq x y"
| "shape_eq (Optional x) (Optional y) = shape_eq x y"
| "shape_eq (Sequence x) (Sequence y) = shape_eq x y"
| "shape_eq (MapOf k1 v1) (MapOf k2 v2) = (shape_eq k1 k2 \<and> shape_eq v1 v2)"
| "shape_eq (Struct f1) (Struct f2) = fields_eq f1 f2"
| "shape_eq _ _ = False"
| "fields_eq a b = (if length a \<noteq> length b then False else fields_eq_loop a b)"
| "fields_eq_loop (FieldShape n1 s1 d1 # a) (FieldShape n2 s2 d2 # b) =
     (if \<not> str_eq n1 n2 \<or> \<not> shape_eq s1 s2 then False else fields_eq_loop a b)"
| "fields_eq_loop _ _ = True"

subsection \<open>Byte loops and name lookups\<close>

lemma bytes_agree_from_iff:
  "bytes_agree_from f a b i \<longleftrightarrow> (\<forall>j. i \<le> j \<and> j < length a \<longrightarrow> f (a ! j) = f (b ! j))"
proof (induction f a b i rule: bytes_agree_from.induct)
  case (1 f a b i)
  show ?case
  proof (cases "i < length a \<and> f (a ! i) = f (b ! i)")
    case True
    then have "bytes_agree_from f a b i \<longleftrightarrow> bytes_agree_from f a b (i + 1)"
      by (simp add: bytes_agree_from.simps [of f a b i])
    also have "\<dots> \<longleftrightarrow> (\<forall>j. i + 1 \<le> j \<and> j < length a \<longrightarrow> f (a ! j) = f (b ! j))"
      using "1.IH" True by blast
    also have "\<dots> \<longleftrightarrow> (\<forall>j. i \<le> j \<and> j < length a \<longrightarrow> f (a ! j) = f (b ! j))"
      using True by (metis Suc_eq_plus1 Suc_leD Suc_leI le_neq_implies_less)
    finally show ?thesis .
  next
    case False
    then show ?thesis by (auto simp: bytes_agree_from.simps [of f a b i])
  qed
qed

lemma bytes_agree_map:
  "length a = length b \<Longrightarrow> bytes_agree_from f a b 0 \<longleftrightarrow> map f a = map f b"
  by (auto simp: bytes_agree_from_iff list_eq_iff_nth_eq)

lemma str_eq_iff [simp]: "str_eq a b \<longleftrightarrow> a = b"
  by (auto simp: str_eq_def bytes_agree_map)

definition name_key :: "bool \<Rightarrow> string \<Rightarrow> string" where
  "name_key ci s = (if ci then map to_ascii_lower s else s)"

lemma str_eq_ci_iff: "str_eq_ci a b \<longleftrightarrow> map to_ascii_lower a = map to_ascii_lower b"
  by (auto simp: str_eq_ci_def bytes_agree_map dest: map_eq_imp_length_eq)

lemma name_eq_iff: "name_eq ci a b \<longleftrightarrow> name_key ci a = name_key ci b"
  by (simp add: name_eq_def name_key_def str_eq_ci_iff)

abbreviation field_keys :: "bool \<Rightarrow> field_shape list \<Rightarrow> string list" where
  "field_keys ci \<equiv> map (\<lambda>f. name_key ci (fs_name f))"

lemma later_duplicate_None:
  "later_duplicate n fs ci = None \<longleftrightarrow> name_key ci n \<notin> set (field_keys ci fs)"
  by (induction fs) (auto simp: name_eq_iff)

lemma duplicate_field_name_None:
  "duplicate_field_name fs ci = None \<longleftrightarrow> distinct (field_keys ci fs)"
proof (induction fs)
  case (Cons f fs)
  then show ?case
    using later_duplicate_None [of "fs_name f" fs ci]
    by (cases "later_duplicate (fs_name f) fs ci") auto
qed simp

lemma find_field_mode_None:
  "find_field_mode fs n ci = None \<longleftrightarrow> name_key ci n \<notin> set (field_keys ci fs)"
  by (induction fs) (auto simp: name_eq_iff)

lemma find_field_mode_Some:
  "find_field_mode fs n ci = Some f \<Longrightarrow> f \<in> set fs \<and> name_key ci (fs_name f) = name_key ci n"
  by (induction fs) (auto simp: name_eq_iff split: if_splits)

lemma find_field_mode_distinct:
  "distinct (field_keys ci fs) \<Longrightarrow>
   find_field_mode fs n ci = Some f \<longleftrightarrow> f \<in> set fs \<and> name_key ci (fs_name f) = name_key ci n"
  by (induction fs) (auto simp: name_eq_iff image_iff split: if_splits)

lemma min_len_min: "min_len a b = min a b"
  by (simp add: min_len_def min_def)

subsection \<open>Shape equality forgets declared defaults\<close>

primrec erase_defaults :: "type_shape \<Rightarrow> type_shape"
  and erase_field :: "field_shape \<Rightarrow> field_shape" where
  "erase_defaults (Primitive n) = Primitive n"
| "erase_defaults (Optional t) = Optional (erase_defaults t)"
| "erase_defaults (Sequence t) = Sequence (erase_defaults t)"
| "erase_defaults (MapOf k v) = MapOf (erase_defaults k) (erase_defaults v)"
| "erase_defaults (Struct fs) = Struct (map erase_field fs)"
| "erase_field (FieldShape n s d) = FieldShape n (erase_defaults s) False"

lemma erase_field_sel [simp]:
  "fs_name (erase_field f) = fs_name f"
  "fs_shape (erase_field f) = erase_defaults (fs_shape f)"
  by (cases f; simp)+

lemma shape_eq_erase:
  shows "shape_eq a b \<longleftrightarrow> erase_defaults a = erase_defaults b"
    and "fields_eq fs gs \<longleftrightarrow> map erase_field fs = map erase_field gs"
    and "length fs = length gs \<Longrightarrow>
      fields_eq_loop fs gs \<longleftrightarrow> map erase_field fs = map erase_field gs"
proof (induction a b and fs gs and fs gs rule: shape_eq_fields_eq_fields_eq_loop.induct)
  case (7 a b)
  then show ?case by (auto dest: map_eq_imp_length_eq)
qed auto

end
