(* ===== verification/ContractShape.thy ===== *)
theory ContractShape
  imports ContractTypes
begin

text \<open>
  The comparison of \<open>crates/contracts/src/lib.rs\<close>: the bounded diff accumulator and the mutually recursive traversal that
  compares a producer's shape with a contract's shape.  The traversal threads the
  \<open>Comparison\<close> value through every call as the source threads \<open>&mut Comparison\<close>.
\<close>

subsection \<open>Differences\<close>

definition MAX_PATH_DEPTH :: nat where "MAX_PATH_DEPTH = 8"

definition MAX_DIFFS :: nat where "MAX_DIFFS = 128"

text \<open>A path is the source's array \<open>[&str; MAX_PATH_DEPTH]\<close>, unused slots empty.\<close>

type_synonym path8 = "string list"

definition empty_path :: path8 where
  "empty_path = replicate MAX_PATH_DEPTH ''''"

record diff =
  d_kind :: diff_kind
  d_path :: path8
  d_optional_or_default :: bool
  d_annotation :: string
  d_expected :: string
  d_found :: string

definition optional_annotation :: "bool \<Rightarrow> bool \<Rightarrow> string" where
  "optional_annotation opt has_default =
     (if opt then '' (optional)'' else if has_default then '' (default)'' else '''')"

fun shape_label :: "type_shape \<Rightarrow> string" where
  "shape_label (Primitive name) = name"
| "shape_label (Optional t) = ''Optional''"
| "shape_label (Sequence t) = ''Sequence''"
| "shape_label (MapOf k v) = ''Map''"
| "shape_label (Struct fs) = ''Struct''"

definition missing_diff :: "path8 \<Rightarrow> bool \<Rightarrow> bool \<Rightarrow> diff" where
  "missing_diff path opt has_default =
     \<lparr>d_kind = Missing, d_path = path, d_optional_or_default = opt \<or> has_default,
      d_annotation = optional_annotation opt has_default,
      d_expected = '''', d_found = ''''\<rparr>"

definition extra_diff :: "path8 \<Rightarrow> diff" where
  "extra_diff path =
     \<lparr>d_kind = Extra, d_path = path, d_optional_or_default = False,
      d_annotation = '''', d_expected = '''', d_found = ''''\<rparr>"

definition mismatch_diff_labeled :: "path8 \<Rightarrow> string \<Rightarrow> string \<Rightarrow> diff" where
  "mismatch_diff_labeled path expected found =
     \<lparr>d_kind = Mismatch, d_path = path, d_optional_or_default = False,
      d_annotation = '''', d_expected = expected, d_found = found\<rparr>"

subsection \<open>The bounded accumulator\<close>

record diffs =
  items :: "diff option list"
  diffs_len :: nat

definition diffs_new :: diffs where
  "diffs_new = \<lparr>items = replicate MAX_DIFFS None, diffs_len = 0\<rparr>"

definition diffs_push :: "diffs \<Rightarrow> diff \<Rightarrow> diffs" where
  "diffs_push ds d =
     (if diffs_len ds < MAX_DIFFS
      then ds\<lparr>items := (items ds)[diffs_len ds := Some d], diffs_len := diffs_len ds + 1\<rparr>
      else ds)"

record comparison =
  c_policy :: schema_policy
  rejected :: bool
  c_diffs :: diffs

definition comparison_new :: "schema_policy \<Rightarrow> comparison" where
  "comparison_new p = \<lparr>c_policy = p, rejected = False, c_diffs = diffs_new\<rparr>"

definition rejects :: "diff \<Rightarrow> schema_policy \<Rightarrow> bool" where
  "rejects d p =
     (case p of
        Full \<Rightarrow> False
      | Backward \<Rightarrow> (case d_kind d of
            Missing \<Rightarrow> \<not> d_optional_or_default d
          | Extra \<Rightarrow> False
          | Mismatch \<Rightarrow> True)
      | Forward \<Rightarrow> d_kind d \<noteq> Missing
      | _ \<Rightarrow> True)"

definition comparison_push :: "comparison \<Rightarrow> diff \<Rightarrow> comparison" where
  "comparison_push cmp d =
     (if rejects d (c_policy cmp)
      then cmp\<lparr>rejected := True, c_diffs := diffs_push (c_diffs cmp) d\<rparr>
      else cmp)"

record traversal_mode =
  m_ci :: bool
  m_ordered :: bool
  m_by_pos :: bool

fun policy_mode :: "schema_policy \<Rightarrow> traversal_mode" where
  "policy_mode Exact = \<lparr>m_ci = True, m_ordered = False, m_by_pos = False\<rparr>"
| "policy_mode ExactUnorderedCI = \<lparr>m_ci = True, m_ordered = False, m_by_pos = False\<rparr>"
| "policy_mode ExactOrdered = \<lparr>m_ci = False, m_ordered = True, m_by_pos = False\<rparr>"
| "policy_mode ExactOrderedCI = \<lparr>m_ci = True, m_ordered = True, m_by_pos = False\<rparr>"
| "policy_mode ExactByPosition = \<lparr>m_ci = False, m_ordered = False, m_by_pos = True\<rparr>"
| "policy_mode Backward = \<lparr>m_ci = False, m_ordered = False, m_by_pos = False\<rparr>"
| "policy_mode Forward = \<lparr>m_ci = False, m_ordered = False, m_by_pos = False\<rparr>"
| "policy_mode Full = \<lparr>m_ci = False, m_ordered = False, m_by_pos = False\<rparr>"

subsection \<open>Helpers of the traversal\<close>

definition append_segment :: "path8 \<Rightarrow> nat \<Rightarrow> string \<Rightarrow> path8 \<times> nat" where
  "append_segment path depth seg =
     (if depth < MAX_PATH_DEPTH then (path[depth := seg], depth + 1) else (path, depth))"

definition single_segment :: "string \<Rightarrow> path8" where
  "single_segment name = empty_path[0 := name]"

definition sep :: "string \<Rightarrow> string" where
  "sep segment = (if segment = [] then '''' else ''.'')"

subsection \<open>The traversal\<close>

lemma field_shape_size: "size (fs_shape c) = size c - 1" "0 < size c"
  for c :: field_shape
  by (cases c; simp)+

text \<open>
  \<open>compare_fields\<close>, \<open>compare_by_name\<close>, \<open>compare_ordered\<close>, \<open>compare_by_position\<close> and
  \<open>compare_shapes\<close>.  Each \<open>while\<close> loop of the source over a field slice is the
  function of the same name with a \<open>_loop\<close> suffix, recursive on the rest of the slice;
  the loops that report trailing fields do not recurse into shapes and stand first.
\<close>

fun missing_loop :: "field_shape list \<Rightarrow> path8 \<Rightarrow> nat \<Rightarrow> comparison \<Rightarrow> comparison" where
  "missing_loop [] path depth cmp = cmp"
| "missing_loop (c # cs) path depth cmp =
     missing_loop cs path depth
       (comparison_push cmp
          (missing_diff (fst (append_segment path depth (fs_name c)))
             (is_optional (fs_shape c)) (fs_default c)))"

fun extra_loop :: "field_shape list \<Rightarrow> path8 \<Rightarrow> nat \<Rightarrow> comparison \<Rightarrow> comparison" where
  "extra_loop [] path depth cmp = cmp"
| "extra_loop (p # ps) path depth cmp =
     extra_loop ps path depth
       (comparison_push cmp (extra_diff (fst (append_segment path depth (fs_name p)))))"

fun unmatched_extra_loop ::
  "field_shape list \<Rightarrow> field_shape list \<Rightarrow> path8 \<Rightarrow> nat \<Rightarrow> bool \<Rightarrow> comparison \<Rightarrow> comparison" where
  "unmatched_extra_loop contract [] path depth ci cmp = cmp"
| "unmatched_extra_loop contract (p # ps) path depth ci cmp =
     unmatched_extra_loop contract ps path depth ci
       (if find_field_mode contract (fs_name p) ci = None
        then comparison_push cmp (extra_diff (fst (append_segment path depth (fs_name p))))
        else cmp)"

text \<open>The two early returns of \<open>compare_by_name\<close> on a duplicate name.\<close>

definition duplicate_diff :: "path8 \<Rightarrow> nat \<Rightarrow> string \<Rightarrow> diff" where
  "duplicate_diff path depth name =
     mismatch_diff_labeled (fst (append_segment path depth name)) ''unique field name'' name"

function (sequential) compare_shapes ::
    "type_shape \<Rightarrow> type_shape \<Rightarrow> path8 \<Rightarrow> nat \<Rightarrow> traversal_mode \<Rightarrow> comparison \<Rightarrow> comparison"
  and compare_fields ::
    "field_shape list \<Rightarrow> field_shape list \<Rightarrow> path8 \<Rightarrow> nat \<Rightarrow> traversal_mode \<Rightarrow> comparison \<Rightarrow> comparison"
  and compare_by_name ::
    "field_shape list \<Rightarrow> field_shape list \<Rightarrow> path8 \<Rightarrow> nat \<Rightarrow> traversal_mode \<Rightarrow> comparison \<Rightarrow> comparison"
  and by_name_loop ::
    "field_shape list \<Rightarrow> field_shape list \<Rightarrow> path8 \<Rightarrow> nat \<Rightarrow> traversal_mode \<Rightarrow> comparison \<Rightarrow> comparison"
  and compare_ordered ::
    "field_shape list \<Rightarrow> field_shape list \<Rightarrow> path8 \<Rightarrow> nat \<Rightarrow> traversal_mode \<Rightarrow> comparison \<Rightarrow> comparison"
  and ordered_loop ::
    "field_shape list \<Rightarrow> field_shape list \<Rightarrow> path8 \<Rightarrow> nat \<Rightarrow> traversal_mode \<Rightarrow> comparison \<Rightarrow> comparison"
  and compare_by_position ::
    "field_shape list \<Rightarrow> field_shape list \<Rightarrow> path8 \<Rightarrow> nat \<Rightarrow> traversal_mode \<Rightarrow> comparison \<Rightarrow> comparison"
  and position_loop ::
    "field_shape list \<Rightarrow> field_shape list \<Rightarrow> path8 \<Rightarrow> nat \<Rightarrow> traversal_mode \<Rightarrow> comparison \<Rightarrow> comparison"
where
  "compare_shapes (Primitive p) (Primitive c) path depth mode cmp =
     (if \<not> str_eq p c then comparison_push cmp (mismatch_diff_labeled path c p) else cmp)"
| "compare_shapes (Optional p) (Optional c) path depth mode cmp =
     compare_shapes p c path depth mode cmp"
| "compare_shapes (Sequence p) (Sequence c) path depth mode cmp =
     (let (seq_path, seq_depth) = append_segment path depth ''[]''
      in compare_shapes p c seq_path seq_depth mode cmp)"
| "compare_shapes (MapOf pk pv) (MapOf ck cv) path depth mode cmp =
     (let (key_path, key_depth) = append_segment path depth ''<key>'';
          cmp1 = compare_shapes pk ck key_path key_depth mode cmp;
          (value_path, value_depth) = append_segment path depth ''<value>''
      in compare_shapes pv cv value_path value_depth mode cmp1)"
| "compare_shapes (Struct pf) (Struct cf) path depth mode cmp =
     compare_fields pf cf path depth mode cmp"
| "compare_shapes p c path depth mode cmp =
     comparison_push cmp (mismatch_diff_labeled path (shape_label c) (shape_label p))"
| "compare_fields producer contract path depth mode cmp =
     (if m_by_pos mode then compare_by_position producer contract path depth mode cmp
      else if m_ordered mode then compare_ordered producer contract path depth mode cmp
      else compare_by_name producer contract path depth mode cmp)"
| "compare_by_name producer contract path depth mode cmp =
     (case duplicate_field_name producer (m_ci mode) of
        Some name \<Rightarrow> comparison_push cmp (duplicate_diff path depth name)
      | None \<Rightarrow>
     (case duplicate_field_name contract (m_ci mode) of
        Some name \<Rightarrow> comparison_push cmp (duplicate_diff path depth name)
      | None \<Rightarrow>
          unmatched_extra_loop contract producer path depth (m_ci mode)
            (by_name_loop producer contract path depth mode cmp)))"
| "by_name_loop producer [] path depth mode cmp = cmp"
| "by_name_loop producer (c # cs) path depth mode cmp =
     by_name_loop producer cs path depth mode
       (case find_field_mode producer (fs_name c) (m_ci mode) of
          Some p \<Rightarrow>
            (let (field_path, field_depth) = append_segment path depth (fs_name c)
             in compare_shapes (fs_shape p) (fs_shape c) field_path field_depth mode cmp)
        | None \<Rightarrow>
            comparison_push cmp
              (missing_diff (fst (append_segment path depth (fs_name c)))
                 (is_optional (fs_shape c)) (fs_default c)))"
| "compare_ordered producer contract path depth mode cmp =
     (let shared = min_len (length producer) (length contract);
          cmp1 = ordered_loop producer contract path depth mode cmp;
          cmp2 = missing_loop (drop shared contract) path depth cmp1
      in extra_loop (drop shared producer) path depth cmp2)"
| "ordered_loop (p # ps) (c # cs) path depth mode cmp =
     (let (field_path, field_depth) = append_segment path depth (fs_name c);
          cmp1 = (if \<not> name_eq (m_ci mode) (fs_name p) (fs_name c)
                  then comparison_push cmp
                         (mismatch_diff_labeled (fst (append_segment field_path field_depth ''(name)''))
                            (fs_name c) (fs_name p))
                  else cmp)
      in ordered_loop ps cs path depth mode
           (compare_shapes (fs_shape p) (fs_shape c) field_path field_depth mode cmp1))"
| "ordered_loop _ _ path depth mode cmp = cmp"
| "compare_by_position producer contract path depth mode cmp =
     (let shared = min_len (length producer) (length contract);
          cmp1 = position_loop producer contract path depth mode cmp;
          cmp2 = missing_loop (drop shared contract) path depth cmp1
      in extra_loop (drop shared producer) path depth cmp2)"
| "position_loop (p # ps) (c # cs) path depth mode cmp =
     (let (field_path, field_depth) = append_segment path depth (fs_name p)
      in position_loop ps cs path depth mode
           (compare_shapes (fs_shape p) (fs_shape c) field_path field_depth mode cmp))"
| "position_loop _ _ path depth mode cmp = cmp"
  by pat_completeness auto


text \<open>
  Every recursive call is on a strictly smaller contract shape, or on the same contract
  fields one function further down the dispatch.
\<close>

abbreviation fields_size :: "field_shape list \<Rightarrow> nat" where
  "fields_size \<equiv> size_list size"

termination compare_shapes
  by (relation "measure (\<lambda>x. case x of
        Inl (Inl (Inl (_, c, _))) \<Rightarrow> 4 * size c
      | Inl (Inl (Inr (_, cs, _))) \<Rightarrow> 4 * fields_size cs + 3
      | Inl (Inr (Inl (_, cs, _))) \<Rightarrow> 4 * fields_size cs + 2
      | Inl (Inr (Inr (_, cs, _))) \<Rightarrow> 4 * fields_size cs + 1
      | Inr (Inl (Inl (_, cs, _))) \<Rightarrow> 4 * fields_size cs + 2
      | Inr (Inl (Inr (_, cs, _))) \<Rightarrow> 4 * fields_size cs + 1
      | Inr (Inr (Inl (_, cs, _))) \<Rightarrow> 4 * fields_size cs + 2
      | Inr (Inr (Inr (_, cs, _))) \<Rightarrow> 4 * fields_size cs + 1)")
    (auto simp: field_shape_size)

lemmas compare_dispatch =
  compare_fields.simps compare_by_name.simps compare_ordered.simps compare_by_position.simps

declare compare_dispatch [simp del]

subsection \<open>The verdict\<close>

definition compare :: "type_shape \<Rightarrow> type_shape \<Rightarrow> schema_policy \<Rightarrow> comparison" where
  "compare producer contract policy =
     (let mode = policy_mode policy; cmp = comparison_new policy
      in case (producer, contract) of
           (Struct producer_fields, Struct contract_fields) \<Rightarrow>
             compare_fields producer_fields contract_fields empty_path 0 mode cmp
         | (producer, contract) \<Rightarrow>
             (if \<not> shape_eq producer contract
              then comparison_push cmp
                     (mismatch_diff_labeled (single_segment ''<root>'')
                        (shape_label contract) (shape_label producer))
              else cmp))"

definition conforms :: "type_shape \<Rightarrow> type_shape \<Rightarrow> schema_policy \<Rightarrow> bool" where
  "conforms producer contract policy \<longleftrightarrow> \<not> rejected (compare producer contract policy)"

end
