(* ===== verification/ContractSpec.thy ===== *)
theory ContractSpec
  imports ContractShape
begin

text \<open>
  What the comparison of \<open>ContractShape\<close> decides.  The traversal is shown to keep every invariant its \<open>push\<close>
  keeps (the interface \<open>diff_sink\<close>), and the verdict is characterised by a relation
  on shapes that knows nothing of paths, display slots or the order of the traversal.
\<close>

subsection \<open>What the traversal keeps\<close>

text \<open>
  The traversal reaches the accumulator through \<open>Comparison::push\<close> only.  \<open>diff_sink\<close>
  is that interface: a predicate on paths closed under appending a segment, and a
  predicate on accumulators that pushing a diff on such a path keeps.
\<close>

locale diff_sink =
  fixes path_ok :: "path8 \<Rightarrow> bool"
    and inv :: "comparison \<Rightarrow> bool"
  assumes path_append: "path_ok path \<Longrightarrow> path_ok (fst (append_segment path depth seg))"
    and push: "inv cmp \<Longrightarrow> path_ok (d_path d) \<Longrightarrow> inv (comparison_push cmp d)"
begin

lemma push_missing: "inv cmp \<Longrightarrow> path_ok path \<Longrightarrow> inv (comparison_push cmp (missing_diff path a b))"
  by (auto intro: push simp: missing_diff_def)

lemma push_extra: "inv cmp \<Longrightarrow> path_ok path \<Longrightarrow> inv (comparison_push cmp (extra_diff path))"
  by (auto intro: push simp: extra_diff_def)

lemma push_mismatch:
  "inv cmp \<Longrightarrow> path_ok path \<Longrightarrow> inv (comparison_push cmp (mismatch_diff_labeled path a b))"
  by (auto intro: push simp: mismatch_diff_labeled_def)

lemma push_duplicate:
  "inv cmp \<Longrightarrow> path_ok path \<Longrightarrow> inv (comparison_push cmp (duplicate_diff path depth n))"
  unfolding duplicate_diff_def by (intro push_mismatch path_append)

lemmas pushes = push_missing push_extra push_mismatch push_duplicate path_append

lemma loops:
  "inv cmp \<Longrightarrow> path_ok path \<Longrightarrow> inv (missing_loop cs path depth cmp)"
  "inv cmp \<Longrightarrow> path_ok path \<Longrightarrow> inv (extra_loop cs path depth cmp)"
  "inv cmp \<Longrightarrow> path_ok path \<Longrightarrow> inv (unmatched_extra_loop ps cs path depth ci cmp)"
  by (induction cs arbitrary: cmp) (auto simp: pushes)

lemma traversal:
  "inv cmp \<Longrightarrow> path_ok path \<Longrightarrow> inv (compare_shapes p c path depth mode cmp)"
  "inv cmp \<Longrightarrow> path_ok path \<Longrightarrow> inv (compare_fields ps cs path depth mode cmp)"
  "inv cmp \<Longrightarrow> path_ok path \<Longrightarrow> inv (compare_by_name ps cs path depth mode cmp)"
  "inv cmp \<Longrightarrow> path_ok path \<Longrightarrow> inv (by_name_loop ps cs path depth mode cmp)"
  "inv cmp \<Longrightarrow> path_ok path \<Longrightarrow> inv (compare_ordered ps cs path depth mode cmp)"
  "inv cmp \<Longrightarrow> path_ok path \<Longrightarrow> inv (ordered_loop ps cs path depth mode cmp)"
  "inv cmp \<Longrightarrow> path_ok path \<Longrightarrow> inv (compare_by_position ps cs path depth mode cmp)"
  "inv cmp \<Longrightarrow> path_ok path \<Longrightarrow> inv (position_loop ps cs path depth mode cmp)"
proof (induction p c path depth mode cmp and ps cs path depth mode cmp
    and ps cs path depth mode cmp and ps cs path depth mode cmp
    and ps cs path depth mode cmp and ps cs path depth mode cmp
    and ps cs path depth mode cmp and ps cs path depth mode cmp
    rule: compare_shapes_compare_fields_compare_by_name_by_name_loop_compare_ordered_ordered_loop_compare_by_position_position_loop.induct)
qed (auto simp: pushes loops compare_dispatch Let_def prod.case_eq_if split: option.splits)

end

subsection \<open>Fixed facts about the accumulator\<close>

lemma empty_path_length: "length empty_path = MAX_PATH_DEPTH"
  by (simp add: empty_path_def)

lemma append_segment_length: "length (fst (append_segment path depth seg)) = length path"
  by (simp add: append_segment_def)

text \<open>
  The representation invariant of \<open>Diffs\<close> and \<open>Comparison\<close>: the array keeps its length,
  exactly the first \<open>len\<close> slots are filled, with diffs the policy rejects and full
  paths, and the verdict is "rejected" exactly if at least one diff is displayed.
\<close>

definition diffs_wf :: "diffs \<Rightarrow> bool" where
  "diffs_wf ds \<longleftrightarrow> length (items ds) = MAX_DIFFS \<and> diffs_len ds \<le> MAX_DIFFS \<and>
     (\<forall>i < MAX_DIFFS. items ds ! i \<noteq> None \<longleftrightarrow> i < diffs_len ds)"

definition comparison_wf :: "comparison \<Rightarrow> bool" where
  "comparison_wf cmp \<longleftrightarrow> diffs_wf (c_diffs cmp) \<and>
     (\<forall>d. Some d \<in> set (items (c_diffs cmp)) \<longrightarrow>
        rejects d (c_policy cmp) \<and> length (d_path d) = MAX_PATH_DEPTH) \<and>
     (rejected cmp \<longleftrightarrow> 0 < diffs_len (c_diffs cmp))"

lemma diffs_push_wf: "diffs_wf ds \<Longrightarrow> diffs_wf (diffs_push ds d)"
  by (auto simp: diffs_wf_def diffs_push_def nth_list_update)

lemma diffs_push_items:
  "diffs_wf ds \<Longrightarrow> Some x \<in> set (items (diffs_push ds d)) \<Longrightarrow> x = d \<or> Some x \<in> set (items ds)"
  by (auto simp: diffs_push_def diffs_wf_def dest!: set_update_subset_insert [THEN subsetD]
      split: if_splits)

lemma diffs_push_len_pos: "diffs_wf ds \<Longrightarrow> 0 < diffs_len (diffs_push ds d)"
  by (auto simp: diffs_push_def diffs_wf_def MAX_DIFFS_def)

lemma comparison_push_wf:
  assumes "comparison_wf cmp" and "length (d_path d) = MAX_PATH_DEPTH"
  shows "comparison_wf (comparison_push cmp d)"
  using assms
  by (auto simp: comparison_wf_def comparison_push_def diffs_push_wf diffs_push_len_pos
      dest: diffs_push_items)

lemma comparison_new_wf: "comparison_wf (comparison_new p)"
  by (auto simp: comparison_wf_def comparison_new_def diffs_new_def diffs_wf_def)

interpretation wf_sink: diff_sink "\<lambda>path. length path = MAX_PATH_DEPTH" comparison_wf
  by unfold_locales (auto simp: append_segment_length comparison_push_wf)

interpretation policy_sink: diff_sink "\<lambda>_. True" "\<lambda>cmp. c_policy cmp = p" for p
  by unfold_locales (auto simp: comparison_push_def)

interpretation rejected_sink: diff_sink "\<lambda>_. True" rejected
  by unfold_locales (auto simp: comparison_push_def)

lemma compare_policy: "c_policy (compare p c pol) = pol"
proof -
  have new: "c_policy (comparison_new pol) = pol" by (simp add: comparison_new_def)
  note traverse = policy_sink.traversal(2) [OF new TrueI]
  show ?thesis
    by (auto simp: compare_def Let_def new comparison_push_def traverse split: type_shape.splits)
qed

lemma compare_wf: "comparison_wf (compare p c pol)"
proof -
  note traverse = wf_sink.traversal(2) [OF comparison_new_wf empty_path_length]
  have "length (single_segment n) = MAX_PATH_DEPTH" for n
    by (simp add: single_segment_def empty_path_length)
  then show ?thesis
    by (auto simp: compare_def Let_def comparison_new_wf traverse wf_sink.push_mismatch
        split: type_shape.splits)
qed

subsection \<open>The verdict\<close>

text \<open>Whether a policy tolerates a contract field the producer lacks, or an extra one.\<close>

fun tolerates_missing :: "schema_policy \<Rightarrow> field_shape \<Rightarrow> bool" where
  "tolerates_missing Full c = True"
| "tolerates_missing Forward c = True"
| "tolerates_missing Backward c = (is_optional (fs_shape c) \<or> fs_default c)"
| "tolerates_missing _ c = False"

fun tolerates_extra :: "schema_policy \<Rightarrow> bool" where
  "tolerates_extra Full = True"
| "tolerates_extra Backward = True"
| "tolerates_extra _ = False"

text \<open>
  The declarative reading of a policy on two shapes below a struct.  By name: field
  names identify fields on both sides, every contract field is matched by a compatible
  producer field or may be missing, every producer field is known or may be extra.
\<close>

function (sequential) shape_ok :: "schema_policy \<Rightarrow> type_shape \<Rightarrow> type_shape \<Rightarrow> bool"
  and fields_ok :: "schema_policy \<Rightarrow> field_shape list \<Rightarrow> field_shape list \<Rightarrow> bool" where
  "shape_ok pol (Primitive p) (Primitive c) \<longleftrightarrow> p = c"
| "shape_ok pol (Optional p) (Optional c) \<longleftrightarrow> shape_ok pol p c"
| "shape_ok pol (Sequence p) (Sequence c) \<longleftrightarrow> shape_ok pol p c"
| "shape_ok pol (MapOf pk pv) (MapOf ck cv) \<longleftrightarrow> shape_ok pol pk ck \<and> shape_ok pol pv cv"
| "shape_ok pol (Struct ps) (Struct cs) \<longleftrightarrow> fields_ok pol ps cs"
| "shape_ok pol _ _ \<longleftrightarrow> False"
| "fields_ok pol ps cs \<longleftrightarrow>
     (let m = policy_mode pol in
      if m_by_pos m \<or> m_ordered m then
        length ps = length cs \<and>
        (\<forall>(p, c) \<in> set (zip ps cs).
           (m_by_pos m \<or> name_key (m_ci m) (fs_name p) = name_key (m_ci m) (fs_name c)) \<and>
           shape_ok pol (fs_shape p) (fs_shape c))
      else
        distinct (field_keys (m_ci m) ps) \<and> distinct (field_keys (m_ci m) cs) \<and>
        (\<forall>c \<in> set cs.
           (case find_field_mode ps (fs_name c) (m_ci m) of
              Some p \<Rightarrow> shape_ok pol (fs_shape p) (fs_shape c)
            | None \<Rightarrow> tolerates_missing pol c)) \<and>
        (tolerates_extra pol \<or> set (field_keys (m_ci m) ps) \<subseteq> set (field_keys (m_ci m) cs)))"
  by pat_completeness auto

lemma field_shape_smaller: "c \<in> set cs \<Longrightarrow> 2 * size (fs_shape c) < Suc (2 * fields_size cs)"
  using size_list_estimation' [of c cs "size c" size] field_shape_size [of c] by simp

termination shape_ok
  by (relation "measure (\<lambda>x. case x of
        Inl (_, _, c) \<Rightarrow> 2 * size c | Inr (_, _, cs) \<Rightarrow> 2 * fields_size cs + 1)")
    (auto intro: field_shape_smaller dest: set_zip_rightD)

declare fields_ok.simps [simp del]

lemma rejected_push:
  "rejected (comparison_push cmp d) \<longleftrightarrow> rejected cmp \<or> rejects d (c_policy cmp)"
  by (simp add: comparison_push_def)

lemma rejects_missing:
  "rejects (missing_diff path (is_optional (fs_shape c)) (fs_default c)) pol \<longleftrightarrow>
     \<not> tolerates_missing pol c"
  by (cases pol) (auto simp: rejects_def missing_diff_def)

lemma rejects_extra: "rejects (extra_diff path) pol \<longleftrightarrow> \<not> tolerates_extra pol"
  by (cases pol) (auto simp: rejects_def extra_diff_def)

lemma rejects_mismatch: "rejects (mismatch_diff_labeled path a b) pol \<longleftrightarrow> pol \<noteq> Full"
  by (cases pol) (auto simp: rejects_def mismatch_diff_labeled_def)

lemma rejects_duplicate: "rejects (duplicate_diff path depth n) pol \<longleftrightarrow> pol \<noteq> Full"
  by (simp add: duplicate_diff_def rejects_mismatch)

lemmas rejects_iffs = rejects_missing rejects_extra rejects_mismatch rejects_duplicate

lemma push_keeps_policy [simp]: "c_policy (comparison_push cmp d) = c_policy cmp"
  by (simp add: comparison_push_def)

lemmas keeps_policy [simp] =
  policy_sink.traversal [OF refl TrueI] policy_sink.loops [OF refl TrueI]

lemma rejected_missing_loop:
  "rejected (missing_loop cs path depth cmp) \<longleftrightarrow>
     rejected cmp \<or> (\<exists>c \<in> set cs. \<not> tolerates_missing (c_policy cmp) c)"
  by (induction cs arbitrary: cmp) (auto simp: rejected_push rejects_iffs)

lemma rejected_extra_loop:
  "rejected (extra_loop ps path depth cmp) \<longleftrightarrow>
     rejected cmp \<or> (ps \<noteq> [] \<and> \<not> tolerates_extra (c_policy cmp))"
  by (induction ps arbitrary: cmp) (auto simp: rejected_push rejects_iffs)

lemma rejected_unmatched_extra_loop:
  "rejected (unmatched_extra_loop cs ps path depth ci cmp) \<longleftrightarrow>
     rejected cmp \<or> (\<not> tolerates_extra (c_policy cmp) \<and>
       \<not> set (field_keys ci ps) \<subseteq> set (field_keys ci cs))"
  by (induction ps arbitrary: cmp)
    (auto simp: rejected_push rejects_iffs find_field_mode_None)

lemma aligned_policies:
  assumes "m_ordered (policy_mode pol) \<or> m_by_pos (policy_mode pol)"
  shows "\<not> tolerates_missing pol c" and "\<not> tolerates_extra pol" and "pol \<noteq> Full"
  using assms by (cases pol; simp)+

lemmas rejected_simps = rejected_push rejects_iffs rejected_missing_loop rejected_extra_loop
  rejected_unmatched_extra_loop

definition matched :: "schema_policy \<Rightarrow> field_shape list \<Rightarrow> field_shape \<Rightarrow> bool" where
  "matched pol ps c \<longleftrightarrow>
     (case find_field_mode ps (fs_name c) (m_ci (policy_mode pol)) of
        Some p \<Rightarrow> shape_ok pol (fs_shape p) (fs_shape c)
      | None \<Rightarrow> tolerates_missing pol c)"

text \<open>The three readings of \<open>fields_ok\<close>, one per traversal mode.\<close>

lemma fields_ok_by_name:
  "\<not> m_by_pos (policy_mode pol) \<Longrightarrow> \<not> m_ordered (policy_mode pol) \<Longrightarrow>
   fields_ok pol ps cs \<longleftrightarrow>
     distinct (field_keys (m_ci (policy_mode pol)) ps) \<and>
     distinct (field_keys (m_ci (policy_mode pol)) cs) \<and>
     (\<forall>c \<in> set cs. matched pol ps c) \<and>
     (tolerates_extra pol \<or> set (field_keys (m_ci (policy_mode pol)) ps) \<subseteq>
        set (field_keys (m_ci (policy_mode pol)) cs))"
  by (simp add: fields_ok.simps matched_def Let_def)

lemma fields_ok_ordered:
  "\<not> m_by_pos (policy_mode pol) \<Longrightarrow> m_ordered (policy_mode pol) \<Longrightarrow>
   fields_ok pol ps cs \<longleftrightarrow> length ps = length cs \<and>
     (\<forall>(p, c) \<in> set (zip ps cs).
        name_key (m_ci (policy_mode pol)) (fs_name p) = name_key (m_ci (policy_mode pol)) (fs_name c) \<and>
        shape_ok pol (fs_shape p) (fs_shape c))"
  by (simp add: fields_ok.simps Let_def)

lemma fields_ok_position:
  "m_by_pos (policy_mode pol) \<Longrightarrow>
   fields_ok pol ps cs \<longleftrightarrow> length ps = length cs \<and>
     (\<forall>(p, c) \<in> set (zip ps cs). shape_ok pol (fs_shape p) (fs_shape c))"
  by (simp add: fields_ok.simps Let_def)

lemma duplicate_field_name_Some:
  "duplicate_field_name fs ci = Some n \<Longrightarrow> \<not> distinct (field_keys ci fs)"
  by (metis duplicate_field_name_None option.distinct(1))

lemma by_name_verdict:
  assumes "pol \<noteq> Full" "mode = policy_mode pol" "c_policy cmp = pol"
    and "\<not> m_by_pos mode" "\<not> m_ordered mode"
    and loop: "duplicate_field_name ps (m_ci mode) = None \<Longrightarrow>
      duplicate_field_name cs (m_ci mode) = None \<Longrightarrow>
      rejected (by_name_loop ps cs path depth mode cmp) \<longleftrightarrow>
        rejected cmp \<or> (\<exists>c \<in> set cs. \<not> matched pol ps c)"
  shows "rejected (compare_by_name ps cs path depth mode cmp) \<longleftrightarrow>
    rejected cmp \<or> \<not> fields_ok pol ps cs"
proof (cases "duplicate_field_name ps (m_ci mode)")
  case (Some n)
  with duplicate_field_name_Some [OF Some] assms show ?thesis
    by (simp add: compare_dispatch rejected_simps fields_ok_by_name)
next
  case np: None
  show ?thesis
  proof (cases "duplicate_field_name cs (m_ci mode)")
    case (Some n)
    with np duplicate_field_name_Some [OF Some] assms show ?thesis
      by (simp add: compare_dispatch rejected_simps fields_ok_by_name)
  next
    case None
    have d: "distinct (field_keys (m_ci mode) ps)" "distinct (field_keys (m_ci mode) cs)"
      using np None by (simp_all add: duplicate_field_name_None)
    have pol: "c_policy (by_name_loop ps cs path depth mode cmp) = pol"
      using assms by simp
    have "rejected (compare_by_name ps cs path depth mode cmp) \<longleftrightarrow>
        rejected (unmatched_extra_loop cs ps path depth (m_ci mode)
          (by_name_loop ps cs path depth mode cmp))"
      by (simp add: compare_dispatch np None)
    then show ?thesis
      using loop [OF np None] pol d assms(2,4,5)
      by (simp add: rejected_unmatched_extra_loop fields_ok_by_name)
  qed
qed

lemma aligned_tail:
  assumes "m_ordered (policy_mode (c_policy cmp)) \<or> m_by_pos (policy_mode (c_policy cmp))"
  shows "rejected (extra_loop (drop (min_len (length ps) (length cs)) ps) path depth
           (missing_loop (drop (min_len (length ps) (length cs)) cs) path depth cmp)) \<longleftrightarrow>
         rejected cmp \<or> length ps \<noteq> length cs"
proof -
  have m: "drop (min_len (length ps) (length cs)) cs \<noteq> [] \<longleftrightarrow> length ps < length cs"
    and e: "drop (min_len (length ps) (length cs)) ps \<noteq> [] \<longleftrightarrow> length cs < length ps"
    by (auto simp: min_len_def)
  have ex: "(\<exists>c \<in> set (drop (min_len (length ps) (length cs)) cs). True) \<longleftrightarrow> length ps < length cs"
    using m by (metis all_not_in_conv set_empty)
  show ?thesis
    using m e ex aligned_policies [OF assms]
    by (auto simp: rejected_missing_loop rejected_extra_loop)
qed

lemma verdict_step:
  assumes "pol \<noteq> Full"
  shows "mode = policy_mode pol \<Longrightarrow> c_policy cmp = pol \<Longrightarrow>
      rejected (compare_shapes p c path depth mode cmp) \<longleftrightarrow> rejected cmp \<or> \<not> shape_ok pol p c"
    and "mode = policy_mode pol \<Longrightarrow> c_policy cmp = pol \<Longrightarrow>
      rejected (compare_fields ps cs path depth mode cmp) \<longleftrightarrow> rejected cmp \<or> \<not> fields_ok pol ps cs"
    and "mode = policy_mode pol \<Longrightarrow> c_policy cmp = pol \<Longrightarrow> \<not> m_by_pos mode \<Longrightarrow> \<not> m_ordered mode \<Longrightarrow>
      rejected (compare_by_name ps cs path depth mode cmp) \<longleftrightarrow> rejected cmp \<or> \<not> fields_ok pol ps cs"
    and "mode = policy_mode pol \<Longrightarrow> c_policy cmp = pol \<Longrightarrow>
      rejected (by_name_loop ps cs path depth mode cmp) \<longleftrightarrow>
        rejected cmp \<or> (\<exists>c \<in> set cs. \<not> matched pol ps c)"
    and "mode = policy_mode pol \<Longrightarrow> c_policy cmp = pol \<Longrightarrow> \<not> m_by_pos mode \<Longrightarrow> m_ordered mode \<Longrightarrow>
      rejected (compare_ordered ps cs path depth mode cmp) \<longleftrightarrow> rejected cmp \<or> \<not> fields_ok pol ps cs"
    and "mode = policy_mode pol \<Longrightarrow> c_policy cmp = pol \<Longrightarrow>
      rejected (ordered_loop ps cs path depth mode cmp) \<longleftrightarrow>
        rejected cmp \<or> (\<exists>(p, c) \<in> set (zip ps cs).
          name_key (m_ci mode) (fs_name p) \<noteq> name_key (m_ci mode) (fs_name c) \<or>
          \<not> shape_ok pol (fs_shape p) (fs_shape c))"
    and "mode = policy_mode pol \<Longrightarrow> c_policy cmp = pol \<Longrightarrow> m_by_pos mode \<Longrightarrow>
      rejected (compare_by_position ps cs path depth mode cmp) \<longleftrightarrow> rejected cmp \<or> \<not> fields_ok pol ps cs"
    and "mode = policy_mode pol \<Longrightarrow> c_policy cmp = pol \<Longrightarrow>
      rejected (position_loop ps cs path depth mode cmp) \<longleftrightarrow>
        rejected cmp \<or> (\<exists>(p, c) \<in> set (zip ps cs). \<not> shape_ok pol (fs_shape p) (fs_shape c))"
proof (induction p c path depth mode cmp and ps cs path depth mode cmp
    and ps cs path depth mode cmp and ps cs path depth mode cmp
    and ps cs path depth mode cmp and ps cs path depth mode cmp
    and ps cs path depth mode cmp and ps cs path depth mode cmp
    rule: compare_shapes_compare_fields_compare_by_name_by_name_loop_compare_ordered_ordered_loop_compare_by_position_position_loop.induct)
  case (8 producer contract path depth mode cmp)
  show ?case
    by (rule by_name_verdict) (use 8 assms in auto)
next
  case (10 producer c cs path depth mode cmp)
  show ?case
  proof (cases "find_field_mode producer (fs_name c) (m_ci mode)")
    case None
    then have "matched pol producer c \<longleftrightarrow> tolerates_missing pol c"
      using 10 by (simp add: matched_def)
    with None 10 show ?thesis by (simp add: rejected_push rejects_missing)
  next
    case (Some p)
    then have "matched pol producer c \<longleftrightarrow> shape_ok pol (fs_shape p) (fs_shape c)"
      using 10 by (simp add: matched_def)
    with Some 10 show ?thesis by (simp add: prod.case_eq_if)
  qed
next
  case (11 producer contract path depth mode cmp)
  let ?c1 = "ordered_loop producer contract path depth mode cmp"
  have "c_policy ?c1 = pol" using 11 by simp
  with 11 aligned_tail [of ?c1 producer contract path depth]
  show ?case
    by (simp add: compare_dispatch Let_def fields_ok_ordered) blast
next
  case (14 producer contract path depth mode cmp)
  let ?c1 = "position_loop producer contract path depth mode cmp"
  have "c_policy ?c1 = pol" using 14 by simp
  with 14 aligned_tail [of ?c1 producer contract path depth]
  show ?case
    by (simp add: compare_dispatch Let_def fields_ok_position) blast
qed (use assms in \<open>auto simp: rejected_simps compare_dispatch(1) Let_def prod.case_eq_if
      name_eq_iff split: option.splits\<close>)

end
