(* ===== verification/ContractPolicy.thy ===== *)
theory ContractPolicy
  imports ContractSpec
begin

text \<open>
  The schema policies as relations on shapes.  \<open>verdict_step\<close> of \<open>ContractSpec\<close> is lifted
  to \<open>conforms\<close>, and the policies are compared with each other: which of them are
  equivalences, which imply which, and how evolution in one direction relates to the
  other.
\<close>

subsection \<open>The verdict of \<open>conforms\<close>\<close>

interpretation lenient_sink: diff_sink "\<lambda>_. True" "\<lambda>cmp. c_policy cmp = Full \<and> \<not> rejected cmp"
  by unfold_locales (auto simp: comparison_push_def rejects_def)

lemma compare_non_struct_eq:
  "\<not> (\<exists>ps cs. p = Struct ps \<and> c = Struct cs) \<Longrightarrow>
   compare p c pol =
     (if \<not> shape_eq p c
      then comparison_push (comparison_new pol)
             (mismatch_diff_labeled (single_segment ''<root>'') (shape_label c) (shape_label p))
      else comparison_new pol)"
  unfolding compare_def Let_def by (cases p; cases c; simp)

lemma compare_non_struct:
  "\<not> (\<exists>ps cs. p = Struct ps \<and> c = Struct cs) \<Longrightarrow>
   rejected (compare p c pol) \<longleftrightarrow> pol \<noteq> Full \<and> erase_defaults p \<noteq> erase_defaults c"
  by (simp add: compare_non_struct_eq comparison_new_def rejected_push rejects_iffs
      shape_eq_erase(1))

lemma compare_full: "\<not> rejected (compare p c Full)"
proof (cases "\<exists>ps cs. p = Struct ps \<and> c = Struct cs")
  case True
  have "c_policy (comparison_new Full) = Full \<and> \<not> rejected (comparison_new Full)"
    by (simp add: comparison_new_def)
  from lenient_sink.traversal(2) [OF this TrueI] True show ?thesis
    by (auto simp: compare_def)
qed (simp add: compare_non_struct)

text \<open>The reading of a whole check: root shapes that are not both structs must be equal.\<close>

fun verdict :: "schema_policy \<Rightarrow> type_shape \<Rightarrow> type_shape \<Rightarrow> bool" where
  "verdict pol (Struct ps) (Struct cs) \<longleftrightarrow> pol = Full \<or> fields_ok pol ps cs"
| "verdict pol p c \<longleftrightarrow> pol = Full \<or> erase_defaults p = erase_defaults c"

lemma conforms_iff: "conforms p c pol \<longleftrightarrow> verdict pol p c"
proof (cases "\<exists>ps cs. p = Struct ps \<and> c = Struct cs")
  case True
  then obtain ps cs where s: "p = Struct ps" "c = Struct cs" by blast
  have new: "c_policy (comparison_new pol) = pol" "\<not> rejected (comparison_new pol)"
    by (simp_all add: comparison_new_def)
  show ?thesis
    using s compare_full [of p c] verdict_step(2) [OF _ refl new(1), of ps cs empty_path 0] new(2)
    by (cases "pol = Full") (auto simp: conforms_def compare_def)
next
  case False
  then show ?thesis
    by (cases p; cases c) (auto simp: conforms_def compare_non_struct)
qed

subsection \<open>Shapes with identifying field names\<close>

function names_unique :: "bool \<Rightarrow> type_shape \<Rightarrow> bool" where
  "names_unique ci (Primitive n) \<longleftrightarrow> True"
| "names_unique ci (Optional t) \<longleftrightarrow> names_unique ci t"
| "names_unique ci (Sequence t) \<longleftrightarrow> names_unique ci t"
| "names_unique ci (MapOf k v) \<longleftrightarrow> names_unique ci k \<and> names_unique ci v"
| "names_unique ci (Struct fs) \<longleftrightarrow>
     distinct (field_keys ci fs) \<and> (\<forall>f \<in> set fs. names_unique ci (fs_shape f))"
  by pat_completeness auto
termination
  by (relation "measure (\<lambda>(_, t). 2 * size t)") (auto dest: field_shape_smaller)

lemma field_keys_ci:
  "distinct (field_keys True fs) \<Longrightarrow> distinct (field_keys ci fs)"
  by (cases ci) (auto simp: name_key_def distinct_map inj_on_def)

lemma names_unique_ci: "names_unique True t \<Longrightarrow> names_unique ci t"
  by (induction "True" t rule: names_unique.induct) (auto simp: field_keys_ci)

lemma erase_keys:
  "map erase_field ps = map erase_field cs \<Longrightarrow> field_keys ci ps = field_keys ci cs"
  by (metis (no_types, lifting) erase_field_sel(1) map_eq_conv map_map comp_apply)

lemma erase_zip:
  assumes "map erase_field ps = map erase_field cs" and "(p, c) \<in> set (zip ps cs)"
  shows "fs_name p = fs_name c" and "erase_defaults (fs_shape p) = erase_defaults (fs_shape c)"
proof -
  obtain i where "i < length ps" "i < length cs" "p = ps ! i" "c = cs ! i"
    using assms(2) by (auto simp: in_set_zip)
  moreover from this have "erase_field p = erase_field c"
    using assms(1) by (metis nth_map)
  ultimately show "fs_name p = fs_name c"
    and "erase_defaults (fs_shape p) = erase_defaults (fs_shape c)"
    by (metis erase_field_sel)+
qed

lemma erase_eq_find:
  assumes eq: "map erase_field ps = map erase_field cs"
    and c: "c \<in> set cs" and d: "distinct (field_keys ci ps)"
  obtains p where "find_field_mode ps (fs_name c) ci = Some p" "(p, c) \<in> set (zip ps cs)"
proof -
  have len: "length ps = length cs" using eq by (metis length_map)
  obtain i where i: "i < length cs" "c = cs ! i" using c by (auto simp: in_set_conv_nth)
  then have z: "(ps ! i, c) \<in> set (zip ps cs)" using len by (auto simp: in_set_zip)
  then have "find_field_mode ps (fs_name c) ci = Some (ps ! i)"
    using erase_zip(1) [OF eq z] i len by (simp add: find_field_mode_distinct [OF d])
  with z that show thesis by blast
qed

lemma equal_shape_ok:
  "erase_defaults p = erase_defaults c \<Longrightarrow> names_unique True p \<Longrightarrow> shape_ok pol p c"
proof (induction c arbitrary: p rule: measure_induct_rule [of size])
  case (less c)
  show ?case
  proof (cases c)
    case (Struct cs)
    with less.prems(1) obtain ps where p: "p = Struct ps"
      and eq: "map erase_field ps = map erase_field cs" by (cases p) auto
    have len: "length ps = length cs" using eq by (metis length_map)
    have zip_ok: "shape_ok pol (fs_shape p') (fs_shape c')" if "(p', c') \<in> set (zip ps cs)" for p' c'
    proof (rule less.IH)
      show "size (fs_shape c') < size c"
        using field_shape_smaller [OF set_zip_rightD [OF that]] Struct by simp
      show "erase_defaults (fs_shape p') = erase_defaults (fs_shape c')"
        using erase_zip(2) [OF eq that] .
      show "names_unique True (fs_shape p')"
        using less.prems(2) p set_zip_leftD [OF that] by simp
    qed
    let ?ci = "m_ci (policy_mode pol)"
    have d: "distinct (field_keys ?ci ps)" using less.prems(2) p by (simp add: field_keys_ci)
    have keys: "field_keys ?ci ps = field_keys ?ci cs" by (rule erase_keys [OF eq])
    have named: "\<forall>c' \<in> set cs. matched pol ps c'"
      using erase_eq_find [OF eq _ d] zip_ok by (metis matched_def option.simps(5))
    have names: "\<forall>(p', c') \<in> set (zip ps cs). name_key ?ci (fs_name p') = name_key ?ci (fs_name c')"
      using erase_zip(1) [OF eq] by fastforce
    have "fields_ok pol ps cs"
    proof (cases "m_by_pos (policy_mode pol)")
      case True
      then show ?thesis using len zip_ok by (auto simp: fields_ok_position)
    next
      case False
      then show ?thesis
        using d named keys names zip_ok len
        by (cases "m_ordered (policy_mode pol)") (auto simp: fields_ok_ordered fields_ok_by_name)
    qed
    then show ?thesis using Struct p by simp
  qed (use less in \<open>cases p; simp\<close>)+
qed


subsection \<open>Comparing policies\<close>

lemma shape_size_zip:
  "(p, c) \<in> set (zip ps cs) \<Longrightarrow> size (fs_shape c) < size (Struct cs)"
  using field_shape_smaller [OF set_zip_rightD] by fastforce

lemma find_smaller:
  "find_field_mode cs n ci = Some c \<Longrightarrow> size (fs_shape c) < size (Struct cs)"
  using field_shape_smaller [of c cs] find_field_mode_Some [of cs n ci c] by simp

abbreviation aligned :: "schema_policy \<Rightarrow> bool" where
  "aligned pol \<equiv> m_ordered (policy_mode pol) \<or> m_by_pos (policy_mode pol)"

abbreviation names_agree :: "schema_policy \<Rightarrow> string \<Rightarrow> string \<Rightarrow> bool" where
  "names_agree pol n n' \<equiv> m_by_pos (policy_mode pol) \<or>
     name_key (m_ci (policy_mode pol)) n = name_key (m_ci (policy_mode pol)) n'"

lemma fields_ok_aligned:
  "aligned pol \<Longrightarrow> fields_ok pol ps cs \<longleftrightarrow> length ps = length cs \<and>
     (\<forall>(p, c) \<in> set (zip ps cs). names_agree pol (fs_name p) (fs_name c) \<and>
        shape_ok pol (fs_shape p) (fs_shape c))"
  by (cases "m_by_pos (policy_mode pol)") (auto simp: fields_ok_position fields_ok_ordered)

lemma fields_ok_aligned_nth:
  "aligned pol \<Longrightarrow> fields_ok pol ps cs \<longleftrightarrow> length ps = length cs \<and>
     (\<forall>i < length cs. names_agree pol (fs_name (ps ! i)) (fs_name (cs ! i)) \<and>
        shape_ok pol (fs_shape (ps ! i)) (fs_shape (cs ! i)))"
  by (fastforce simp: fields_ok_aligned set_zip)

lemma aligned_mono:
  assumes "aligned pol" "aligned pol'"
    and weaker: "\<And>n n'. names_agree pol n n' \<Longrightarrow> names_agree pol' n n'"
  shows "shape_ok pol p c \<Longrightarrow> shape_ok pol' p c"
proof (induction c arbitrary: p rule: measure_induct_rule [of size])
  case (less c)
  show ?case
  proof (cases c)
    case (Struct cs)
    with less.prems obtain ps where p: "p = Struct ps" and ok: "fields_ok pol ps cs"
      by (cases p) auto
    have step: "shape_ok pol' (fs_shape p) (fs_shape c)"
      if "(p, c) \<in> set (zip ps cs)" "shape_ok pol (fs_shape p) (fs_shape c)" for p c
      using less.IH that(2) shape_size_zip [OF that(1)] Struct by simp
    have "fields_ok pol' ps cs"
      unfolding fields_ok_aligned [OF assms(2)]
      using ok step weaker unfolding fields_ok_aligned [OF assms(1)] by fast
    then show ?thesis using Struct p by simp
  qed (use less in \<open>cases p; simp\<close>)+
qed

lemma ordered_is_erased_equality: "shape_ok ExactOrdered p c \<longleftrightarrow> erase_defaults p = erase_defaults c"
proof (induction c arbitrary: p rule: measure_induct_rule [of size])
  case (less c)
  show ?case
  proof (cases c)
    case (Struct cs)
    show ?thesis
    proof (cases p)
      case p: (Struct ps)
      have step: "fs_name p = fs_name c \<and> shape_ok ExactOrdered (fs_shape p) (fs_shape c) \<longleftrightarrow>
          erase_field p = erase_field c"
        if "(p, c) \<in> set (zip ps cs)" for p c
        using less.IH [OF shape_size_zip [OF that, folded Struct]] by (cases p; cases c) auto
      have "fields_ok ExactOrdered ps cs \<longleftrightarrow>
          length ps = length cs \<and> (\<forall>(p, c) \<in> set (zip ps cs). erase_field p = erase_field c)"
        using step by (simp add: fields_ok_ordered name_key_def) fast
      also have "\<dots> \<longleftrightarrow> map erase_field ps = map erase_field cs"
        unfolding list_eq_iff_nth_eq by (fastforce simp: set_zip)
      finally show ?thesis using Struct p by simp
    qed (simp_all add: Struct)
  qed (use less in \<open>cases p; simp\<close>)+
qed

lemma ordered_fields_equality:
  "fields_ok ExactOrdered ps cs \<longleftrightarrow> map erase_field ps = map erase_field cs"
  using ordered_is_erased_equality [of "Struct ps" "Struct cs"] by simp

text \<open>The policy of the same change seen from the other side.\<close>

fun reversed :: "schema_policy \<Rightarrow> schema_policy" where
  "reversed Forward = Backward"
| "reversed pol = pol"

lemma find_key_cong:
  "name_key ci n = name_key ci n' \<Longrightarrow> find_field_mode fs n ci = find_field_mode fs n' ci"
  by (induction fs) (auto simp: name_eq_iff)

lemma ball_zip_swap:
  "(\<forall>(a, b) \<in> set (zip xs ys). P a b) \<longleftrightarrow> (\<forall>(b, a) \<in> set (zip ys xs). P a b)"
  by (fastforce simp: set_zip)

lemma matched_found:
  assumes "matched pol ps c" "find_field_mode ps (fs_name c) (m_ci (policy_mode pol)) = Some p"
  shows "shape_ok pol (fs_shape p) (fs_shape c)"
  using assms by (simp add: matched_def)

lemma reversed_ok:
  assumes pol: "pol \<noteq> Backward" "pol \<noteq> Full"
  shows "shape_ok pol p c \<Longrightarrow> shape_ok (reversed pol) c p"
proof (induction c arbitrary: p rule: measure_induct_rule [of size])
  case (less c)
  show ?case
  proof (cases c)
    case (Struct cs)
    with less.prems obtain ps where p: "p = Struct ps" and ok: "fields_ok pol ps cs"
      by (cases p) auto
    have mode: "policy_mode (reversed pol) = policy_mode pol" by (cases pol) auto
    have "fields_ok (reversed pol) cs ps"
    proof (cases "aligned pol")
      case True
      have step: "shape_ok (reversed pol) (fs_shape c') (fs_shape p')"
        if "(p', c') \<in> set (zip ps cs)" "shape_ok pol (fs_shape p') (fs_shape c')" for p' c'
        using less.IH that(2) shape_size_zip [OF that(1)] Struct by simp
      show ?thesis
        using ok step
        unfolding fields_ok_aligned [OF True] fields_ok_aligned [of "reversed pol", unfolded mode, OF True]
        by (simp add: ball_zip_swap [of cs]) fastforce
    next
      case False
      let ?ci = "m_ci (policy_mode pol)"
      from False ok have dp: "distinct (field_keys ?ci ps)" and dc: "distinct (field_keys ?ci cs)"
        and m: "\<And>c. c \<in> set cs \<Longrightarrow> matched pol ps c"
        and e: "set (field_keys ?ci ps) \<subseteq> set (field_keys ?ci cs)"
        using pol by (cases pol; auto simp: fields_ok_by_name)+
      have "matched (reversed pol) cs p'" if p': "p' \<in> set ps" for p'
      proof -
        obtain c' where c': "c' \<in> set cs" "name_key ?ci (fs_name c') = name_key ?ci (fs_name p')"
          using e p' by force
        have "find_field_mode cs (fs_name p') ?ci = Some c'"
          using c' by (simp add: find_field_mode_distinct [OF dc])
        moreover have "find_field_mode ps (fs_name c') ?ci = Some p'"
          using c' p' by (simp add: find_field_mode_distinct [OF dp])
        then have "shape_ok pol (fs_shape p') (fs_shape c')"
          by (rule matched_found [OF m [OF c'(1)]])
        moreover have "size (fs_shape c') < size c"
          using field_shape_smaller [OF c'(1)] Struct by simp
        ultimately show ?thesis using less.IH by (simp add: matched_def mode)
      qed
      moreover have "tolerates_extra (reversed pol) \<or> set (field_keys ?ci cs) \<subseteq> set (field_keys ?ci ps)"
      proof (cases "pol = Forward")
        case False
        with pol \<open>\<not> aligned pol\<close> have "\<not> tolerates_missing pol c'" for c' by (cases pol) auto
        then show ?thesis
          using m by (force simp: matched_def find_field_mode_None split: option.splits)
      qed simp
      ultimately show ?thesis
        using False dp dc by (simp add: fields_ok_by_name mode)
    qed
    then show ?thesis using Struct p by simp
  qed (use less in \<open>cases p; simp\<close>)+
qed


lemma matched_trans:
  assumes pol: "\<not> tolerates_extra pol" "\<not> aligned pol"
    and ab: "fields_ok pol as bs" and bc: "fields_ok pol bs cs" and c: "c \<in> set cs"
    and step: "\<And>a b. shape_ok pol (fs_shape a) (fs_shape b) \<Longrightarrow>
      shape_ok pol (fs_shape b) (fs_shape c) \<Longrightarrow> shape_ok pol (fs_shape a) (fs_shape c)"
  shows "matched pol as c"
proof -
  let ?ci = "m_ci (policy_mode pol)" and ?n = "fs_name c"
  have mab: "\<And>b. b \<in> set bs \<Longrightarrow> matched pol as b" and mbc: "matched pol bs c"
    and sub: "set (field_keys ?ci as) \<subseteq> set (field_keys ?ci bs)"
    using ab bc c pol by (simp_all add: fields_ok_by_name)
  show ?thesis
  proof (cases "find_field_mode bs ?n ?ci")
    case None
    then have "find_field_mode as ?n ?ci = None"
      using sub by (auto simp: find_field_mode_None)
    with None mbc show ?thesis by (simp add: matched_def)
  next
    case (Some b)
    then have b: "b \<in> set bs" and key: "name_key ?ci (fs_name b) = name_key ?ci ?n"
      using find_field_mode_Some [OF Some] by simp_all
    have bc_ok: "shape_ok pol (fs_shape b) (fs_shape c)"
      using mbc Some by (simp add: matched_def)
    from mab [OF b] have "matched pol as b" .
    then show ?thesis
      using bc_ok step find_key_cong [OF key, of as] pol
      by (cases pol) (auto simp: matched_def split: option.splits)
  qed
qed

lemma shape_ok_trans:
  assumes pol: "\<not> tolerates_extra pol"
  shows "shape_ok pol a b \<Longrightarrow> shape_ok pol b c \<Longrightarrow> shape_ok pol a c"
proof (induction c arbitrary: a b rule: measure_induct_rule [of size])
  case (less c)
  show ?case
  proof (cases c)
    case (Struct cs)
    with less.prems obtain as bs where ab: "a = Struct as" "b = Struct bs"
      and ok: "fields_ok pol as bs" "fields_ok pol bs cs"
      by (cases a; cases b) auto
    have "fields_ok pol as cs"
    proof (cases "aligned pol")
      case True
      have step: "shape_ok pol (fs_shape a) (fs_shape c')"
        if "c' \<in> set cs" "shape_ok pol (fs_shape a) (fs_shape b)"
          "shape_ok pol (fs_shape b) (fs_shape c')" for a b c'
        using less.IH [of "fs_shape c'"] that field_shape_smaller [OF that(1)] Struct by simp
      note ok' = ok [unfolded fields_ok_aligned_nth [OF True]]
      have len: "length as = length bs" "length bs = length cs" using ok' by simp_all
      have at: "names_agree pol (fs_name (as ! i)) (fs_name (cs ! i)) \<and>
          shape_ok pol (fs_shape (as ! i)) (fs_shape (cs ! i))" if "i < length cs" for i
      proof -
        have "names_agree pol (fs_name (as ! i)) (fs_name (bs ! i))"
          "names_agree pol (fs_name (bs ! i)) (fs_name (cs ! i))"
          "shape_ok pol (fs_shape (as ! i)) (fs_shape (bs ! i))"
          "shape_ok pol (fs_shape (bs ! i)) (fs_shape (cs ! i))"
          using ok' that by simp_all
        with step [OF nth_mem [OF that]] show ?thesis by metis
      qed
      show ?thesis
        unfolding fields_ok_aligned_nth [OF True]
        by (intro conjI [OF _ allI] impI at) (simp add: len)
    next
      case False
      let ?keys = "\<lambda>fs. set (field_keys (m_ci (policy_mode pol)) fs)"
      have "?keys as \<subseteq> ?keys bs" and "?keys bs \<subseteq> ?keys cs"
        using ok pol False by (simp_all add: fields_ok_by_name)
      then have sub: "?keys as \<subseteq> ?keys cs" by (rule subset_trans)
      have "matched pol as c'" if "c' \<in> set cs" for c'
      proof (rule matched_trans [OF pol False ok that])
        show "shape_ok pol (fs_shape a) (fs_shape b) \<Longrightarrow> shape_ok pol (fs_shape b) (fs_shape c') \<Longrightarrow>
          shape_ok pol (fs_shape a) (fs_shape c')" for a b
          using less.IH [of "fs_shape c'"] field_shape_smaller [OF that] Struct by simp
      qed
      then show ?thesis
        using ok False sub by (simp add: fields_ok_by_name)
    qed
    then show ?thesis using Struct ab by simp
  next
    case (Optional t)
    with less.prems obtain a' b' where "a = Optional a'" "b = Optional b'"
      by (cases a; cases b; simp)
    with less.prems less.IH [of t a' b'] Optional show ?thesis by simp
  next
    case (Sequence t)
    with less.prems obtain a' b' where "a = Sequence a'" "b = Sequence b'"
      by (cases a; cases b; simp)
    with less.prems less.IH [of t a' b'] Sequence show ?thesis by simp
  next
    case (MapOf k v)
    with less.prems obtain ak av bk bv where "a = MapOf ak av" "b = MapOf bk bv"
      by (cases a; cases b; simp)
    with less.prems less.IH [of k ak bk] less.IH [of v av bv] MapOf show ?thesis by simp
  next
    case (Primitive n)
    with less.prems show ?thesis by (cases a; cases b; simp)
  qed
qed

subsection \<open>Properties of \<open>conforms\<close>\<close>

abbreviation is_struct :: "type_shape \<Rightarrow> bool" where
  "is_struct t \<equiv> (\<exists>fs. t = Struct fs)"

lemma verdict_iff:
  "verdict pol p c \<longleftrightarrow> pol = Full \<or>
     (if is_struct p \<and> is_struct c then shape_ok pol p c else erase_defaults p = erase_defaults c)"
  by (cases p; cases c; simp)

lemma erase_struct: "erase_defaults p = erase_defaults c \<Longrightarrow> is_struct p \<longleftrightarrow> is_struct c"
  by (cases p; cases c; simp)

lemma shape_ok_struct: "shape_ok pol p c \<Longrightarrow> is_struct p \<longleftrightarrow> is_struct c"
  by (cases p; cases c; simp)

lemma verdict_reversed: "pol \<noteq> Backward \<Longrightarrow> verdict pol p c \<Longrightarrow> verdict (reversed pol) c p"
  using reversed_ok [of pol p c] by (cases "pol = Full") (auto simp: verdict_iff split: if_splits)

lemma verdict_trans:
  assumes "pol \<noteq> Backward" "verdict pol a b" "verdict pol b c"
  shows "verdict pol a c"
proof (cases "pol = Full")
  case False
  with assms(1) have "\<not> tolerates_extra pol" by (cases pol) auto
  moreover have "is_struct a \<longleftrightarrow> is_struct b" "is_struct b \<longleftrightarrow> is_struct c"
    using assms(2,3) False erase_struct shape_ok_struct unfolding verdict_iff by metis+
  ultimately show ?thesis
    using assms(2,3) False shape_ok_trans [of pol a b c] by (simp add: verdict_iff split: if_splits)
qed (simp add: verdict_iff)


lemma find_by_name_cases:
  assumes "distinct (map fs_name ps)"
  shows "(case find_field_mode ps n False of Some p \<Rightarrow> P p | None \<Rightarrow> Q) \<longleftrightarrow>
     (\<exists>p \<in> set ps. fs_name p = n \<and> P p) \<or> n \<notin> fs_name ` set ps \<and> Q"
proof -
  have d: "distinct (field_keys False ps)" using assms by (simp add: name_key_def)
  show ?thesis
  proof (cases "find_field_mode ps n False")
    case None
    then have "n \<notin> fs_name ` set ps" by (auto simp: find_field_mode_None name_key_def)
    with None show ?thesis by auto
  next
    case (Some p)
    then have p: "p \<in> set ps" "fs_name p = n"
      by (simp_all add: find_field_mode_distinct [OF d] name_key_def)
    have "(\<exists>q \<in> set ps. fs_name q = n \<and> P q) \<longleftrightarrow> P p"
      using assms p unfolding distinct_map inj_on_def by metis
    moreover have "n \<in> fs_name ` set ps" using p by blast
    ultimately show ?thesis by (simp add: Some)
  qed
qed

lemma conforms_struct_iff:
  "pol \<noteq> Full \<Longrightarrow> conforms (Struct ps) (Struct cs) pol \<longleftrightarrow> fields_ok pol ps cs"
  by (simp add: conforms_iff)

text \<open>
  C17. \<open>Backward\<close> on two structs: names identify fields on both sides, and every contract
  field either has a producer field of the same name with a compatible shape, or is
  absent from the producer and optional or defaulted; the producer's other fields are
  ignored.
\<close>

theorem backward_reading:
  "conforms (Struct ps) (Struct cs) Backward \<longleftrightarrow>
     distinct (map fs_name ps) \<and> distinct (map fs_name cs) \<and>
     (\<forall>c \<in> set cs.
        (\<exists>p \<in> set ps. fs_name p = fs_name c \<and> shape_ok Backward (fs_shape p) (fs_shape c)) \<or>
        fs_name c \<notin> fs_name ` set ps \<and> (is_optional (fs_shape c) \<or> fs_default c))"
proof (cases "distinct (map fs_name ps)")
  case True
  have "conforms (Struct ps) (Struct cs) Backward \<longleftrightarrow> fields_ok Backward ps cs"
    by (simp add: conforms_struct_iff)
  also have "\<dots> \<longleftrightarrow> distinct (map fs_name ps) \<and> distinct (map fs_name cs) \<and>
      (\<forall>c \<in> set cs. matched Backward ps c)"
    by (simp add: fields_ok_by_name name_key_def)
  finally show ?thesis
    by (simp add: matched_def find_by_name_cases [OF True])
next
  case False
  then show ?thesis by (simp add: conforms_struct_iff fields_ok_by_name name_key_def)
qed

lemma backward_reading_witness:
  "conforms (Struct [FieldShape ''id'' (Primitive ''i64'') False,
                     FieldShape ''tag'' (Primitive ''String'') False])
            (Struct [FieldShape ''note'' (Optional (Primitive ''String'')) False,
                     FieldShape ''id'' (Primitive ''i64'') False]) Backward"
  by (subst backward_reading) simp


lemma conforms_ExactOrdered:
  "conforms p c ExactOrdered \<longleftrightarrow> erase_defaults p = erase_defaults c"
  using erase_struct [of p c]
  by (auto simp: conforms_iff verdict_iff ordered_is_erased_equality)

text \<open>
  C10. \<open>ExactOrdered\<close> is equality of shapes up to declared defaults, hence an equivalence.
\<close>

theorem exact_ordered_is_equality:
  "conforms p c ExactOrdered \<longleftrightarrow> erase_defaults p = erase_defaults c"
  by (rule conforms_ExactOrdered)

text \<open>
  Swapping producer and contract: every policy but \<open>Backward\<close> and \<open>Forward\<close> is
  symmetric, and a producer that conforms forward accepts its contract backward.
\<close>

theorem conforms_reversed:
  assumes "pol \<noteq> Backward" and "conforms p c pol"
  shows "conforms c p (reversed pol)"
  using assms verdict_reversed by (simp add: conforms_iff)

lemma conforms_reversed_witness:
  "conforms (Struct [FieldShape ''a'' (Primitive ''i64'') False, FieldShape ''b'' (Primitive ''bool'') False])
            (Struct [FieldShape ''a'' (Primitive ''i64'') False]) Backward"
proof -
  have "conforms (Struct [FieldShape ''a'' (Primitive ''i64'') False])
     (Struct [FieldShape ''a'' (Primitive ''i64'') False, FieldShape ''b'' (Primitive ''bool'') False]) Forward"
    by (simp add: conforms_iff fields_ok_by_name matched_def name_key_def name_eq_iff)
  from conforms_reversed [OF _ this] show ?thesis by simp
qed

text \<open>
  C14. Every policy but \<open>Backward\<close> is transitive, so conformance may be checked along a
  chain of contracts link by link.
\<close>

theorem conforms_trans:
  assumes "pol \<noteq> Backward" and "conforms a b pol" and "conforms b c pol"
  shows "conforms a c pol"
  using assms verdict_trans by (simp add: conforms_iff)

lemma conforms_trans_witness:
  "conforms (Struct [FieldShape ''ID'' (Primitive ''i64'') False])
            (Struct [FieldShape ''id'' (Primitive ''i64'') True]) ExactOrderedCI"
proof -
  have "conforms (Struct [FieldShape x (Primitive ''i64'') d])
          (Struct [FieldShape y (Primitive ''i64'') e]) ExactOrderedCI"
    if "map to_ascii_lower x = map to_ascii_lower y" for x y d e
    using that by (simp add: conforms_iff fields_ok_ordered name_key_def)
  note step = this
  have "map to_ascii_lower ''ID'' = map to_ascii_lower ''Id''"
    "map to_ascii_lower ''Id'' = map to_ascii_lower ''id''" by code_simp+
  from conforms_trans [OF _ step [OF this(1)] step [OF this(2)]] show ?thesis by simp
qed

text \<open>
  \<open>Backward\<close> is not transitive: dropping a field and later re-adding it with another
  type, each step defaulted, composes to an incompatible change.
\<close>

theorem backward_not_transitive:
  "conforms (Struct [FieldShape ''x'' (Primitive ''String'') False]) (Struct []) Backward \<and>
   conforms (Struct []) (Struct [FieldShape ''x'' (Primitive ''i64'') True]) Backward \<and>
   \<not> conforms (Struct [FieldShape ''x'' (Primitive ''String'') False])
        (Struct [FieldShape ''x'' (Primitive ''i64'') True]) Backward"
  by (simp add: conforms_iff fields_ok_by_name matched_def name_key_def name_eq_iff)

text \<open>
  The strictest policy: a producer whose field names are unique up to case and that
  conforms under \<open>ExactOrdered\<close> conforms under every policy.
\<close>

theorem exact_ordered_strictest:
  assumes "conforms p c ExactOrdered" and "names_unique True p"
  shows "conforms p c pol"
proof -
  have eq: "erase_defaults p = erase_defaults c"
    using assms(1) erase_struct [of p c]
    unfolding conforms_iff verdict_iff ordered_is_erased_equality by (simp split: if_splits)
  with equal_shape_ok [OF eq assms(2), of pol] show ?thesis
    by (simp add: conforms_iff verdict_iff)
qed

lemma exact_ordered_strictest_witness:
  "conforms (Struct [FieldShape ''a'' (Primitive ''i64'') True])
            (Struct [FieldShape ''a'' (Primitive ''i64'') False]) Forward"
  by (rule exact_ordered_strictest)
    (simp_all add: conforms_iff ordered_fields_equality)

text \<open>
  The ordered policies form a chain: ignoring case weakens \<open>ExactOrdered\<close>, and
  ignoring names altogether weakens it further.
\<close>

theorem ordered_chain:
  "(conforms p c ExactOrdered \<longrightarrow> conforms p c ExactOrderedCI) \<and>
   (conforms p c ExactOrderedCI \<longrightarrow> conforms p c ExactByPosition)"
  using aligned_mono [of ExactOrdered ExactOrderedCI p c]
    aligned_mono [of ExactOrderedCI ExactByPosition p c]
  by (auto simp: conforms_iff verdict_iff name_key_def)

lemma ordered_chain_witness:
  "conforms (Struct [FieldShape ''a'' (Primitive ''i64'') False])
            (Struct [FieldShape ''A'' (Primitive ''i64'') False]) ExactByPosition"
proof -
  have "conforms (Struct [FieldShape ''a'' (Primitive ''i64'') False])
          (Struct [FieldShape ''A'' (Primitive ''i64'') False]) ExactOrderedCI"
    by code_simp
  with ordered_chain show ?thesis by blast
qed

end
