(* ===== verification/ContractRender.thy ===== *)
theory ContractRender
  imports ContractPolicy
begin

text \<open>
  The compile-time panic message of \<open>SchemaConforms::CHECK\<close>: one function per piece of
  the argument list the source passes to \<open>concat_panic!\<close>, and the message they join to.
\<close>

subsection \<open>The pieces\<close>

definition diff_kind_label :: "diffs \<Rightarrow> nat \<Rightarrow> string" where
  "diff_kind_label ds i =
     (case items ds ! i of
        Some d \<Rightarrow> (case d_kind d of
            Missing \<Rightarrow> ''missing `'' | Extra \<Rightarrow> ''extra `'' | Mismatch \<Rightarrow> ''mismatch `'')
      | None \<Rightarrow> '''')"

definition diff_lead_sep :: "diffs \<Rightarrow> nat \<Rightarrow> string" where
  "diff_lead_sep ds i = (if i > 0 \<and> items ds ! i \<noteq> None then ''; '' else '''')"

definition diff_seg :: "diffs \<Rightarrow> nat \<Rightarrow> nat \<Rightarrow> string" where
  "diff_seg ds i j = (case items ds ! i of Some d \<Rightarrow> d_path d ! j | None \<Rightarrow> '''')"

definition diff_seg_sep :: "diffs \<Rightarrow> nat \<Rightarrow> nat \<Rightarrow> string" where
  "diff_seg_sep ds i j = sep (diff_seg ds i j)"

definition diff_close :: "diffs \<Rightarrow> nat \<Rightarrow> string" where
  "diff_close ds i = (case items ds ! i of Some d \<Rightarrow> ''`'' | None \<Rightarrow> '''')"

definition diff_annotation :: "diffs \<Rightarrow> nat \<Rightarrow> string" where
  "diff_annotation ds i = (case items ds ! i of Some d \<Rightarrow> d_annotation d | None \<Rightarrow> '''')"

definition expected_open :: "diffs \<Rightarrow> nat \<Rightarrow> string" where
  "expected_open ds i =
     (case items ds ! i of
        Some d \<Rightarrow> (if d_expected d \<noteq> [] then '' (expected `'' else '''')
      | None \<Rightarrow> '''')"

definition diff_expected :: "diffs \<Rightarrow> nat \<Rightarrow> string" where
  "diff_expected ds i = (case items ds ! i of Some d \<Rightarrow> d_expected d | None \<Rightarrow> '''')"

definition expected_mid :: "diffs \<Rightarrow> nat \<Rightarrow> string" where
  "expected_mid ds i =
     (case items ds ! i of
        Some d \<Rightarrow> (if d_expected d \<noteq> [] then ''`, found `'' else '''')
      | None \<Rightarrow> '''')"

definition diff_found :: "diffs \<Rightarrow> nat \<Rightarrow> string" where
  "diff_found ds i = (case items ds ! i of Some d \<Rightarrow> d_found d | None \<Rightarrow> '''')"

definition expected_close :: "diffs \<Rightarrow> nat \<Rightarrow> string" where
  "expected_close ds i =
     (case items ds ! i of
        Some d \<Rightarrow> (if d_expected d \<noteq> [] then ''`)'' else '''')
      | None \<Rightarrow> '''')"

subsection \<open>The message\<close>

text \<open>The repeated group of the argument list, and the list for \<open>I in 0..128\<close>.\<close>

definition diff_slot :: "diffs \<Rightarrow> nat \<Rightarrow> string" where
  "diff_slot ds i =
     diff_lead_sep ds i @ diff_kind_label ds i @ diff_seg ds i 0 @
     diff_seg_sep ds i 1 @ diff_seg ds i 1 @
     diff_seg_sep ds i 2 @ diff_seg ds i 2 @
     diff_seg_sep ds i 3 @ diff_seg ds i 3 @
     diff_seg_sep ds i 4 @ diff_seg ds i 4 @
     diff_seg_sep ds i 5 @ diff_seg ds i 5 @
     diff_seg_sep ds i 6 @ diff_seg ds i 6 @
     diff_seg_sep ds i 7 @ diff_seg ds i 7 @
     diff_close ds i @ diff_annotation ds i @ expected_open ds i @ diff_expected ds i @
     expected_mid ds i @ diff_found ds i @ expected_close ds i"

text \<open>\<open>CHECK\<close>: \<open>Some\<close> message is a compile-time panic, \<open>None\<close> a build that goes on.\<close>

definition check :: "type_shape \<Rightarrow> type_shape \<Rightarrow> schema_policy \<Rightarrow> string option" where
  "check producer contract policy =
     (let comparison = compare producer contract policy; ds = c_diffs comparison
      in if rejected comparison
         then Some (''producer schema does not conform to the contract: '' @
                    concat (map (diff_slot ds) [0..<128]))
         else None)"

subsection \<open>The message in terms of the recorded differences\<close>

definition dotted :: "path8 \<Rightarrow> string" where
  "dotted path = hd path @ concat (map (\<lambda>s. sep s @ s) (tl path))"

definition render :: "diff \<Rightarrow> string" where
  "render d =
     (case d_kind d of Missing \<Rightarrow> ''missing `'' | Extra \<Rightarrow> ''extra `'' | Mismatch \<Rightarrow> ''mismatch `'') @
     dotted (d_path d) @ ''`'' @ d_annotation d @
     (if d_expected d \<noteq> []
      then '' (expected `'' @ d_expected d @ ''`, found `'' @ d_found d @ ''`)''
      else d_found d)"

text \<open>The recorded differences, in the order they were pushed.\<close>

definition displayed :: "diffs \<Rightarrow> diff list" where
  "displayed ds = map the (take (diffs_len ds) (items ds))"

fun join :: "string \<Rightarrow> string list \<Rightarrow> string" where
  "join s [] = ''''"
| "join s [x] = x"
| "join s (x # xs) = x @ s @ join s xs"

lemma join_Cons: "join s (x # xs) = x @ concat (map (\<lambda>y. s @ y) xs)"
  by (induction xs arbitrary: x) auto

lemma dotted_unfold:
  assumes "length path = MAX_PATH_DEPTH"
  shows "dotted path = path ! 0 @ concat (map (\<lambda>j. sep (path ! j) @ path ! j) [1..<8])"
proof -
  have "path \<noteq> []" using assms by (auto simp: MAX_PATH_DEPTH_def)
  have "tl path = map (\<lambda>j. path ! j) [1..<8]"
    using assms by (intro nth_equalityI) (auto simp: MAX_PATH_DEPTH_def nth_tl)
  with \<open>path \<noteq> []\<close> show ?thesis by (simp add: dotted_def hd_conv_nth comp_def)
qed

lemma upt_1_8: "[Suc 0..<8] = [Suc 0, 2, 3, 4, 5, 6, 7 :: nat]"
  by (simp add: upt_rec)

lemmas slot_pieces = diff_lead_sep_def diff_kind_label_def diff_seg_def diff_seg_sep_def
  diff_close_def diff_annotation_def expected_open_def diff_expected_def expected_mid_def
  diff_found_def expected_close_def

lemma diff_slot_None: "items ds ! i = None \<Longrightarrow> diff_slot ds i = ''''"
  by (simp add: diff_slot_def slot_pieces sep_def)

lemma diff_slot_Some:
  "items ds ! i = Some d \<Longrightarrow> length (d_path d) = MAX_PATH_DEPTH \<Longrightarrow>
   diff_slot ds i = (if i > 0 then ''; '' else '''') @ render d"
  by (cases "d_kind d") (simp_all add: diff_slot_def slot_pieces render_def dotted_unfold upt_1_8)

lemma concat_map_Nil: "(\<And>x. x \<in> set xs \<Longrightarrow> f x = []) \<Longrightarrow> concat (map f xs) = []"
  by (induction xs) auto

lemma message_body:
  assumes wf: "diffs_wf ds"
    and paths: "\<And>d. Some d \<in> set (items ds) \<Longrightarrow> length (d_path d) = MAX_PATH_DEPTH"
    and pos: "0 < diffs_len ds"
  shows "concat (map (diff_slot ds) [0..<128]) = join ''; '' (map render (displayed ds))"
proof -
  let ?n = "diffs_len ds"
  let ?r = "\<lambda>i. render (the (items ds ! i))"
  have n: "?n \<le> 128" and len: "length (items ds) = 128"
    using wf by (simp_all add: diffs_wf_def MAX_DIFFS_def)
  have filled: "diff_slot ds i = (if i > 0 then ''; '' else '''') @ ?r i" if "i < ?n" for i
  proof -
    have "i < 128" using that n by simp
    then have "items ds ! i \<noteq> None" using wf that by (simp add: diffs_wf_def MAX_DIFFS_def)
    then obtain d where d: "items ds ! i = Some d" by blast
    with len that n have "Some d \<in> set (items ds)" by (metis nth_mem order_less_le_trans)
    from diff_slot_Some [OF d paths [OF this]] d show ?thesis by simp
  qed
  have empty: "diff_slot ds i = ''''" if "?n \<le> i" "i < 128" for i
    using wf that by (intro diff_slot_None) (auto simp: diffs_wf_def MAX_DIFFS_def)
  have "[0..<128] = [0..<?n] @ [?n..<128]"
    using n by (metis le_add_diff_inverse upt_add_eq_append zero_le)
  then have "concat (map (diff_slot ds) [0..<128]) = concat (map (diff_slot ds) [0..<?n])"
    by (simp add: concat_map_Nil empty)
  also have "[0..<?n] = 0 # [1..<?n]" using pos by (simp add: upt_conv_Cons)
  finally have "concat (map (diff_slot ds) [0..<128]) =
      diff_slot ds 0 @ concat (map (diff_slot ds) [1..<?n])" by simp
  also have "map (diff_slot ds) [1..<?n] = map (\<lambda>i. ''; '' @ ?r i) [1..<?n]"
    by (simp add: filled)
  also have "diff_slot ds 0 = ?r 0" using filled [OF pos] by simp
  also have "?r 0 @ concat (map (\<lambda>i. ''; '' @ ?r i) [1..<?n]) =
      join ''; '' (map ?r (0 # [1..<?n]))"
    by (simp only: list.map join_Cons) (simp add: comp_def)
  also have "map ?r (0 # [1..<?n]) = map render (displayed ds)"
    using pos n len by (intro nth_equalityI) (auto simp: displayed_def nth_Cons')
  finally show ?thesis .
qed

text \<open>
  \<open>CHECK\<close> stops the build exactly when the producer does not conform, and then its
  message is the prefix followed by the recorded differences in the order the traversal
  found them, separated by \<open>"; "\<close>, each with its dotted path and its expected and found
  labels.
\<close>

theorem check_message:
  "check p c pol =
     (if conforms p c pol then None
      else Some (''producer schema does not conform to the contract: '' @
                 join ''; '' (map render (displayed (c_diffs (compare p c pol))))))"
proof (cases "conforms p c pol")
  case False
  have wf: "comparison_wf (compare p c pol)" by (rule compare_wf)
  with False message_body [of "c_diffs (compare p c pol)"] show ?thesis
    by (auto simp: check_def conforms_def comparison_wf_def Let_def)
qed (simp add: check_def conforms_def Let_def)

end
