(* ===== verification/ArrowMapping.thy ===== *)
theory ArrowMapping
  imports ContractTypes ArrowTypes
begin

text \<open>
  \<open>crates/contracts/src/arrow.rs\<close>: the physical Arrow schema of a declared shape.
\<close>

datatype mapping_error =
    RootNotStruct
  | UnsupportedPrimitive string string
  | NestedOptional string
  | InvalidMapKey string
  | DuplicateField string
  | DepthLimit string

subsection \<open>The mapping\<close>

definition primitive_type :: "string \<Rightarrow> data_type option" where
  "primitive_type primitive =
     (if primitive = ''bool'' then Some Boolean
      else if primitive = ''i8'' then Some Int8
      else if primitive = ''i16'' then Some Int16
      else if primitive = ''i32'' then Some Int32
      else if primitive = ''i64'' then Some Int64
      else if primitive = ''u8'' then Some UInt8
      else if primitive = ''u16'' then Some UInt16
      else if primitive = ''u32'' then Some UInt32
      else if primitive = ''u64'' then Some UInt64
      else if primitive = ''f32'' then Some Float32
      else if primitive = ''f64'' then Some Float64
      else if primitive = ''str'' \<or> primitive = ''String'' then Some Utf8
      else None)"

definition map_key_labels :: "string list" where
  "map_key_labels =
     [''bool'', ''String'', ''i8'', ''i16'', ''i32'', ''i64'', ''i128'',
      ''u8'', ''u16'', ''u32'', ''u64'', ''u128'', ''isize'', ''usize'']"

text \<open>The \<open>matches!\<close> on the key shape.\<close>

fun is_map_key :: "type_shape \<Rightarrow> bool" where
  "is_map_key (Primitive p) \<longleftrightarrow> p \<in> set map_key_labels"
| "is_map_key _ \<longleftrightarrow> False"

fun strip_optional :: "type_shape \<Rightarrow> type_shape \<times> bool" where
  "strip_optional (Optional inner) = (inner, True)"
| "strip_optional s = (s, False)"

definition field_path :: "string \<Rightarrow> string \<Rightarrow> string" where
  "field_path path name = (if path = [] then name else path @ ''.'' @ name)"

lemma strip_optional_size [termination_simp]:
  "strip_optional s = (t, n) \<Longrightarrow> size t \<le> size s"
  by (cases s) auto

text \<open>
  \<open>map_field\<close>, its \<open>match\<close> on the stripped shape (\<open>map_type\<close>), and the \<open>for\<close> loop of
  \<open>struct_fields\<close> with the already visited slice \<open>fields[..index]\<close> as \<open>prior\<close>.
\<close>

function (sequential) map_field ::
    "string \<Rightarrow> type_shape \<Rightarrow> string \<Rightarrow> nat \<Rightarrow> mapping_error + arrow_field"
  and map_type :: "type_shape \<Rightarrow> string \<Rightarrow> nat \<Rightarrow> mapping_error + data_type"
  and struct_loop ::
    "field_shape list \<Rightarrow> field_shape list \<Rightarrow> string \<Rightarrow> nat \<Rightarrow> mapping_error + arrow_field list"
where
  "map_field name shape path depth =
     (if depth > 128 then Inl (DepthLimit path)
      else (case strip_optional shape of (s, nullable) \<Rightarrow>
        (case map_type s path depth of
           Inl e \<Rightarrow> Inl e
         | Inr ty \<Rightarrow> Inr (field_new name ty nullable))))"
| "map_type (Optional s) path depth = Inl (NestedOptional path)"
| "map_type (Primitive p) path depth =
     (case primitive_type p of
        Some ty \<Rightarrow> Inr ty
      | None \<Rightarrow> Inl (UnsupportedPrimitive path p))"
| "map_type (Sequence item) path depth =
     (case map_field ''item'' item (path @ ''[]'') (depth + 1) of
        Inl e \<Rightarrow> Inl e
      | Inr f \<Rightarrow> Inr (ListOf f))"
| "map_type (Struct fields) path depth =
     (case struct_loop [] fields path depth of
        Inl e \<Rightarrow> Inl e
      | Inr fs \<Rightarrow> Inr (StructOf fs))"
| "map_type (MapOf key value) path depth =
     (if \<not> is_map_key key then Inl (InvalidMapKey (path @ ''.key''))
      else (case map_field ''key'' key (path @ ''.key'') (depth + 1) of
              Inl e \<Rightarrow> Inl e
            | Inr k \<Rightarrow>
           (case map_field ''value'' value (path @ ''.value'') (depth + 1) of
              Inl e \<Rightarrow> Inl e
            | Inr v \<Rightarrow> Inr (MapEntries (field_new ''entries'' (StructOf [k, v]) False) False))))"
| "struct_loop prior [] path depth = Inr []"
| "struct_loop prior (f # fs) path depth =
     (let path' = field_path path (fs_name f)
      in if fs_name f \<in> fs_name ` set prior then Inl (DuplicateField path')
         else (case map_field (fs_name f) (fs_shape f) path' (depth + 1) of
                 Inl e \<Rightarrow> Inl e
               | Inr m \<Rightarrow>
              (case struct_loop (prior @ [f]) fs path depth of
                 Inl e \<Rightarrow> Inl e
               | Inr ms \<Rightarrow> Inr (m # ms))))"
  by pat_completeness auto

lemma fs_shape_le: "2 * size (fs_shape f) \<le> 2 * size f + n"
  by (cases f) simp

termination map_field
  by (relation "measure (\<lambda>x. case x of
        Inl (_, s, _) \<Rightarrow> 2 * size s + 1
      | Inr (Inl (s, _)) \<Rightarrow> 2 * size s
      | Inr (Inr (_, fs, _)) \<Rightarrow> 2 * size_list size fs)")
    (auto simp: less_Suc_eq_le fs_shape_le intro: strip_optional_size [OF sym])

definition struct_fields ::
  "field_shape list \<Rightarrow> string \<Rightarrow> nat \<Rightarrow> mapping_error + arrow_field list" where
  "struct_fields fields path depth = struct_loop [] fields path depth"

text \<open>\<open>schema::<T>()\<close> as a function of \<open>T::SHAPE\<close>, and \<open>field\<close>.\<close>

fun schema :: "type_shape \<Rightarrow> mapping_error + arrow_schema" where
  "schema (Struct fields) = struct_fields fields '''' 0"
| "schema _ = Inl RootNotStruct"

definition arrow_field_of :: "string \<Rightarrow> type_shape \<Rightarrow> mapping_error + arrow_field" where
  "arrow_field_of name shape = map_field name shape name 0"


subsection \<open>Which shapes have a physical representation\<close>

text \<open>At most one optional layer, supported primitives, atomic map keys, distinct names.\<close>

function (sequential) supported :: "type_shape \<Rightarrow> bool" and supported_type :: "type_shape \<Rightarrow> bool" where
  "supported s \<longleftrightarrow> supported_type (fst (strip_optional s))"
| "supported_type (Optional s) \<longleftrightarrow> False"
| "supported_type (Primitive p) \<longleftrightarrow> primitive_type p \<noteq> None"
| "supported_type (Sequence t) \<longleftrightarrow> supported t"
| "supported_type (MapOf k v) \<longleftrightarrow> is_map_key k \<and> supported k \<and> supported v"
| "supported_type (Struct fs) \<longleftrightarrow>
     distinct (map fs_name fs) \<and> (\<forall>f \<in> set fs. supported (fs_shape f))"
  by pat_completeness auto

lemma field_size_le: "f \<in> set fs \<Longrightarrow> size (fs_shape f) \<le> size_list size fs"
  using size_list_estimation' [of f fs "size f" size] by (cases f) simp

termination supported
  by (relation "measure (\<lambda>x. case x of Inl s \<Rightarrow> 2 * size s + 1 | Inr s \<Rightarrow> 2 * size s)")
    (auto simp: less_Suc_eq_le field_size_le intro: strip_optional_size [OF surjective_pairing])

text \<open>Nesting depth, as the mapping counts it: optional layers are free.\<close>

primrec height :: "type_shape \<Rightarrow> nat" and field_height :: "field_shape \<Rightarrow> nat" where
  "height (Primitive p) = 0"
| "height (Optional s) = height s"
| "height (Sequence t) = Suc (height t)"
| "height (MapOf k v) = Suc (max (height k) (height v))"
| "height (Struct fs) = Max (insert 0 (set (map field_height fs)))"
| "field_height (FieldShape n s d) = Suc (height s)"

lemma field_height_shape: "field_height f = Suc (height (fs_shape f))"
  by (cases f) simp

lemma height_struct_le:
  assumes "depth \<le> 128"
  shows "depth + height (Struct fs) \<le> 128 \<longleftrightarrow>
    (\<forall>f \<in> set fs. depth + 1 + height (fs_shape f) \<le> 128)"
proof -
  have bound: "height (Struct fs) \<le> n \<longleftrightarrow> (\<forall>f \<in> set fs. field_height f \<le> n)" for n by simp
  have shift: "depth + m \<le> 128 \<longleftrightarrow> m \<le> 128 - depth" for m using assms by linarith
  have "field_height f \<le> 128 - depth \<longleftrightarrow> depth + 1 + height (fs_shape f) \<le> 128" for f
    using assms by (simp add: field_height_shape) linarith
  then show ?thesis unfolding shift bound by simp
qed

lemma strip_height [simp]: "height (fst (strip_optional s)) = height s"
  by (cases s) auto

abbreviation succeeds :: "'e + 'a \<Rightarrow> bool" where
  "succeeds r \<equiv> \<exists>x. r = Inr x"

declare map_field.simps [simp del] supported.simps [simp del]

lemma mapping_succeeds:
  shows "succeeds (map_field name shape path depth) \<longleftrightarrow> supported shape \<and> depth + height shape \<le> 128"
    and "depth \<le> 128 \<Longrightarrow>
      succeeds (map_type s path depth) \<longleftrightarrow> supported_type s \<and> depth + height s \<le> 128"
    and "depth \<le> 128 \<Longrightarrow> succeeds (struct_loop prior fs path depth) \<longleftrightarrow>
      distinct (map fs_name fs) \<and> fs_name ` set prior \<inter> fs_name ` set fs = {} \<and>
      (\<forall>f \<in> set fs. supported (fs_shape f) \<and> depth + 1 + height (fs_shape f) \<le> 128)"
proof (induction name shape path depth and s path depth and prior fs path depth
    rule: map_field_map_type_struct_loop.induct)
  case (1 name shape path depth)
  obtain s n where s: "strip_optional shape = (s, n)" by fastforce
  with strip_height [of shape] have "height s = height shape" by simp
  with 1 s show ?case
    by (auto simp: map_field.simps supported.simps split: sum.splits)
next
  case (5 fields path depth)
  then have "succeeds (map_type (Struct fields) path depth) \<longleftrightarrow> succeeds (struct_loop [] fields path depth)"
    by (auto split: sum.splits)
  with 5 height_struct_le [of depth fields] show ?case by (auto simp del: height.simps)
next
  case (8 prior f fs path depth)
  show ?case
  proof (cases "fs_name f \<in> fs_name ` set prior")
    case False
    have "succeeds (struct_loop prior (f # fs) path depth) \<longleftrightarrow>
        succeeds (map_field (fs_name f) (fs_shape f) (field_path path (fs_name f)) (depth + 1)) \<and>
        succeeds (struct_loop (prior @ [f]) fs path depth)"
      using False by (auto simp: Let_def split: sum.splits)
    with 8 False show ?thesis by (auto split: sum.splits)
  qed (auto simp: Let_def)
qed (auto split: sum.splits option.splits)

text \<open>A shape that is supported can only fail to map because it is too deep.\<close>

lemma mapping_too_deep:
  shows "map_field name shape path depth = Inl e \<Longrightarrow> supported shape \<Longrightarrow> \<exists>p. e = DepthLimit p"
    and "map_type s path depth = Inl e \<Longrightarrow> supported_type s \<Longrightarrow> \<exists>p. e = DepthLimit p"
    and "struct_loop prior fs path depth = Inl e \<Longrightarrow> distinct (map fs_name fs) \<Longrightarrow>
      fs_name ` set prior \<inter> fs_name ` set fs = {} \<Longrightarrow> (\<forall>f \<in> set fs. supported (fs_shape f)) \<Longrightarrow>
      \<exists>p. e = DepthLimit p"
proof (induction name shape path depth and s path depth and prior fs path depth
    arbitrary: e and e and e rule: map_field_map_type_struct_loop.induct)
  case (1 name shape path depth)
  obtain s n where s: "strip_optional shape = (s, n)" by fastforce
  with 1 show ?case
    by (auto simp: map_field.simps supported.simps split: sum.splits if_splits)
next
  case (8 prior f fs path depth)
  then show ?case by (auto simp: Let_def split: sum.splits if_splits)
qed (auto split: sum.splits option.splits if_splits)

subsection \<open>Reading a schema back\<close>

fun primitive_label :: "data_type \<Rightarrow> string" where
  "primitive_label Boolean = ''bool''"
| "primitive_label Int8 = ''i8''"
| "primitive_label Int16 = ''i16''"
| "primitive_label Int32 = ''i32''"
| "primitive_label Int64 = ''i64''"
| "primitive_label UInt8 = ''u8''"
| "primitive_label UInt16 = ''u16''"
| "primitive_label UInt32 = ''u32''"
| "primitive_label UInt64 = ''u64''"
| "primitive_label Float32 = ''f32''"
| "primitive_label Float64 = ''f64''"
| "primitive_label Utf8 = ''String''"
| "primitive_label _ = ''''"

text \<open>The declaration an Arrow field stands for: validity bits become optional layers.\<close>

function (sequential) shape_of_field :: "arrow_field \<Rightarrow> type_shape"
  and shape_of_type :: "data_type \<Rightarrow> type_shape" where
  "shape_of_field (Field n ty nullable m) =
     (if nullable then Optional (shape_of_type ty) else shape_of_type ty)"
| "shape_of_type (ListOf item) = Sequence (shape_of_field item)"
| "shape_of_type (StructOf fs) =
     Struct (map (\<lambda>f. FieldShape (f_name f) (shape_of_field f) False) fs)"
| "shape_of_type (MapEntries (Field n (StructOf [k, v]) nl m) srt) =
     MapOf (shape_of_field k) (shape_of_field v)"
| "shape_of_type ty = Primitive (primitive_label ty)"
  by pat_completeness auto
termination
  by (relation "measure (\<lambda>x. case x of Inl f \<Rightarrow> size f | Inr t \<Rightarrow> size t)")
    (auto simp: size_list_estimation' less_Suc_eq_le)

definition read_back :: "arrow_schema \<Rightarrow> type_shape" where
  "read_back fs = shape_of_type (StructOf fs)"

text \<open>A shape up to what the mapping is documented to forget: defaults, and \<open>str\<close> for \<open>String\<close>.\<close>

primrec canonical :: "type_shape \<Rightarrow> type_shape" and canonical_field :: "field_shape \<Rightarrow> field_shape" where
  "canonical (Primitive p) = Primitive (if p = ''str'' then ''String'' else p)"
| "canonical (Optional t) = Optional (canonical t)"
| "canonical (Sequence t) = Sequence (canonical t)"
| "canonical (MapOf k v) = MapOf (canonical k) (canonical v)"
| "canonical (Struct fs) = Struct (map canonical_field fs)"
| "canonical_field (FieldShape n s d) = FieldShape n (canonical s) False"

lemma canonical_field_alt:
  "canonical_field f = FieldShape (fs_name f) (canonical (fs_shape f)) False"
  by (cases f) simp

lemma primitive_label_type:
  "primitive_type p = Some ty \<Longrightarrow> shape_of_type ty = canonical (Primitive p)"
  by (auto simp: primitive_type_def split: if_splits)

lemma strip_canonical:
  "strip_optional s = (t, n) \<Longrightarrow> canonical s = (if n then Optional (canonical t) else canonical t)"
  by (cases s) auto

lemma shape_of_field_new:
  "shape_of_field (field_new n ty nl) = (if nl then Optional (shape_of_type ty) else shape_of_type ty)"
  by (simp add: field_new_def)

lemma mapping_read_back:
  shows "map_field name shape path depth = Inr f \<Longrightarrow>
      f_name f = name \<and> shape_of_field f = canonical shape"
    and "map_type s path depth = Inr ty \<Longrightarrow> shape_of_type ty = canonical s"
    and "struct_loop prior fs path depth = Inr ms \<Longrightarrow>
      map (\<lambda>f. FieldShape (f_name f) (shape_of_field f) False) ms = map canonical_field fs"
proof (induction name shape path depth and s path depth and prior fs path depth
    arbitrary: f and ty and ms rule: map_field_map_type_struct_loop.induct)
  case (1 name shape path depth)
  obtain s n where s: "strip_optional shape = (s, n)" by fastforce
  with 1 strip_canonical [OF s] show ?case
    by (auto simp: map_field.simps shape_of_field_new split: sum.splits if_splits)
      (auto simp: field_new_def)
next
  case (3 p path depth)
  then show ?case using primitive_label_type by (auto split: option.splits)
next
  case (6 ky vl path depth)
  then show ?case
    by (auto split: sum.splits if_splits) (auto simp: field_new_def)
next
  case (8 prior f fs path depth)
  then show ?case
    by (auto simp: Let_def canonical_field_alt split: sum.splits if_splits)
qed (auto split: sum.splits)

subsection \<open>What the mapping reads\<close>

lemma strip_erase: "strip_optional (erase_defaults s) = map_prod erase_defaults id (strip_optional s)"
  by (cases s) auto

lemma is_map_key_erase [simp]: "is_map_key (erase_defaults s) = is_map_key s"
  by (cases s) auto

lemma mapping_erase:
  shows "map_field name (erase_defaults shape) path depth = map_field name shape path depth"
    and "map_type (erase_defaults s) path depth = map_type s path depth"
    and "struct_loop (map erase_field prior) (map erase_field fs) path depth =
      struct_loop prior fs path depth"
proof (induction name shape path depth and s path depth and prior fs path depth
    rule: map_field_map_type_struct_loop.induct)
  case (1 name shape path depth)
  obtain s n where s: "strip_optional shape = (s, n)" by fastforce
  with 1 show ?case
    by (simp add: map_field.simps strip_erase)
next
  case (8 prior f fs path depth)
  show ?case
  proof (cases "fs_name f \<in> fs_name ` set prior")
    case False
    with 8 show ?thesis by (simp add: Let_def image_image split: sum.split)
  qed (simp add: Let_def image_image)
qed (simp_all split: sum.split)

subsection \<open>Properties of the mapping\<close>

text \<open>
  The mapping succeeds exactly on root structs whose field names are distinct, whose
  primitives and map keys are supported, which nest no optional directly in an optional,
  and which are at most 128 levels deep; no other shape is refused.
\<close>

theorem schema_succeeds:
  "(\<exists>fs. schema s = Inr fs) \<longleftrightarrow> (\<exists>fs. s = Struct fs) \<and> supported s \<and> height s \<le> 128"
proof (cases s)
  case (Struct fs)
  have "supported s \<longleftrightarrow> distinct (map fs_name fs) \<and> (\<forall>f \<in> set fs. supported (fs_shape f))"
    using Struct by (simp add: supported.simps [of "Struct fs"])
  moreover have "height s \<le> 128 \<longleftrightarrow> (\<forall>f \<in> set fs. height (fs_shape f) \<le> 127)"
    using height_struct_le [of 0 fs] Struct by auto
  ultimately show ?thesis
    using Struct mapping_succeeds(3) [of 0 "[]" fs "''''"] by (auto simp: struct_fields_def)
qed auto

text \<open>
  Nothing but declared defaults and the \<open>str\<close>/\<open>String\<close> distinction is lost: reading
  the schema back gives the declared shape, optional layers and names included.
\<close>

theorem schema_round_trip:
  assumes "schema s = Inr fs"
  shows "read_back fs = canonical s"
  using assms mapping_read_back(3) [of "[]" _ "''''" 0 fs]
  by (cases s) (auto simp: struct_fields_def read_back_def)

lemma schema_round_trip_witness:
  "read_back [field_new ''id'' Int64 False, field_new ''tags'' (ListOf (field_new ''item'' Utf8 True)) False]
   = canonical (Struct [FieldShape ''id'' (Primitive ''i64'') True,
                        FieldShape ''tags'' (Sequence (Optional (Primitive ''str''))) False])"
  by (rule schema_round_trip)
    (simp add: struct_fields_def map_field.simps primitive_type_def)

lemma schema_erase: "schema (erase_defaults s) = schema s"
  by (cases s) (simp_all add: struct_fields_def mapping_erase(3) [of "[]", simplified])

end
