(* ===== verification/ArrowValidation.thy ===== *)
theory ArrowValidation
  imports ArrowMapping
begin

text \<open>
  \<open>crates/contracts/src/arrow/validation.rs\<close>: the validation plan prepared from a schema
  and the check of a record batch against it.  An Arrow array is what the code reads of
  it: its null buffer, its length, and the columns or offsets and values below it.
  Indexing out of bounds is a panic, \<open>None\<close>.
\<close>

subsection \<open>Arrays and batches\<close>

datatype arr = Arr (a_len: nat) (a_nulls: "bool list option") (a_data: arr_data)
and arr_data =
    LeafData
  | StructData "arr list"
  | ListData "32 word list" arr
  | MapData "32 word list" arr

record record_batch =
  rb_schema :: arrow_schema
  rb_columns :: "arr list"
  rb_num_rows :: nat

text \<open>\<open>Array::is_null\<close>: no null buffer means no nulls; a buffer is indexed and panics past its end.\<close>

definition is_null :: "arr \<Rightarrow> nat \<Rightarrow> bool option" where
  "is_null a row = (case a_nulls a of None \<Rightarrow> Some False | Some valid \<Rightarrow> map_option Not (index valid row))"

text \<open>\<open>offsets[row] as usize\<close> for an \<open>i32\<close> offset: sign-extended to 64 bits.\<close>

definition offset_at :: "32 word list \<Rightarrow> nat \<Rightarrow> usize option" where
  "offset_at offsets i = map_option (\<lambda>w. unat (scast w :: 64 word)) (index offsets i)"

datatype validation_error =
    SchemaMismatch arrow_schema arrow_schema
  | RequiredNull string nat
  | Representation string

subsection \<open>The plan\<close>

datatype node = Node (nd_field: arrow_field) (nd_path: string) (nd_children: children)
and children = Leaf | StructNodes "node list" | ListNode node | MapNode node

function node_new :: "arrow_field \<Rightarrow> string \<Rightarrow> node" where
  "node_new field path =
     Node field path
       (case f_type field of
          StructOf fs \<Rightarrow> StructNodes (map (\<lambda>f. node_new f (path @ ''.'' @ f_name f)) fs)
        | ListOf item \<Rightarrow> ListNode (node_new item (path @ ''[]''))
        | MapEntries entries _ \<Rightarrow> MapNode (node_new entries path)
        | _ \<Rightarrow> Leaf)"
  by pat_completeness auto

lemma f_type_size: "size (f_type f) < size f"
  by (cases f) simp

lemma nested_field_size:
  "f_type f = StructOf fs \<Longrightarrow> g \<in> set fs \<Longrightarrow> size g < size f"
  "f_type f = ListOf g \<Longrightarrow> size g < size f"
  "f_type f = MapEntries g s \<Longrightarrow> size g < size f"
  using f_type_size [of f] size_list_estimation' [of g fs "size g" size] by auto

termination node_new
  by (relation "measure (\<lambda>(f, _). size f)") (auto simp: nested_field_size)

declare node_new.simps [simp del]

lemmas node_new_Field = node_new.simps [of "Field n ty nl m" for n ty nl m]

record batch_validator =
  bv_schema :: arrow_schema
  bv_fields :: "node list"

text \<open>\<open>BatchValidator::new::<C>()\<close>, a function of \<open>C::SHAPE\<close>.\<close>

definition batch_validator_new :: "type_shape \<Rightarrow> mapping_error + batch_validator" where
  "batch_validator_new shape =
     (case schema shape of
        Inl e \<Rightarrow> Inl e
      | Inr sch \<Rightarrow> Inr \<lparr>bv_schema = sch, bv_fields = map (\<lambda>f. node_new f (f_name f)) sch\<rparr>)"

subsection \<open>Schema comparison\<close>

fun field_matches :: "arrow_field \<Rightarrow> arrow_field \<Rightarrow> bool"
  and types_match :: "data_type \<Rightarrow> data_type \<Rightarrow> bool"
  and fields_match :: "arrow_field list \<Rightarrow> arrow_field list \<Rightarrow> bool" where
  "field_matches (Field n1 t1 nl1 m1) (Field n2 t2 nl2 m2) \<longleftrightarrow>
     n1 = n2 \<and> nl1 = nl2 \<and> types_match t1 t2"
| "types_match (StructOf a) (StructOf b) \<longleftrightarrow> fields_match a b"
| "types_match (ListOf a) (ListOf b) \<longleftrightarrow> field_matches a b"
| "types_match (MapEntries a sa) (MapEntries b sb) \<longleftrightarrow> sa = sb \<and> field_matches a b"
| "types_match a b \<longleftrightarrow> a = b"
| "fields_match [] [] \<longleftrightarrow> True"
| "fields_match (a # as) (b # bs) \<longleftrightarrow> field_matches a b \<and> fields_match as bs"
| "fields_match _ _ \<longleftrightarrow> False"

subsection \<open>Validation\<close>

text \<open>\<open>Node::validate\<close>.  \<open>each_index\<close> is the loop over the offsets of a list or map row.\<close>

definition each_index ::
  "32 word list \<Rightarrow> nat \<Rightarrow> (nat \<Rightarrow> (validation_error + unit) option) \<Rightarrow> (validation_error + unit) option" where
  "each_index offsets row body =
     (case offset_at offsets row of
        None \<Rightarrow> None
      | Some lo \<Rightarrow> (case offset_at offsets (row + 1) of
          None \<Rightarrow> None
        | Some hi \<Rightarrow> for_each body [lo..<hi]))"

lemma each_index_cong [fundef_cong]:
  assumes "offsets = offsets'" "row = row'" "\<And>i. body i = body' i"
  shows "each_index offsets row body = each_index offsets' row' body'"
proof -
  have "body = body'" using assms(3) by (rule ext)
  with assms(1,2) show ?thesis by simp
qed

lemma zipped_node_size [termination_simp]:
  "(n, c) \<in> set (zip ns cs) \<Longrightarrow> size n \<le> size_list size ns" for n :: node
  by (rule size_list_estimation' [OF set_zip_leftD]) auto

fun node_validate :: "node \<Rightarrow> arr \<Rightarrow> nat \<Rightarrow> (validation_error + unit) option" where
  "node_validate (Node field path children) a row =
     (case is_null a row of
        None \<Rightarrow> None
      | Some True \<Rightarrow> Some (if f_nullable field then Inr () else Inl (RequiredNull path row))
      | Some False \<Rightarrow>
          (case children of
             Leaf \<Rightarrow> Some (Inr ())
           | StructNodes nodes \<Rightarrow>
               (case a_data a of
                  StructData columns \<Rightarrow>
                    for_each (\<lambda>(child, column). node_validate child column row) (zip nodes columns)
                | _ \<Rightarrow> Some (Inl (Representation path)))
           | ListNode item \<Rightarrow>
               (case a_data a of
                  ListData offsets values \<Rightarrow>
                    each_index offsets row (\<lambda>index. node_validate item values index)
                | _ \<Rightarrow> Some (Inl (Representation path)))
           | MapNode entry \<Rightarrow>
               (case a_data a of
                  MapData offsets entries \<Rightarrow>
                    each_index offsets row (\<lambda>index. node_validate entry entries index)
                | _ \<Rightarrow> Some (Inl (Representation path)))))"

definition batch_validate :: "batch_validator \<Rightarrow> record_batch \<Rightarrow> (validation_error + unit) option" where
  "batch_validate self batch =
     (if \<not> fields_match (bv_schema self) (rb_schema batch)
      then Some (Inl (SchemaMismatch (bv_schema self) (rb_schema batch)))
      else for_each
             (\<lambda>(node, a). for_each (\<lambda>row. node_validate node a row) [0..<rb_num_rows batch])
             (zip (bv_fields self) (rb_columns batch)))"

subsection \<open>Standard arrays and the values they hold\<close>

text \<open>
  \<open>array_ok f a\<close>: \<open>a\<close> is laid out as Arrow's specification says for an array of field
  \<open>f\<close>: a null buffer of the array's length, one column of the same length per struct
  field, monotone non-negative 32-bit offsets that stay within the child array.
\<close>

definition offsets_ok :: "32 word list \<Rightarrow> nat \<Rightarrow> nat \<Rightarrow> bool" where
  "offsets_ok offsets n limit \<longleftrightarrow> length offsets = n + 1 \<and>
     (\<forall>i < n + 1. 0 \<le> sint (offsets ! i) \<and> nat (sint (offsets ! i)) \<le> limit)"

abbreviation offset :: "32 word list \<Rightarrow> nat \<Rightarrow> nat" where
  "offset offsets i \<equiv> nat (sint (offsets ! i))"

lemma zipped_field_size [termination_simp]:
  "(f, c) \<in> set (zip fs cs) \<Longrightarrow> size f \<le> size_list size fs" for f :: arrow_field
  by (rule size_list_estimation' [OF set_zip_leftD]) auto

fun array_ok :: "arrow_field \<Rightarrow> arr \<Rightarrow> bool" where
  "array_ok (Field n ty nl m) a \<longleftrightarrow>
     (\<forall>valid. a_nulls a = Some valid \<longrightarrow> length valid = a_len a) \<and>
     (case ty of
        StructOf fs \<Rightarrow>
          (case a_data a of
             StructData columns \<Rightarrow> length columns = length fs \<and>
               (\<forall>(f, c) \<in> set (zip fs columns). array_ok f c \<and> a_len c = a_len a)
           | _ \<Rightarrow> False)
      | ListOf item \<Rightarrow>
          (case a_data a of
             ListData offsets items \<Rightarrow> offsets_ok offsets (a_len a) (a_len items) \<and> array_ok item items
           | _ \<Rightarrow> False)
      | MapEntries entries _ \<Rightarrow>
          (case a_data a of
             MapData offsets items \<Rightarrow> offsets_ok offsets (a_len a) (a_len items) \<and> array_ok entries items
           | _ \<Rightarrow> False)
      | _ \<Rightarrow> True)"

text \<open>The logical value of a row: a null parent masks whatever is below it.\<close>

datatype lvalue = Null | Atom | Fields "lvalue list" | Items "lvalue list"

lemma arr_children_size [termination_simp]:
  "a_data a = StructData cs \<Longrightarrow> c \<in> set cs \<Longrightarrow> size c < size a"
  "a_data a = ListData offs c \<Longrightarrow> size c < size a"
  "a_data a = MapData offs c \<Longrightarrow> size c < size a"
  using size_list_estimation' [of c cs "size c" size] by (cases a; simp)+

fun decode_row :: "arr \<Rightarrow> nat \<Rightarrow> lvalue" where
  "decode_row a row =
     (if (case a_nulls a of None \<Rightarrow> False | Some valid \<Rightarrow> \<not> valid ! row) then Null
      else (case a_data a of
              LeafData \<Rightarrow> Atom
            | StructData columns \<Rightarrow> Fields (map (\<lambda>c. decode_row c row) columns)
            | ListData offsets items \<Rightarrow>
                Items (map (decode_row items) [offset offsets row..<offset offsets (row + 1)])
            | MapData offsets items \<Rightarrow>
                Items (map (decode_row items) [offset offsets row..<offset offsets (row + 1)])))"

declare decode_row.simps [simp del]

text \<open>Every required value that is reachable through non-null parents is present.\<close>

fun required_present :: "arrow_field \<Rightarrow> lvalue \<Rightarrow> bool" where
  "required_present (Field n ty nl m) v \<longleftrightarrow>
     (case v of
        Null \<Rightarrow> nl
      | Atom \<Rightarrow> True
      | Fields vs \<Rightarrow>
          (case ty of StructOf fs \<Rightarrow> (\<forall>(f, w) \<in> set (zip fs vs). required_present f w) | _ \<Rightarrow> True)
      | Items vs \<Rightarrow>
          (case ty of
             ListOf item \<Rightarrow> (\<forall>w \<in> set vs. required_present item w)
           | MapEntries entries _ \<Rightarrow> (\<forall>w \<in> set vs. required_present entries w)
           | _ \<Rightarrow> True))"

text \<open>
  Where a required value is missing: \<open>missing_at f path a row p i\<close> says that below row \<open>row\<close> of
  the array \<open>a\<close> of the field \<open>f\<close>, itself at \<open>path\<close>, every parent being present, the array at
  the path \<open>p\<close> has a null at its row \<open>i\<close> and its field does not admit one.
\<close>

inductive missing_at :: "arrow_field \<Rightarrow> string \<Rightarrow> arr \<Rightarrow> nat \<Rightarrow> string \<Rightarrow> nat \<Rightarrow> bool" where
  here: "decode_row a row = Null \<Longrightarrow> \<not> f_nullable f \<Longrightarrow> missing_at f path a row path row"
| in_struct: "decode_row a row \<noteq> Null \<Longrightarrow> f_type f = StructOf fs \<Longrightarrow> a_data a = StructData columns \<Longrightarrow>
    (g, c) \<in> set (zip fs columns) \<Longrightarrow> missing_at g (path @ ''.'' @ f_name g) c row p i \<Longrightarrow>
    missing_at f path a row p i"
| in_list: "decode_row a row \<noteq> Null \<Longrightarrow> f_type f = ListOf item \<Longrightarrow> a_data a = ListData offsets items \<Longrightarrow>
    k \<in> {offset offsets row..<offset offsets (row + 1)} \<Longrightarrow> missing_at item (path @ ''[]'') items k p i \<Longrightarrow>
    missing_at f path a row p i"
| in_map: "decode_row a row \<noteq> Null \<Longrightarrow> f_type f = MapEntries entries sorted_keys \<Longrightarrow>
    a_data a = MapData offsets items \<Longrightarrow>
    k \<in> {offset offsets row..<offset offsets (row + 1)} \<Longrightarrow> missing_at entries path items k p i \<Longrightarrow>
    missing_at f path a row p i"

lemma offset_at_ok:
  assumes "offsets_ok offsets n limit" and "i \<le> n"
  shows "offset_at offsets i = Some (offset offsets i)" and "offset offsets i \<le> limit"
proof -
  let ?w = "offsets ! i"
  have i: "i < length offsets" and pos: "0 \<le> sint ?w" and le: "offset offsets i \<le> limit"
    using assms by (auto simp: offsets_ok_def)
  have "sint ?w < 2 ^ 31" using sint_lt [of ?w] by simp
  then have "sint ?w < 2 ^ 64" by simp
  with pos have "uint (scast ?w :: 64 word) = sint ?w"
    unfolding scast_eq uint_word_of_int_eq by (intro take_bit_int_eq_self) simp_all
  then have "unat (scast ?w :: 64 word) = offset offsets i"
    by (simp only: unat_eq_nat_uint)
  with i show "offset_at offsets i = Some (offset offsets i)"
    by (simp add: offset_at_def index_def)
  show "offset offsets i \<le> limit" by (rule le)
qed

lemma each_index_total:
  assumes "offsets_ok offsets n limit" and "row < n"
    and "\<And>i. i < limit \<Longrightarrow> i \<in> {offset offsets row..<offset offsets (row + 1)} \<Longrightarrow>
      \<exists>r. body i = Some r \<and> (r = Inr () \<longleftrightarrow> P i) \<and> (\<forall>e. r = Inl e \<longrightarrow> E e)"
  shows "\<exists>r. each_index offsets row body = Some r \<and>
    (r = Inr () \<longleftrightarrow> (\<forall>i \<in> {offset offsets row..<offset offsets (row + 1)}. P i)) \<and>
    (\<forall>e. r = Inl e \<longrightarrow> E e)"
proof -
  have at: "offset_at offsets row = Some (offset offsets row)"
    "offset_at offsets (row + 1) = Some (offset offsets (row + 1))"
    and "offset offsets (row + 1) \<le> limit"
    using offset_at_ok [OF assms(1), of row] offset_at_ok [OF assms(1), of "row + 1"] assms(2)
    by auto
  then have body: "\<And>i. i \<in> set [offset offsets row..<offset offsets (row + 1)] \<Longrightarrow>
      \<exists>r. body i = Some r \<and> (r = Inr () \<longleftrightarrow> P i) \<and> (\<forall>e. r = Inl e \<longrightarrow> E e)"
    using assms(3) by auto
  have "\<exists>r. for_each body [offset offsets row..<offset offsets (row + 1)] = Some r \<and>
      (r = Inr () \<longleftrightarrow> (\<forall>i \<in> set [offset offsets row..<offset offsets (row + 1)]. P i)) \<and>
      (\<forall>e. r = Inl e \<longrightarrow> E e)"
    by (rule for_each_total [OF body])
  then show ?thesis unfolding each_index_def at by simp
qed

lemma for_each_map: "for_each f (map g xs) = for_each (\<lambda>x. f (g x)) xs"
  by (induction xs) (auto split: option.split sum.split)

definition names_missing :: "arrow_field \<Rightarrow> string \<Rightarrow> arr \<Rightarrow> nat \<Rightarrow> validation_error \<Rightarrow> bool" where
  "names_missing f path a row e \<longleftrightarrow> (\<exists>p i. e = RequiredNull p i \<and> missing_at f path a row p i)"

lemma is_null_ok:
  assumes "array_ok f a" and "row < a_len a"
  shows "is_null a row = Some (case a_nulls a of None \<Rightarrow> False | Some valid \<Rightarrow> \<not> valid ! row)"
  using assms by (cases f) (auto simp: is_null_def index_def split: option.split)

lemma node_validate_spec:
  "array_ok f a \<Longrightarrow> row < a_len a \<Longrightarrow>
   \<exists>r. node_validate (node_new f path) a row = Some r \<and>
     (r = Inr () \<longleftrightarrow> required_present f (decode_row a row)) \<and> (\<forall>e. r = Inl e \<longrightarrow> names_missing f path a row e)"
proof (induction f arbitrary: path a row rule: measure_induct_rule [of size])
  case (less f)
  obtain n ty nl m where f: "f = Field n ty nl m" by (cases f)
  note null = is_null_ok [OF less.prems]
  show ?case
  proof (cases "case a_nulls a of None \<Rightarrow> False | Some valid \<Rightarrow> \<not> valid ! row")
    case True
    then have "decode_row a row = Null" by (simp add: decode_row.simps)
    with True show ?thesis
      by (auto simp: node_new.simps null f names_missing_def intro: missing_at.here)
  next
    case False
    then have live: "is_null a row = Some False" using null by (simp only:)
    have dec: "decode_row a row = (case a_data a of
              LeafData \<Rightarrow> Atom
            | StructData columns \<Rightarrow> Fields (map (\<lambda>c. decode_row c row) columns)
            | ListData offsets items \<Rightarrow>
                Items (map (decode_row items) [offset offsets row..<offset offsets (row + 1)])
            | MapData offsets items \<Rightarrow>
                Items (map (decode_row items) [offset offsets row..<offset offsets (row + 1)]))"
      unfolding decode_row.simps [of a row] if_not_P [OF False] ..
    then have present: "decode_row a row \<noteq> Null" by (simp split: arr_data.split)
    show ?thesis
    proof (cases ty)
      case (StructOf fs)
      with less.prems f obtain cs where cs: "a_data a = StructData cs" "length cs = length fs"
        "\<forall>(f, c) \<in> set (zip fs cs). array_ok f c \<and> a_len c = a_len a"
        by (auto split: arr_data.splits)
      let ?new = "\<lambda>f. node_new f (path @ ''.'' @ f_name f)"
      have run: "node_validate (node_new f path) a row =
          for_each (\<lambda>(g, c). node_validate (?new g) c row) (zip fs cs)"
        by (simp add: node_new_Field f StructOf live cs(1) zip_map1 for_each_map
            case_prod_unfold)
      have req: "required_present f (decode_row a row) \<longleftrightarrow>
          (\<forall>x \<in> set (zip fs cs). case x of (g, c) \<Rightarrow> required_present g (decode_row c row))"
        by (simp add: f StructOf dec cs(1) zip_map2 case_prod_beta)
      have "\<exists>r. (case x of (g, c) \<Rightarrow> node_validate (?new g) c row) = Some r \<and>
          (r = Inr () \<longleftrightarrow> (case x of (g, c) \<Rightarrow> required_present g (decode_row c row))) \<and>
          (\<forall>e. r = Inl e \<longrightarrow> names_missing f path a row e)"
        if "x \<in> set (zip fs cs)" for x
      proof -
        obtain g c where x: "x = (g, c)" by (cases x)
        with that have smaller: "size g < size f" using zipped_field_size [of g c fs cs] by (simp add: f StructOf)
        have "names_missing f path a row e" if "names_missing g (path @ ''.'' @ f_name g) c row e" for e
          using that missing_at.in_struct [OF present _ cs(1), of f fs g c path] \<open>x \<in> set (zip fs cs)\<close> x StructOf
          by (auto simp: names_missing_def f)
        with smaller show ?thesis
          using less.IH [of g c row "path @ ''.'' @ f_name g"] cs(3) that less.prems(2) x by fastforce
      qed
      from for_each_total [OF this] show ?thesis unfolding run req .
    next
      case (ListOf item)
      with less.prems f obtain offs vs where vs: "a_data a = ListData offs vs"
        "offsets_ok offs (a_len a) (a_len vs)" "array_ok item vs"
        by (auto split: arr_data.splits)
      have run: "node_validate (node_new f path) a row =
          each_index offs row (node_validate (node_new item (path @ ''[]'')) vs)"
        by (simp add: node_new_Field f ListOf live vs(1))
      have req: "required_present f (decode_row a row) \<longleftrightarrow>
          (\<forall>i \<in> {offset offs row..<offset offs (row + 1)}. required_present item (decode_row vs i))"
        by (simp add: f ListOf dec vs(1))
      have "\<exists>r. node_validate (node_new item (path @ ''[]'')) vs i = Some r \<and>
          (r = Inr () \<longleftrightarrow> required_present item (decode_row vs i)) \<and>
          (\<forall>e. r = Inl e \<longrightarrow> names_missing f path a row e)"
        if i: "i < a_len vs" "i \<in> {offset offs row..<offset offs (row + 1)}" for i
      proof -
        have "names_missing f path a row e" if "names_missing item (path @ ''[]'') vs i e" for e
          using that missing_at.in_list [OF present _ vs(1) i(2), of f item] ListOf
          by (auto simp: names_missing_def f)
        then show ?thesis using less.IH [of item vs i "path @ ''[]''"] vs(3) i(1) by (fastforce simp: f ListOf)
      qed
      from each_index_total [OF vs(2) less.prems(2) this] show ?thesis unfolding run req .
    next
      case (MapEntries item srt)
      with less.prems f obtain offs vs where vs: "a_data a = MapData offs vs"
        "offsets_ok offs (a_len a) (a_len vs)" "array_ok item vs"
        by (auto split: arr_data.splits)
      have run: "node_validate (node_new f path) a row =
          each_index offs row (node_validate (node_new item path) vs)"
        by (simp add: node_new_Field f MapEntries live vs(1))
      have req: "required_present f (decode_row a row) \<longleftrightarrow>
          (\<forall>i \<in> {offset offs row..<offset offs (row + 1)}. required_present item (decode_row vs i))"
        by (simp add: f MapEntries dec vs(1))
      have "\<exists>r. node_validate (node_new item path) vs i = Some r \<and>
          (r = Inr () \<longleftrightarrow> required_present item (decode_row vs i)) \<and>
          (\<forall>e. r = Inl e \<longrightarrow> names_missing f path a row e)"
        if i: "i < a_len vs" "i \<in> {offset offs row..<offset offs (row + 1)}" for i
      proof -
        have "names_missing f path a row e" if "names_missing item path vs i e" for e
          using that missing_at.in_map [OF present _ vs(1) i(2), of f item] MapEntries
          by (auto simp: names_missing_def f)
        then show ?thesis using less.IH [of item vs i "path"] vs(3) i(1) by (fastforce simp: f MapEntries)
      qed
      from each_index_total [OF vs(2) less.prems(2) this] show ?thesis unfolding run req .
    qed (simp_all add: node_new_Field f live dec split: arr_data.split)
  qed
qed

subsection \<open>Schemas up to metadata\<close>

primrec plain_field :: "arrow_field \<Rightarrow> arrow_field" and plain_type :: "data_type \<Rightarrow> data_type" where
  "plain_field (Field n ty nl m) = Field n (plain_type ty) nl []"
| "plain_type Boolean = Boolean"
| "plain_type Int8 = Int8"
| "plain_type Int16 = Int16"
| "plain_type Int32 = Int32"
| "plain_type Int64 = Int64"
| "plain_type UInt8 = UInt8"
| "plain_type UInt16 = UInt16"
| "plain_type UInt32 = UInt32"
| "plain_type UInt64 = UInt64"
| "plain_type Float32 = Float32"
| "plain_type Float64 = Float64"
| "plain_type Utf8 = Utf8"
| "plain_type (Decimal128 p q) = Decimal128 p q"
| "plain_type (Timestamp u z) = Timestamp u z"
| "plain_type (ListOf f) = ListOf (plain_field f)"
| "plain_type (StructOf fs) = StructOf (map plain_field fs)"
| "plain_type (MapEntries f s) = MapEntries (plain_field f) s"
| "plain_type (LargeListOf f) = LargeListOf f"
| "plain_type (OtherType s) = OtherType s"

lemma plain_type_atoms [simp]:
  "Boolean = plain_type b \<longleftrightarrow> b = Boolean"
  "Int8 = plain_type b \<longleftrightarrow> b = Int8"
  "Int16 = plain_type b \<longleftrightarrow> b = Int16"
  "Int32 = plain_type b \<longleftrightarrow> b = Int32"
  "Int64 = plain_type b \<longleftrightarrow> b = Int64"
  "UInt8 = plain_type b \<longleftrightarrow> b = UInt8"
  "UInt16 = plain_type b \<longleftrightarrow> b = UInt16"
  "UInt32 = plain_type b \<longleftrightarrow> b = UInt32"
  "UInt64 = plain_type b \<longleftrightarrow> b = UInt64"
  "Float32 = plain_type b \<longleftrightarrow> b = Float32"
  "Float64 = plain_type b \<longleftrightarrow> b = Float64"
  "Utf8 = plain_type b \<longleftrightarrow> b = Utf8"
  "Decimal128 p q = plain_type b \<longleftrightarrow> b = Decimal128 p q"
  "Timestamp u z = plain_type b \<longleftrightarrow> b = Timestamp u z"
  "LargeListOf f = plain_type b \<longleftrightarrow> b = LargeListOf f"
  "OtherType s = plain_type b \<longleftrightarrow> b = OtherType s"
  by (cases b; auto)+

lemmas plain_type_atoms_sym [simp] = plain_type_atoms [THEN trans [OF eq_commute]]

lemma types_match_plain:
  shows "field_matches f g \<longleftrightarrow> plain_field f = plain_field g"
    and "types_match s t \<longleftrightarrow> plain_type s = plain_type t"
    and "fields_match fs gs \<longleftrightarrow> map plain_field fs = map plain_field gs"
  by (induction f g and s t and fs gs rule: field_matches_types_match_fields_match.induct) auto

text \<open>
  A batch that Arrow's own constructor accepts: one standard array of the batch's length
  per field of its schema.
\<close>

definition batch_ok :: "arrow_schema \<Rightarrow> record_batch \<Rightarrow> bool" where
  "batch_ok sch batch \<longleftrightarrow> length (rb_columns batch) = length sch \<and>
     (\<forall>(f, a) \<in> set (zip sch (rb_columns batch)). array_ok f a \<and> a_len a = rb_num_rows batch)"

text \<open>The error names a missing required value of the batch, by path and row.\<close>

definition batch_misses :: "arrow_schema \<Rightarrow> record_batch \<Rightarrow> validation_error \<Rightarrow> bool" where
  "batch_misses sch batch e \<longleftrightarrow>
     (\<exists>(f, a) \<in> set (zip sch (rb_columns batch)). \<exists>row < rb_num_rows batch. names_missing f (f_name f) a row e)"

lemma validator_columns:
  assumes "batch_ok sch batch"
  shows "\<exists>r. for_each (\<lambda>(node, a). for_each (\<lambda>row. node_validate node a row) [0..<rb_num_rows batch])
             (zip (map (\<lambda>f. node_new f (f_name f)) sch) (rb_columns batch)) = Some r \<and>
    (r = Inr () \<longleftrightarrow> (\<forall>(f, a) \<in> set (zip sch (rb_columns batch)).
       \<forall>row < rb_num_rows batch. required_present f (decode_row a row))) \<and>
    (\<forall>e. r = Inl e \<longrightarrow> batch_misses sch batch e)"
proof -
  let ?rows = "[0..<rb_num_rows batch]"
  let ?P = "\<lambda>(f, a). \<forall>row \<in> set ?rows. required_present f (decode_row a row)"
  have "\<exists>r. (case x of (f, a) \<Rightarrow> for_each (node_validate (node_new f (f_name f)) a) ?rows) = Some r \<and>
      (r = Inr () \<longleftrightarrow> ?P x) \<and> (\<forall>e. r = Inl e \<longrightarrow> batch_misses sch batch e)"
    if x: "x \<in> set (zip sch (rb_columns batch))" for x
  proof -
    obtain f a where fa: "x = (f, a)" by (cases x)
    with assms x have ok: "array_ok f a" "a_len a = rb_num_rows batch"
      by (auto simp: batch_ok_def)
    have "\<exists>r. node_validate (node_new f (f_name f)) a row = Some r \<and>
        (r = Inr () \<longleftrightarrow> required_present f (decode_row a row)) \<and>
        (\<forall>e. r = Inl e \<longrightarrow> batch_misses sch batch e)"
      if "row \<in> set ?rows" for row
    proof -
      have "batch_misses sch batch e" if "names_missing f (f_name f) a row e" for e
        using that x fa \<open>row \<in> set ?rows\<close> by (auto simp: batch_misses_def)
      then show ?thesis
        using node_validate_spec [OF ok(1), of row "f_name f"] ok(2) that by fastforce
    qed
    then have "\<exists>r. for_each (node_validate (node_new f (f_name f)) a) ?rows = Some r \<and>
        (r = Inr () \<longleftrightarrow> (\<forall>row \<in> set ?rows. required_present f (decode_row a row))) \<and>
        (\<forall>e. r = Inl e \<longrightarrow> batch_misses sch batch e)"
      by (rule for_each_total)
    then show ?thesis by (simp add: fa)
  qed
  then have "\<exists>r. for_each (\<lambda>x. case x of (f, a) \<Rightarrow> for_each (node_validate (node_new f (f_name f)) a) ?rows)
        (zip sch (rb_columns batch)) = Some r \<and>
      (r = Inr () \<longleftrightarrow> (\<forall>x \<in> set (zip sch (rb_columns batch)). ?P x)) \<and>
      (\<forall>e. r = Inl e \<longrightarrow> batch_misses sch batch e)"
    by (rule for_each_total)
  then show ?thesis
    by (simp add: zip_map1 for_each_map case_prod_unfold Ball_def)
qed

text \<open>Whether an array is laid out for a field does not depend on metadata.\<close>

lemma array_ok_plain: "array_ok (plain_field f) a \<longleftrightarrow> array_ok f a"
proof (induction f arbitrary: a rule: measure_induct_rule [of size])
  case (less f)
  obtain n ty nl m where f: "f = Field n ty nl m" by (cases f)
  have item: "array_ok (plain_field g) c \<longleftrightarrow> array_ok g c" if "size g < size f" for g c
    using less.IH that by blast
  show ?case
  proof (cases ty)
    case (StructOf fs)
    have "array_ok (plain_field g) c \<longleftrightarrow> array_ok g c" if "(g, c) \<in> set (zip fs cs)" for g c cs
      using item zipped_field_size [OF that] by (simp add: f StructOf)
    then have "(\<forall>x \<in> set (zip fs cs). array_ok (plain_field (fst x)) (snd x) \<and> a_len (snd x) = a_len a) \<longleftrightarrow>
        (\<forall>x \<in> set (zip fs cs). array_ok (fst x) (snd x) \<and> a_len (snd x) = a_len a)" for cs
      by (metis prod.collapse)
    then show ?thesis
      by (simp add: f StructOf zip_map1 case_prod_unfold split: arr_data.split)
  qed (simp_all add: f item split: arr_data.split)
qed

lemma batch_ok_plain:
  assumes "map plain_field sch = map plain_field sch'" and "batch_ok sch batch"
  shows "batch_ok sch' batch"
proof -
  have len: "length sch = length sch'" using assms(1) by (rule map_eq_imp_length_eq)
  have "array_ok (sch' ! i) a \<longleftrightarrow> array_ok (sch ! i) a" if "i < length sch" for i a
    using assms(1) len that array_ok_plain by (metis nth_map)
  with assms(2) len show ?thesis by (fastforce simp: batch_ok_def set_zip)
qed


lemma batch_validate_spec:
  assumes "batch_validator_new shape = Inr v" and "batch_ok (rb_schema batch) batch"
  shows "\<exists>r. batch_validate v batch = Some r \<and>
    (r = Inl (SchemaMismatch (bv_schema v) (rb_schema batch)) \<longleftrightarrow>
       map plain_field (bv_schema v) \<noteq> map plain_field (rb_schema batch)) \<and>
    (r = Inr () \<longleftrightarrow>
       map plain_field (bv_schema v) = map plain_field (rb_schema batch) \<and>
       (\<forall>(f, a) \<in> set (zip (bv_schema v) (rb_columns batch)).
          \<forall>row < rb_num_rows batch. required_present f (decode_row a row))) \<and>
    (\<forall>e. r = Inl e \<longrightarrow> e = SchemaMismatch (bv_schema v) (rb_schema batch) \<or> batch_misses (bv_schema v) batch e)"
proof -
  have fields: "bv_fields v = map (\<lambda>f. node_new f (f_name f)) (bv_schema v)"
    using assms(1) by (auto simp: batch_validator_new_def split: sum.splits)
  show ?thesis
  proof (cases "map plain_field (bv_schema v) = map plain_field (rb_schema batch)")
    case True
    note columns = validator_columns [OF batch_ok_plain [OF True [symmetric] assms(2)]]
    have "batch_validate v batch =
        for_each (\<lambda>(node, a). for_each (\<lambda>row. node_validate node a row) [0..<rb_num_rows batch])
             (zip (map (\<lambda>f. node_new f (f_name f)) (bv_schema v)) (rb_columns batch))"
      by (simp add: batch_validate_def fields types_match_plain True)
    with columns obtain r where r: "batch_validate v batch = Some r"
      "r = Inr () \<longleftrightarrow> (\<forall>(f, a) \<in> set (zip (bv_schema v) (rb_columns batch)).
         \<forall>row < rb_num_rows batch. required_present f (decode_row a row))"
      "\<forall>e. r = Inl e \<longrightarrow> batch_misses (bv_schema v) batch e"
      by (simp only:) blast
    have "\<not> batch_misses (bv_schema v) batch (SchemaMismatch x y)" for x y
      by (auto simp: batch_misses_def names_missing_def)
    with r(3) have "r \<noteq> Inl (SchemaMismatch x y)" for x y by blast
    with r True show ?thesis by (intro exI [of _ r] conjI) simp_all
  next
    case False
    then show ?thesis by (simp add: batch_validate_def types_match_plain)
  qed
qed

text \<open>
  C11. Validation of a batch never panics on standard arrays.  It reports a schema
  mismatch exactly when the schemas differ beyond metadata; otherwise it accepts exactly
  the batches in which every required value below non-null parents is present, at every
  depth of structs, lists and maps, and a rejection names a required value that is missing
  there: the path of its field, and the row of the null in the array at that path, below
  parents that are all present.
\<close>

theorem batch_validation_correct:
  assumes "batch_validator_new shape = Inr v" and "batch_ok (rb_schema batch) batch"
  shows "\<exists>r. batch_validate v batch = Some r \<and>
    (r = Inl (SchemaMismatch (bv_schema v) (rb_schema batch)) \<longleftrightarrow>
       map plain_field (bv_schema v) \<noteq> map plain_field (rb_schema batch)) \<and>
    (r = Inr () \<longleftrightarrow>
       map plain_field (bv_schema v) = map plain_field (rb_schema batch) \<and>
       (\<forall>(f, a) \<in> set (zip (bv_schema v) (rb_columns batch)).
          \<forall>row < rb_num_rows batch. required_present f (decode_row a row))) \<and>
    (\<forall>e. r = Inl e \<longrightarrow> e = SchemaMismatch (bv_schema v) (rb_schema batch) \<or> batch_misses (bv_schema v) batch e)"
  using assms by (rule batch_validate_spec)

lemma batch_validation_correct_witness:
  "\<exists>v. batch_validator_new (Struct [FieldShape ''id'' (Primitive ''i64'') False]) = Inr v \<and>
     batch_validate v \<lparr>rb_schema = [field_new ''id'' Int64 False],
       rb_columns = [Arr 1 (Some [False]) LeafData], rb_num_rows = 1\<rparr> \<noteq> Some (Inr ())"
proof -
  let ?b = "\<lparr>rb_schema = [field_new ''id'' Int64 False],
       rb_columns = [Arr 1 (Some [False]) LeafData], rb_num_rows = 1\<rparr>"
  let ?v = "\<lparr>bv_schema = [field_new ''id'' Int64 False],
      bv_fields = [node_new (field_new ''id'' Int64 False) ''id'']\<rparr>"
  have new: "batch_validator_new (Struct [FieldShape ''id'' (Primitive ''i64'') False]) = Inr ?v"
    by (simp add: batch_validator_new_def struct_fields_def map_field.simps primitive_type_def field_new_def)
  have "batch_ok (rb_schema ?b) ?b" by (simp add: batch_ok_def field_new_def)
  from batch_validation_correct [OF new this] new show ?thesis
    by (auto simp: field_new_def decode_row.simps)
qed

end
