(* ===== verification/ContractPipeline.thy ===== *)
theory ContractPipeline
  imports ContractRender ArrowMapping ArrowValidation
begin

text \<open>
  Streaming composition with declared contracts
  (src/crates/typestate/src/contract_pipeline.rs).

  A phantom type parameter is the shape its \<open>Contract\<close> declares, carried in the pipeline; a
  const evaluation that fails is the \<open>Inl\<close> of its message, a build that stops.  The callbacks
  and the input iterator are parameters that may read and change a world \<open>'s\<close>; \<open>'e\<close> is a
  callback's boxed error.  The driver is a partial function: \<open>None\<close> is a panic or a run that
  does not end, so that a result is always proved.
\<close>

subsection \<open>Errors\<close>

datatype run_stage = SourceFactory | Source | Transform nat | Sink

datatype 'e run_failure =
    Mapping mapping_error
  | Validation validation_error
  | Callback 'e
  | CountOverflow

record 'e pipeline_failure =
  pf_stage :: run_stage
  pf_batch_index :: "nat option"
  pf_failure :: "'e run_failure"

definition error_at :: "run_stage \<Rightarrow> nat option \<Rightarrow> 'e run_failure \<Rightarrow> 'e pipeline_failure" where
  "error_at stage batch_index failure =
     \<lparr>pf_stage = stage, pf_batch_index = batch_index, pf_failure = failure\<rparr>"

datatype 'e failure_cause = MappingCause mapping_error | ValidationCause validation_error | CallbackCause 'e

definition failure_source :: "'e pipeline_failure \<Rightarrow> 'e failure_cause option" where
  "failure_source e =
     (case pf_failure e of
        Mapping m \<Rightarrow> Some (MappingCause m)
      | Validation v \<Rightarrow> Some (ValidationCause v)
      | Callback c \<Rightarrow> Some (CallbackCause c)
      | CountOverflow \<Rightarrow> None)"

text \<open>\<open>Prepare\<close> is \<open>BatchValidator::new::<C>\<close>, a function of the declared shape.\<close>

definition prepare :: "type_shape \<Rightarrow> run_stage \<Rightarrow> 'e pipeline_failure + batch_validator" where
  "prepare shape stage = map_err (\<lambda>e. error_at stage None (Mapping e)) (batch_validator_new shape)"

definition validate_stage ::
    "batch_validator \<Rightarrow> record_batch \<Rightarrow> run_stage \<Rightarrow> nat \<Rightarrow> ('e pipeline_failure + unit) option" where
  "validate_stage validator batch stage i =
     map_option (map_err (\<lambda>e. error_at stage (Some i) (Validation e))) (batch_validate validator batch)"

subsection \<open>Composition\<close>

type_synonym ('s, 'e) batch_transform = "record_batch \<Rightarrow> 's \<Rightarrow> ('e + record_batch) \<times> 's"
type_synonym ('s, 'e) batch_sink = "record_batch \<Rightarrow> 's \<Rightarrow> ('e + unit) \<times> 's"

text \<open>What the source factory opens, and the iterator's \<open>next\<close>.\<close>

type_synonym ('s, 'i, 'e) opener = "'s \<Rightarrow> ('e + 'i) \<times> 's"
type_synonym ('s, 'i, 'e) stepper = "'i \<Rightarrow> 's \<Rightarrow> (('e + record_batch) \<times> 'i) option \<times> 's"

record ('s, 'e) transform_spec =
  ts_callback :: "('s, 'e) batch_transform"
  ts_prepare :: type_shape

record ('s, 'i, 'e) plan =
  pl_source :: "('s, 'i, 'e) opener"
  pl_next :: "('s, 'i, 'e) stepper"
  pl_prepare_source :: type_shape
  pl_transforms :: "('s, 'e) transform_spec list"

record ('s, 'i, 'e) contract_pipeline =
  cp_plan :: "('s, 'i, 'e) plan"
  cp_declaration :: type_shape

definition contract_source ::
    "type_shape \<Rightarrow> ('s, 'i, 'e) opener \<Rightarrow> ('s, 'i, 'e) stepper \<Rightarrow> ('s, 'i, 'e) contract_pipeline" where
  "contract_source c factory step =
     \<lparr>cp_plan = \<lparr>pl_source = factory, pl_next = step, pl_prepare_source = c, pl_transforms = []\<rparr>,
      cp_declaration = c\<rparr>"

text \<open>\<open>contracts::enforce::<P, C, ExactOrdered>()\<close>.\<close>

definition enforce_exact :: "type_shape \<Rightarrow> type_shape \<Rightarrow> string + unit" where
  "enforce_exact p c =
     (case check p c ExactOrdered of Some message \<Rightarrow> Inl message | None \<Rightarrow> Inr ())"

definition contract_transform ::
    "type_shape \<Rightarrow> type_shape \<Rightarrow> ('s, 'e) batch_transform \<Rightarrow> ('s, 'i, 'e) contract_pipeline \<Rightarrow>
     string + ('s, 'i, 'e) contract_pipeline" where
  "contract_transform i out callback p =
     and_then (enforce_exact (cp_declaration p) i) (\<lambda>_.
       Inr \<lparr>cp_plan = (cp_plan p)\<lparr>pl_transforms := pl_transforms (cp_plan p) @
              [\<lparr>ts_callback = callback, ts_prepare = out\<rparr>]\<rparr>,
            cp_declaration = out\<rparr>)"

record ('s, 'i, 'e) contract_sink =
  cs_plan :: "('s, 'i, 'e) plan"
  cs_sink :: "('s, 'e) batch_sink"
  cs_prepare_sink :: type_shape

definition contract_sink_attach ::
    "type_shape \<Rightarrow> ('s, 'e) batch_sink \<Rightarrow> ('s, 'i, 'e) contract_pipeline \<Rightarrow>
     string + ('s, 'i, 'e) contract_sink" where
  "contract_sink_attach i callback p =
     and_then (enforce_exact (cp_declaration p) i) (\<lambda>_.
       Inr \<lparr>cs_plan = cp_plan p, cs_sink = callback, cs_prepare_sink = i\<rparr>)"

subsection \<open>Preflight\<close>

record ('s, 'e) prepared_transform =
  pt_callback :: "('s, 'e) batch_transform"
  pt_validator :: batch_validator

record ('s, 'i, 'e) prepared_pipeline =
  pp_source :: "('s, 'i, 'e) opener"
  pp_next :: "('s, 'i, 'e) stepper"
  pp_source_validator :: batch_validator
  pp_transforms :: "('s, 'e) prepared_transform list"
  pp_sink :: "('s, 'e) batch_sink"

fun prepare_transforms ::
    "nat \<Rightarrow> ('s, 'e) transform_spec list \<Rightarrow> 'e pipeline_failure + ('s, 'e) prepared_transform list" where
  "prepare_transforms i [] = Inr []"
| "prepare_transforms i (t # ts) =
     and_then (prepare (ts_prepare t) (Transform i)) (\<lambda>v.
     and_then (prepare_transforms (i + 1) ts) (\<lambda>rest.
       Inr (\<lparr>pt_callback = ts_callback t, pt_validator = v\<rparr> # rest)))"

definition contract_build ::
    "('s, 'i, 'e) contract_sink \<Rightarrow> 'e pipeline_failure + ('s, 'i, 'e) prepared_pipeline" where
  "contract_build cs =
     and_then (prepare (pl_prepare_source (cs_plan cs)) Source) (\<lambda>source_validator.
     and_then (prepare_transforms 0 (pl_transforms (cs_plan cs))) (\<lambda>transforms.
     and_then (prepare (cs_prepare_sink cs) Sink) (\<lambda>_.
       Inr \<lparr>pp_source = pl_source (cs_plan cs), pp_next = pl_next (cs_plan cs),
            pp_source_validator = source_validator, pp_transforms = transforms,
            pp_sink = cs_sink cs\<rparr>)))"

subsection \<open>Running\<close>

record run_report =
  batches_processed :: nat
  rows_processed :: nat

definition run_report_default :: run_report where
  "run_report_default = \<lparr>batches_processed = 0, rows_processed = 0\<rparr>"

text \<open>The inner loop: each transform, and the validation of what it returns.\<close>

fun apply_transforms ::
    "nat \<Rightarrow> nat \<Rightarrow> ('s, 'e) prepared_transform list \<Rightarrow> record_batch \<Rightarrow> 's \<Rightarrow>
     (('e pipeline_failure + record_batch) \<times> 's) option" where
  "apply_transforms k i [] batch s = Some (Inr batch, s)"
| "apply_transforms k i (t # ts) batch s =
     (case pt_callback t batch s of
        (Inl e, s') \<Rightarrow> Some (Inl (error_at (Transform k) (Some i) (Callback e)), s')
      | (Inr batch', s') \<Rightarrow>
          (case validate_stage (pt_validator t) batch' (Transform k) i of
             None \<Rightarrow> None
           | Some (Inl e) \<Rightarrow> Some (Inl e, s')
           | Some (Inr _) \<Rightarrow> apply_transforms (k + 1) i ts batch' s'))"

definition deliver ::
    "('s, 'e) batch_sink \<Rightarrow> run_report \<Rightarrow> record_batch \<Rightarrow> 's \<Rightarrow>
     ('e pipeline_failure + run_report) \<times> 's" where
  "deliver sink report batch s =
     (let i = batches_processed report in
      case (checked_add (batches_processed report) 1,
            checked_add (rows_processed report) (rb_num_rows batch)) of
        (Some batches, Some rows) \<Rightarrow>
          (case sink batch s of
             (Inl e, s') \<Rightarrow> (Inl (error_at Sink (Some i) (Callback e)), s')
           | (Inr _, s') \<Rightarrow> (Inr \<lparr>batches_processed = batches, rows_processed = rows\<rparr>, s'))
      | _ \<Rightarrow> (Inl (error_at Sink (Some i) CountOverflow), s))"

text \<open>One turn of the outer loop.\<close>

definition run_batch ::
    "('s, 'i, 'e) prepared_pipeline \<Rightarrow> 'e + record_batch \<Rightarrow> run_report \<Rightarrow> 's \<Rightarrow>
     (('e pipeline_failure + run_report) \<times> 's) option" where
  "run_batch p received report s =
     (let i = batches_processed report in
      case received of
        Inl e \<Rightarrow> Some (Inl (error_at Source (Some i) (Callback e)), s)
      | Inr batch \<Rightarrow>
          (case validate_stage (pp_source_validator p) batch Source i of
             None \<Rightarrow> None
           | Some (Inl e) \<Rightarrow> Some (Inl e, s)
           | Some (Inr _) \<Rightarrow>
               (case apply_transforms 0 i (pp_transforms p) batch s of
                  None \<Rightarrow> None
                | Some (Inl e, s') \<Rightarrow> Some (Inl e, s')
                | Some (Inr batch', s') \<Rightarrow> Some (deliver (pp_sink p) report batch' s'))))"

partial_function (option) run_loop ::
    "('s, 'i, 'e) prepared_pipeline \<Rightarrow> 'i \<Rightarrow> run_report \<Rightarrow> 's \<Rightarrow>
     (('e pipeline_failure + run_report) \<times> 's) option" where
  "run_loop p it report s =
     (case pp_next p it s of
        (None, s') \<Rightarrow> Some (Inr report, s')
      | (Some (received, it'), s') \<Rightarrow>
          (case run_batch p received report s' of
             None \<Rightarrow> None
           | Some (Inl e, s'') \<Rightarrow> Some (Inl e, s'')
           | Some (Inr report', s'') \<Rightarrow> run_loop p it' report' s''))"

definition contract_run ::
    "('s, 'i, 'e) prepared_pipeline \<Rightarrow> 's \<Rightarrow> (('e pipeline_failure + run_report) \<times> 's) option" where
  "contract_run p s =
     (case pp_source p s of
        (Inl e, s') \<Rightarrow> Some (Inl (error_at SourceFactory None (Callback e)), s')
      | (Inr input, s') \<Rightarrow> run_loop p input run_report_default s')"

subsection \<open>Queries as transforms\<close>

text \<open>
  \<open>run_via_dataframe\<close> over what it calls of DataFusion: a session whose tables are named, a
  query that yields an output schema and batches, and \<open>concat_batches\<close>.
\<close>

record ('c, 'e) query_engine =
  qe_deregister :: "'c \<Rightarrow> string \<Rightarrow> ('e + unit) \<times> 'c"
  qe_mem_table :: "arrow_schema \<Rightarrow> record_batch list \<Rightarrow> 'e + record_batch list"
  qe_register :: "'c \<Rightarrow> string \<Rightarrow> record_batch list \<Rightarrow> ('e + unit) \<times> 'c"
  qe_runtime :: "'e + unit"
  qe_concat :: "arrow_schema \<Rightarrow> record_batch list \<Rightarrow> 'e + record_batch"

definition run_via_dataframe ::
    "('c, 'e) query_engine \<Rightarrow> ('c \<Rightarrow> ('e + arrow_schema \<times> record_batch list) \<times> 'c) \<Rightarrow>
     record_batch \<Rightarrow> 'c \<Rightarrow> ('e + record_batch) \<times> 'c" where
  "run_via_dataframe q get_df batch c =
     (let sch = rb_schema batch in
      case qe_deregister q c ''batch'' of
        (Inl e, c1) \<Rightarrow> (Inl e, c1)
      | (Inr _, c1) \<Rightarrow>
          (case qe_mem_table q sch [batch] of
             Inl e \<Rightarrow> (Inl e, c1)
           | Inr table \<Rightarrow>
               (case qe_register q c1 ''batch'' table of
                  (Inl e, c2) \<Rightarrow> (Inl e, c2)
                | (Inr _, c2) \<Rightarrow>
                    (case qe_runtime q of
                       Inl e \<Rightarrow> (Inl e, c2)
                     | Inr _ \<Rightarrow>
                         (case get_df c2 of
                            (Inl e, c3) \<Rightarrow> (Inl e, c3)
                          | (Inr (out_schema, batches), c3) \<Rightarrow>
                              (qe_concat q out_schema batches, c3))))))"

text \<open>Both kinds of query stage differ only in how the frame is obtained.\<close>

definition sql_transform ::
    "('c, 'e) query_engine \<Rightarrow> (string \<Rightarrow> 'c \<Rightarrow> ('e + arrow_schema \<times> record_batch list) \<times> 'c) \<Rightarrow>
     type_shape \<Rightarrow> string \<Rightarrow> ('c, 'i, 'e) contract_pipeline \<Rightarrow> string + ('c, 'i, 'e) contract_pipeline" where
  "sql_transform q sql out text p =
     contract_transform (cp_declaration p) out (run_via_dataframe q (sql text)) p"

definition dataframe_transform ::
    "('c, 'e) query_engine \<Rightarrow>
     (string \<Rightarrow> ('f \<Rightarrow> 'e + 'f) \<Rightarrow> 'c \<Rightarrow> ('e + arrow_schema \<times> record_batch list) \<times> 'c) \<Rightarrow>
     type_shape \<Rightarrow> ('f \<Rightarrow> 'e + 'f) \<Rightarrow> ('c, 'i, 'e) contract_pipeline \<Rightarrow>
     string + ('c, 'i, 'e) contract_pipeline" where
  "dataframe_transform q table out build p =
     contract_transform (cp_declaration p) out (run_via_dataframe q (table ''batch'' build)) p"

subsection \<open>What composition guarantees\<close>

lemma enforce_exact_ok: "enforce_exact p c = Inr u \<longleftrightarrow> conforms p c ExactOrdered"
  by (simp add: enforce_exact_def check_def conforms_def Let_def)

lemma conforming_schema: "conforms p c ExactOrdered \<Longrightarrow> schema p = schema c"
  using schema_erase by (metis conforms_ExactOrdered)

lemma conforming_validator:
  "conforms p c ExactOrdered \<Longrightarrow> batch_validator_new p = batch_validator_new c"
  by (simp add: batch_validator_new_def conforming_schema)

text \<open>The pipelines the interface can build.\<close>

inductive composed :: "('s, 'i, 'e) contract_pipeline \<Rightarrow> bool" where
  from_source: "composed (contract_source c factory step)"
| then_transform: "composed p \<Longrightarrow> contract_transform i out f p = Inr p' \<Longrightarrow> composed p'"

text \<open>The declaration of a pipeline is that of its last stage.\<close>

definition last_prepare :: "('s, 'i, 'e) plan \<Rightarrow> type_shape" where
  "last_prepare pl =
     (if pl_transforms pl = [] then pl_prepare_source pl else ts_prepare (last (pl_transforms pl)))"

lemma composed_declaration: "composed p \<Longrightarrow> cp_declaration p = last_prepare (cp_plan p)"
  by (induction rule: composed.induct)
    (auto simp: contract_source_def contract_transform_def last_prepare_def and_then_eq_Inr)

lemma prepare_Inr: "prepare shape stage = Inr v \<longleftrightarrow> batch_validator_new shape = Inr v"
  by (simp add: prepare_def)

lemma prepare_transforms_Inr:
  "prepare_transforms k ts = Inr pts \<longleftrightarrow>
    list_all2 (\<lambda>t p. pt_callback p = ts_callback t \<and>
      batch_validator_new (ts_prepare t) = Inr (pt_validator p)) ts pts"
proof (induction ts arbitrary: k pts)
  case (Cons t ts)
  have "p = \<lparr>pt_callback = pt_callback p, pt_validator = pt_validator p\<rparr>"
    for p :: "('s, 'e) prepared_transform" by simp
  with Cons show ?case
    by (auto simp: and_then_eq_Inr prepare_Inr list_all2_Cons1)
qed auto

lemma list_all2_last: "list_all2 P xs ys \<Longrightarrow> ys \<noteq> [] \<Longrightarrow> P (last xs) (last ys)"
  by (induction rule: list_all2_induct) auto

text \<open>The validator every batch has passed when it reaches the sink.\<close>

definition last_validator :: "('s, 'i, 'e) prepared_pipeline \<Rightarrow> batch_validator" where
  "last_validator p =
     (if pp_transforms p = [] then pp_source_validator p
      else pt_validator (last (pp_transforms p)))"

lemma build_last_validator:
  assumes "composed p" and "contract_sink_attach i sink p = Inr cs" and "contract_build cs = Inr prep"
  shows "batch_validator_new i = Inr (last_validator prep)" and "pp_sink prep = sink"
proof -
  from assms(2) have cs: "cs = \<lparr>cs_plan = cp_plan p, cs_sink = sink, cs_prepare_sink = i\<rparr>"
    and fits: "conforms (cp_declaration p) i ExactOrdered"
    by (auto simp: contract_sink_attach_def and_then_eq_Inr enforce_exact_ok)
  from assms(3) obtain sv pts where sv: "batch_validator_new (pl_prepare_source (cp_plan p)) = Inr sv"
    and pts: "list_all2 (\<lambda>t p. pt_callback p = ts_callback t \<and>
        batch_validator_new (ts_prepare t) = Inr (pt_validator p)) (pl_transforms (cp_plan p)) pts"
    and prep: "pp_source_validator prep = sv" "pp_transforms prep = pts" "pp_sink prep = sink"
    by (auto simp: contract_build_def cs and_then_eq_Inr prepare_Inr prepare_transforms_Inr)
  show "pp_sink prep = sink" by (rule prep(3))
  have "batch_validator_new (last_prepare (cp_plan p)) = Inr (last_validator prep)"
  proof (cases "pts = []")
    case False
    with pts have "pl_transforms (cp_plan p) \<noteq> []" by auto
    with pts False have "batch_validator_new (ts_prepare (last (pl_transforms (cp_plan p)))) =
        Inr (pt_validator (last pts))"
      by (auto dest: list_all2_last)
    with False \<open>pl_transforms (cp_plan p) \<noteq> []\<close> show ?thesis
      by (simp add: last_prepare_def last_validator_def prep)
  qed (use pts sv in \<open>simp add: last_prepare_def last_validator_def prep\<close>)
  with conforming_validator [OF fits] composed_declaration [OF assms(1)]
  show "batch_validator_new i = Inr (last_validator prep)" by simp
qed

lemma validate_stage_Inr:
  "validate_stage v b stage i = Some (Inr u) \<longleftrightarrow> batch_validate v b = Some (Inr ())"
  by (cases "batch_validate v b") (auto simp: validate_stage_def)

lemma validate_stage_Inl:
  "validate_stage v b stage i = Some (Inl e) \<Longrightarrow> pf_batch_index e = Some i"
  by (cases "batch_validate v b"; cases "the (batch_validate v b)")
    (auto simp: validate_stage_def error_at_def)

lemma apply_transforms_valid:
  "apply_transforms k i ts batch s = Some (Inr batch', s') \<Longrightarrow>
   (if ts = [] then batch' = batch
    else batch_validate (pt_validator (last ts)) batch' = Some (Inr ()))"
  by (induction k i ts batch s rule: apply_transforms.induct)
    (auto simp: validate_stage_Inr split: prod.splits sum.splits option.splits if_splits)

lemma apply_transforms_index:
  "apply_transforms k i ts batch s = Some (Inl e, s') \<Longrightarrow> pf_batch_index e = Some i"
  by (induction k i ts batch s rule: apply_transforms.induct)
    (auto simp: error_at_def dest: validate_stage_Inl split: prod.splits sum.splits option.splits)

subsection \<open>A rule for the outer loop\<close>

text \<open>
  \<open>I\<close> holds between batches, for the report so far and the world; \<open>E\<close> holds where the run
  stops with an error.
\<close>

lemma run_loop_rule:
  assumes step: "\<And>it report s n s'. I report s \<Longrightarrow> pp_next p it s = (n, s') \<Longrightarrow> I report s'"
    and error: "\<And>received report s e s'.
      I report s \<Longrightarrow> run_batch p received report s = Some (Inl e, s') \<Longrightarrow> E e s'"
    and batch: "\<And>received report s report' s'.
      I report s \<Longrightarrow> run_batch p received report s = Some (Inr report', s') \<Longrightarrow> I report' s'"
    and ret: "run_loop p it report s = Some (r, s')" and start: "I report s"
  shows "(\<forall>e. r = Inl e \<longrightarrow> E e s') \<and> (\<forall>report'. r = Inr report' \<longrightarrow> I report' s')"
proof -
  have "p' = p \<longrightarrow> I report s \<longrightarrow>
      (\<forall>e. fst y = Inl e \<longrightarrow> E e (snd y)) \<and> (\<forall>report'. fst y = Inr report' \<longrightarrow> I report' (snd y))"
    if "run_loop p' it report s = Some y" for p' it report s y
  proof (rule run_loop.raw_induct [where P = "\<lambda>p' it report s y. p' = p \<longrightarrow> I report s \<longrightarrow>
      (\<forall>e. fst y = Inl e \<longrightarrow> E e (snd y)) \<and> (\<forall>report'. fst y = Inr report' \<longrightarrow> I report' (snd y))",
      OF _ that], intro impI, goal_cases)
    case (1 loop p' it report s y)
    note IH = 1(1) and eq = 1(2) and p' = 1(3) and inv = 1(4)
    obtain n s1 where n: "pp_next p it s = (n, s1)" by (cases "pp_next p it s")
    from step [OF inv n] have inv1: "I report s1" .
    show ?case
    proof (cases n)
      case None
      with eq n p' inv1 show ?thesis by auto
    next
      case (Some ri)
      obtain received it' where ri: "ri = (received, it')" by (cases ri)
      from eq n Some ri p' obtain x where x: "run_batch p received report s1 = Some x"
        by (cases "run_batch p received report s1") auto
      obtain r2 s2 where x': "x = (r2, s2)" by (cases x)
      show ?thesis
      proof (cases r2)
        case (Inl e)
        with eq n Some ri p' x x' have "y = (Inl e, s2)" by auto
        with error [OF inv1, of received e s2] x x' Inl show ?thesis by simp
      next
        case (Inr report')
        with eq n Some ri p' x x' have "loop p it' report' s2 = Some y" by simp
        from IH [OF this] batch [OF inv1, of received report' s2] x x' Inr show ?thesis by simp
      qed
    qed
  qed
  from this [OF ret] start show ?thesis by simp
qed

subsection \<open>A run with a record of its deliveries\<close>

text \<open>
  The same pipeline over a world that also records every call of the sink and whether it
  succeeded; nothing but the sink touches the record.
\<close>

type_synonym deliveries = "(record_batch \<times> bool) list"

definition with_log ::
    "('s, 'i, 'e) prepared_pipeline \<Rightarrow> ('s \<times> deliveries, 'i, 'e) prepared_pipeline" where
  "with_log p =
     \<lparr>pp_source = (\<lambda>(s, l). let (r, s') = pp_source p s in (r, s', l)),
      pp_next = (\<lambda>it (s, l). let (r, s') = pp_next p it s in (r, s', l)),
      pp_source_validator = pp_source_validator p,
      pp_transforms = map (\<lambda>t. \<lparr>pt_callback = (\<lambda>b (s, l). let (r, s') = pt_callback t b s in (r, s', l)),
                               pt_validator = pt_validator t\<rparr>) (pp_transforms p),
      pp_sink = (\<lambda>b (s, l). let (r, s') = pp_sink p b s in (r, s', l @ [(b, r = Inr ())]))\<rparr>"

lemma last_validator_with_log: "last_validator (with_log p) = last_validator p"
  by (simp add: last_validator_def with_log_def last_map)

lemma apply_transforms_log:
  "apply_transforms k i
     (map (\<lambda>t. \<lparr>pt_callback = (\<lambda>b (s, l). let (r, s') = pt_callback t b s in (r, s', l)),
               pt_validator = pt_validator t\<rparr>) ts) batch (s, l) = Some (r, s', l') \<Longrightarrow> l' = l"
  by (induction ts arbitrary: k batch s)
    (auto simp: Let_def split: prod.splits sum.splits option.splits)

text \<open>What the record says when the driver has got as far as \<open>report\<close>.\<close>

definition log_agrees ::
    "batch_validator \<Rightarrow> run_report \<Rightarrow> deliveries \<Rightarrow> bool" where
  "log_agrees v report l \<longleftrightarrow>
     (\<forall>(b, ok) \<in> set l. batch_validate v b = Some (Inr ()) \<and> ok) \<and>
     batches_processed report = length l \<and>
     rows_processed report = sum_list (map (\<lambda>(b, _). rb_num_rows b) l)"

definition log_ends ::
    "batch_validator \<Rightarrow> 'e pipeline_failure \<Rightarrow> deliveries \<Rightarrow> bool" where
  "log_ends v e l \<longleftrightarrow>
     (\<forall>(b, ok) \<in> set l. batch_validate v b = Some (Inr ())) \<and>
     pf_batch_index e = Some (length (filter snd l)) \<and>
     (\<forall>l' b. l = l' @ [(b, False)] \<longrightarrow> pf_stage e = Sink)"

lemma all_delivered: "log_agrees v report l \<Longrightarrow> filter snd l = l"
  by (auto simp: log_agrees_def intro!: filter_True)

lemma log_agrees_ends:
  "log_agrees v report l \<Longrightarrow> pf_batch_index e = Some (batches_processed report) \<Longrightarrow> log_ends v e l"
  using all_delivered [of v report l] by (auto simp: log_agrees_def log_ends_def)

lemma deliver_logged:
  fixes p :: "('s, 'i, 'e) prepared_pipeline" and l l' :: deliveries
    and r :: "'e pipeline_failure + run_report"
  assumes d: "deliver (pp_sink (with_log p)) report batch (s, l) = (r, s', l')"
    and agrees: "log_agrees v report l" and valid: "batch_validate v batch = Some (Inr ())"
  shows "(\<forall>e. r = Inl e \<longrightarrow> log_ends v e l') \<and> (\<forall>report'. r = Inr report' \<longrightarrow> log_agrees v report' l')"
proof (cases "checked_add (batches_processed report) 1 = None \<or>
    checked_add (rows_processed report) (rb_num_rows batch) = None")
  case True
  with d have "r = Inl (error_at Sink (Some (batches_processed report)) CountOverflow)" "l' = l"
    by (auto simp: deliver_def Let_def split: option.splits)
  with agrees show ?thesis by (auto simp: error_at_def intro!: log_agrees_ends)
next
  case False
  then obtain n m where n: "checked_add (batches_processed report) 1 = Some n"
    and m: "checked_add (rows_processed report) (rb_num_rows batch) = Some m" by auto
  then have nm: "n = batches_processed report + 1" "m = rows_processed report + rb_num_rows batch"
    by (simp_all add: checked_add_eq_Some)
  obtain x s2 where x: "pp_sink p batch s = (x, s2)" by (cases "pp_sink p batch s")
  have count: "batches_processed report = length l" using agrees by (simp add: log_agrees_def)
  show ?thesis
  proof (cases x)
    case (Inl e)
    with d n m x have r: "r = Inl (error_at Sink (Some (batches_processed report)) (Callback e))"
      and l': "l' = l @ [(batch, False)]"
      by (auto simp: deliver_def Let_def with_log_def)
    have "\<forall>(b, ok) \<in> set l'. batch_validate v b = Some (Inr ())"
      using agrees valid by (auto simp: l' log_agrees_def)
    then have "log_ends v (error_at Sink (Some (batches_processed report)) (Callback e)) l'"
      using all_delivered [OF agrees] count by (simp add: log_ends_def l' error_at_def)
    with r show ?thesis by simp
  next
    case (Inr u)
    with d n m x have r: "r = Inr \<lparr>batches_processed = n, rows_processed = m\<rparr>"
      and l': "l' = l @ [(batch, True)]"
      by (auto simp: deliver_def Let_def with_log_def)
    have "log_agrees v \<lparr>batches_processed = n, rows_processed = m\<rparr> l'"
      using agrees valid by (simp add: log_agrees_def l' nm)
    with r show ?thesis by simp
  qed
qed

lemma run_batch_logged:
  fixes p :: "('s, 'i, 'e) prepared_pipeline" and l l' :: deliveries
    and r :: "'e pipeline_failure + run_report"
  assumes "run_batch (with_log p) received report (s, l) = Some (r, s', l')"
    and "log_agrees (last_validator p) report l"
  shows "(\<forall>e. r = Inl e \<longrightarrow> log_ends (last_validator p) e l') \<and>
    (\<forall>report'. r = Inr report' \<longrightarrow> log_agrees (last_validator p) report' l')"
proof (cases received)
  case (Inl x)
  then show ?thesis using assms
    by (auto simp: run_batch_def Let_def error_at_def intro!: log_agrees_ends)
next
  case (Inr batch)
  let ?i = "batches_processed report"
  note run = assms(1) [unfolded run_batch_def Let_def Inr sum.case]
  from run obtain c :: "'e pipeline_failure + unit" where c: "validate_stage (pp_source_validator (with_log p)) batch Source ?i = Some c"
    by (auto split: option.splits)
  show ?thesis
  proof (cases c)
    case (Inl e)
    with c run have "r = Inl e" "l' = l" by auto
    with c Inl assms(2) show ?thesis by (auto dest!: validate_stage_Inl intro: log_agrees_ends)
  next
    case (Inr u)
    with c have source: "batch_validate (pp_source_validator p) batch = Some (Inr ())"
      by (simp add: validate_stage_Inr with_log_def)
    from c Inr run obtain r1 s1 l1
      where t: "apply_transforms 0 ?i (pp_transforms (with_log p)) batch (s, l) = Some (r1, s1, l1)"
      by (auto split: option.splits)
    from apply_transforms_log [of 0 ?i "pp_transforms p" batch s l r1 s1 l1] t have l1: "l1 = l"
      by (simp add: with_log_def)
    show ?thesis
    proof (cases r1)
      case (Inl e)
      with c \<open>c = Inr u\<close> run t l1 have "r = Inl e" "l' = l" by auto
      with t Inl assms(2) show ?thesis by (auto dest!: apply_transforms_index intro: log_agrees_ends)
    next
      case r1: (Inr batch')
      have valid: "batch_validate (last_validator p) batch' = Some (Inr ())"
        using apply_transforms_valid [OF t [unfolded r1]] source
        by (auto simp: last_validator_def with_log_def last_map split: if_splits)
      from c \<open>c = Inr u\<close> run t r1 l1
      have d: "deliver (pp_sink (with_log p)) report batch' (s1, l) = (r, s', l')" by simp
      from deliver_logged [OF d assms(2) valid] show ?thesis .
    qed
  qed
qed

lemma run_loop_logged:
  assumes "run_loop (with_log p) it report (s, l) = Some (r, s', l')"
    and "log_agrees (last_validator p) report l"
  shows "(\<forall>e. r = Inl e \<longrightarrow> log_ends (last_validator p) e l') \<and>
    (\<forall>report'. r = Inr report' \<longrightarrow> log_agrees (last_validator p) report' l')"
proof -
  have "(\<forall>e. r = Inl e \<longrightarrow> log_ends (last_validator p) e (snd (s', l'))) \<and>
    (\<forall>report'. r = Inr report' \<longrightarrow> log_agrees (last_validator p) report' (snd (s', l')))"
  proof (rule run_loop_rule [where I = "\<lambda>report w. log_agrees (last_validator p) report (snd w)"
        and E = "\<lambda>e w. log_ends (last_validator p) e (snd w)", OF _ _ _ assms(1)])
    fix it report w n w'
    assume "log_agrees (last_validator p) report (snd w)" and "pp_next (with_log p) it w = (n, w')"
    then show "log_agrees (last_validator p) report (snd w')"
      by (cases w) (auto simp: with_log_def split: prod.splits)
  next
    fix received report w e w'
    assume "log_agrees (last_validator p) report (snd w)"
      and "run_batch (with_log p) received report w = Some (Inl e, w')"
    then show "log_ends (last_validator p) e (snd w')"
      using run_batch_logged [of p received report "fst w" "snd w" "Inl e" "fst w'" "snd w'"] by simp
  next
    fix received report w report' w'
    assume "log_agrees (last_validator p) report (snd w)"
      and "run_batch (with_log p) received report w = Some (Inr report', w')"
    then show "log_agrees (last_validator p) report' (snd w')"
      using run_batch_logged [of p received report "fst w" "snd w" "Inr report'" "fst w'" "snd w'"]
      by simp
  qed (simp add: assms(2))
  then show ?thesis by simp
qed

subsection \<open>Properties\<close>

text \<open>
  C34. The pipelines the interface builds are those whose every stage connects: the shape a
  pipeline declares is the one its last stage is validated against, and a further transform
  or a sink attaches exactly when that shape is the required one up to defaults.
\<close>

theorem composition_typed:
  assumes "composed p"
  shows "cp_declaration p = last_prepare (cp_plan p) \<and>
    ((\<exists>p'. contract_transform i out f p = Inr p') \<longleftrightarrow>
      erase_defaults (last_prepare (cp_plan p)) = erase_defaults i) \<and>
    ((\<exists>cs. contract_sink_attach i sink p = Inr cs) \<longleftrightarrow>
      erase_defaults (last_prepare (cp_plan p)) = erase_defaults i) \<and>
    (\<forall>p'. contract_transform i out f p = Inr p' \<longrightarrow> composed p')"
proof -
  have attach: "(\<exists>u. enforce_exact (cp_declaration p) i = Inr u) \<longleftrightarrow>
      erase_defaults (cp_declaration p) = erase_defaults i"
    by (simp add: enforce_exact_ok conforms_ExactOrdered)
  show ?thesis
    using attach composed_declaration [OF assms] composed.then_transform [OF assms]
    by (auto simp: contract_transform_def contract_sink_attach_def and_then_eq_Inr)
qed

lemma composition_typed_witness:
  "\<exists>p'. contract_transform (Struct [FieldShape ''id'' (Primitive ''i64'') True]) (Struct [])
      (\<lambda>b s. (Inr b, s :: unit))
      (contract_source (Struct [FieldShape ''id'' (Primitive ''i64'') False]) (\<lambda>s. (Inr (), s))
        (\<lambda>it s. (None :: ((unit + record_batch) \<times> unit) option, s))) = Inr p'"
  using composition_typed [OF composed.from_source [of "Struct [FieldShape ''id'' (Primitive ''i64'') False]"
      "\<lambda>s. (Inr (), s)" "\<lambda>it s. (None :: ((unit + record_batch) \<times> unit) option, s :: unit)"],
      of "Struct [FieldShape ''id'' (Primitive ''i64'') True]" "Struct []" "\<lambda>b s. (Inr b, s)"]
  by (simp add: last_prepare_def contract_source_def)

text \<open>Whether a declaration has a physical representation.\<close>

definition mappable :: "type_shape \<Rightarrow> bool" where
  "mappable shape \<longleftrightarrow> (\<exists>v. batch_validator_new shape = Inr v)"

lemma prepare_Inl:
  "prepare shape stage = Inl e \<longleftrightarrow>
    (\<exists>m. batch_validator_new shape = Inl m \<and> e = error_at stage None (Mapping m))"
  by (cases "batch_validator_new shape") (auto simp: prepare_def)

lemma prepare_transforms_Inl:
  "prepare_transforms k ts = Inl e \<Longrightarrow>
    \<exists>n m. n < length ts \<and> (\<forall>j < n. mappable (ts_prepare (ts ! j))) \<and>
      batch_validator_new (ts_prepare (ts ! n)) = Inl m \<and>
      e = error_at (Transform (k + n)) None (Mapping m)"
proof (induction ts arbitrary: k)
  case (Cons t ts)
  show ?case
  proof (cases "batch_validator_new (ts_prepare t)")
    case (Inl m)
    with Cons.prems show ?thesis
      by (intro exI [of _ 0] exI [of _ m]) (simp add: prepare_def)
  next
    case (Inr v)
    with Cons.prems have "prepare_transforms (k + 1) ts = Inl e"
      by (auto simp: and_then_eq_Inl prepare_def)
    from Cons.IH [OF this] obtain n m where n: "n < length ts"
      "\<forall>j < n. mappable (ts_prepare (ts ! j))" "batch_validator_new (ts_prepare (ts ! n)) = Inl m"
      "e = error_at (Transform (k + 1 + n)) None (Mapping m)" by blast
    have "\<forall>j < Suc n. mappable (ts_prepare ((t # ts) ! j))"
      using n(2) Inr by (auto simp: mappable_def less_Suc_eq_0_disj)
    with n show ?thesis
      by (intro exI [of _ "Suc n"] exI [of _ m]) auto
  qed
qed simp

lemma prepare_transforms_ok:
  "(\<exists>pts. prepare_transforms 0 ts = Inr pts) \<longleftrightarrow> list_all mappable (map ts_prepare ts)"
proof (cases "prepare_transforms 0 ts")
  case (Inl e)
  from prepare_transforms_Inl [OF this] show ?thesis
    using Inl by (auto simp: list_all_length mappable_def)
next
  case (Inr pts)
  then show ?thesis
    by (auto simp: prepare_transforms_Inr mappable_def list_all_length list_all2_conv_all_nth)
qed

text \<open>The shapes a build maps, in order, and the stage each belongs to.\<close>

definition declared_shapes :: "('s, 'i, 'e) contract_sink \<Rightarrow> type_shape list" where
  "declared_shapes cs = pl_prepare_source (cs_plan cs) #
     map ts_prepare (pl_transforms (cs_plan cs)) @ [cs_prepare_sink cs]"

definition stage_at :: "('s, 'i, 'e) contract_sink \<Rightarrow> nat \<Rightarrow> run_stage" where
  "stage_at cs n =
     (if n = 0 then Source
      else if n \<le> length (pl_transforms (cs_plan cs)) then Transform (n - 1) else Sink)"

text \<open>The first shape without a representation, and the error it gives.\<close>

definition first_unmappable :: "('s, 'i, 'e) contract_sink \<Rightarrow> nat \<Rightarrow> mapping_error \<Rightarrow> bool" where
  "first_unmappable cs n m \<longleftrightarrow> n < length (declared_shapes cs) \<and>
     list_all mappable (take n (declared_shapes cs)) \<and>
     batch_validator_new (declared_shapes cs ! n) = Inl m"

lemma first_unmappable_unique:
  assumes "first_unmappable cs n m" and "first_unmappable cs n' m'"
  shows "n = n' \<and> m = m'"
proof -
  have "\<not> k < l" if "first_unmappable cs k i" "first_unmappable cs l j" for k l i j
    using that by (auto simp: first_unmappable_def list_all_length mappable_def)
  with assms have "n = n'" by (metis linorder_neqE_nat)
  with assms show ?thesis by (simp add: first_unmappable_def)
qed

lemma build_ok: "(\<exists>prep. contract_build cs = Inr prep) \<longleftrightarrow> list_all mappable (declared_shapes cs)"
  using prepare_transforms_ok [of "pl_transforms (cs_plan cs)"]
  by (auto simp: contract_build_def and_then_eq_Inr prepare_Inr declared_shapes_def mappable_def)

lemma build_error:
  assumes "contract_build cs = Inl e"
  shows "\<exists>n m. first_unmappable cs n m \<and> e = error_at (stage_at cs n) None (Mapping m)"
proof -
  let ?ts = "pl_transforms (cs_plan cs)"
  from assms consider (source) "prepare (pl_prepare_source (cs_plan cs)) Source = Inl e"
    | (steps) v where "batch_validator_new (pl_prepare_source (cs_plan cs)) = Inr v"
        "prepare_transforms 0 ?ts = Inl e"
    | (sink) v pts where "batch_validator_new (pl_prepare_source (cs_plan cs)) = Inr v"
        "prepare_transforms 0 ?ts = Inr pts" "prepare (cs_prepare_sink cs) Sink = Inl e"
    by (auto simp: contract_build_def and_then_eq_Inl prepare_Inr)
  then show ?thesis
  proof cases
    case source
    then show ?thesis
      by (auto simp: prepare_Inl first_unmappable_def declared_shapes_def stage_at_def
          intro!: exI [of _ 0])
  next
    case (steps v)
    from prepare_transforms_Inl [OF steps(2)] obtain n m where n: "n < length ?ts"
      "\<forall>j < n. mappable (ts_prepare (?ts ! j))" "batch_validator_new (ts_prepare (?ts ! n)) = Inl m"
      "e = error_at (Transform n) None (Mapping m)" by auto
    then have "list_all mappable (take n (map ts_prepare ?ts))"
      by (auto simp: list_all_length)
    with n steps(1) show ?thesis
      by (intro exI [of _ "Suc n"] exI [of _ m])
        (auto simp: first_unmappable_def declared_shapes_def stage_at_def mappable_def nth_append)
  next
    case (sink v pts)
    then have "list_all mappable (map ts_prepare ?ts)" using prepare_transforms_ok by blast
    with sink show ?thesis
      by (auto simp: prepare_Inl first_unmappable_def declared_shapes_def stage_at_def mappable_def
          nth_append intro!: exI [of _ "Suc (length ?ts)"])
  qed
qed

text \<open>
  C33. Preflight: a pipeline with a sink builds exactly when every declared shape, the
  source's, each transform's and the sink's, has a physical representation; otherwise the
  error carries no batch index and names the first stage that has none. Nothing is opened
  or called.
\<close>

theorem contract_build_preflight:
  "((\<exists>prep. contract_build cs = Inr prep) \<longleftrightarrow> list_all mappable (declared_shapes cs)) \<and>
   (contract_build cs = Inl e \<longleftrightarrow>
     (\<exists>n m. first_unmappable cs n m \<and> e = error_at (stage_at cs n) None (Mapping m)))"
proof (intro conjI iffI)
  assume "\<exists>n m. first_unmappable cs n m \<and> e = error_at (stage_at cs n) None (Mapping m)"
  then obtain n m where n: "first_unmappable cs n m" "e = error_at (stage_at cs n) None (Mapping m)"
    by blast
  then have "\<not> list_all mappable (declared_shapes cs)"
    by (auto simp: first_unmappable_def mappable_def list_all_length)
  then obtain e' where e': "contract_build cs = Inl e'"
    using build_ok [of cs] by (cases "contract_build cs") auto
  from build_error [OF this] n first_unmappable_unique have "e' = e" by metis
  with e' show "contract_build cs = Inl e" by simp
qed (use build_ok [of cs] build_error [of cs e] in auto)

lemma contract_run_log:
  assumes "composed p" and "contract_sink_attach i sink p = Inr cs"
    and "contract_build cs = Inr prep"
    and "contract_run (with_log prep) (s, []) = Some (r, s', l)"
  shows "\<exists>v. batch_validator_new i = Inr v \<and>
    (\<forall>(b, ok) \<in> set l. batch_validate v b = Some (Inr ())) \<and>
    (case r of
       Inr report \<Rightarrow> (\<forall>(b, ok) \<in> set l. ok) \<and> batches_processed report = length l \<and>
         rows_processed report = sum_list (map (\<lambda>(b, _). rb_num_rows b) l)
     | Inl e \<Rightarrow> (pf_stage e = SourceFactory \<and> pf_batch_index e = None \<and> l = []) \<or>
         pf_batch_index e = Some (length (filter snd l)))"
proof -
  have v: "batch_validator_new i = Inr (last_validator prep)"
    by (rule build_last_validator [OF assms(1-3)])
  obtain o1 s1 where o1: "pp_source prep s = (o1, s1)" by (cases "pp_source prep s")
  show ?thesis
  proof (cases o1)
    case (Inl e)
    with assms(4) o1 v show ?thesis
      by (auto simp: contract_run_def with_log_def error_at_def)
  next
    case (Inr input)
    with assms(4) o1 have run: "run_loop (with_log prep) input run_report_default (s1, []) =
        Some (r, s', l)"
      by (simp add: contract_run_def with_log_def)
    have "log_agrees (last_validator prep) run_report_default []"
      by (simp add: log_agrees_def run_report_default_def)
    from run_loop_logged [OF run this] v show ?thesis
      by (cases r) (auto simp: log_agrees_def log_ends_def)
  qed
qed

text \<open>
  C28. Whatever the callbacks do, every batch a sink is handed satisfies the contract the sink
  was attached with, by that contract's own validator, though the driver runs it only for
  the stage before; a successful report counts exactly the sink's calls and their rows; and
  an error during the run carries the number of deliveries that succeeded, which is the
  index of the batch it interrupted.
\<close>

theorem contract_run_truthful:
  assumes "composed p" and "contract_sink_attach i sink p = Inr cs"
    and "contract_build cs = Inr prep"
    and "contract_run (with_log prep) (s, []) = Some (r, s', l)"
  shows "\<exists>v. batch_validator_new i = Inr v \<and>
    (\<forall>(b, ok) \<in> set l. batch_validate v b = Some (Inr ())) \<and>
    (case r of
       Inr report \<Rightarrow> (\<forall>(b, ok) \<in> set l. ok) \<and> batches_processed report = length l \<and>
         rows_processed report = sum_list (map (\<lambda>(b, _). rb_num_rows b) l)
     | Inl e \<Rightarrow> (pf_stage e = SourceFactory \<and> pf_batch_index e = None \<and> l = []) \<or>
         pf_batch_index e = Some (length (filter snd l)))"
  by (rule contract_run_log [OF assms])

subsection \<open>A run ends\<close>

text \<open>
  What the environment owes: batches with the row counts, validity bitmaps and offsets that
  Arrow's constructors guarantee, and an input whose remaining length, \<open>left\<close>, every
  \<open>next\<close> decreases and no callback increases.
\<close>

definition arrow_batch :: "record_batch \<Rightarrow> bool" where
  "arrow_batch b \<longleftrightarrow> batch_ok (rb_schema b) b"

definition ending_input :: "('i \<Rightarrow> 's \<Rightarrow> nat) \<Rightarrow> ('s, 'i, 'e) stepper \<Rightarrow> bool" where
  "ending_input left step \<longleftrightarrow>
     (\<forall>it s received it' s'. step it s = (Some (received, it'), s') \<longrightarrow>
        left it' s' < left it s \<and> (\<forall>b. received = Inr b \<longrightarrow> arrow_batch b))"

definition arrow_transform :: "('i \<Rightarrow> 's \<Rightarrow> nat) \<Rightarrow> ('s, 'e) batch_transform \<Rightarrow> bool" where
  "arrow_transform left f \<longleftrightarrow>
     (\<forall>b s r s'. f b s = (r, s') \<longrightarrow>
        (\<forall>it. left it s' \<le> left it s) \<and> (\<forall>b'. r = Inr b' \<longrightarrow> arrow_batch b'))"

definition quiet_sink :: "('i \<Rightarrow> 's \<Rightarrow> nat) \<Rightarrow> ('s, 'e) batch_sink \<Rightarrow> bool" where
  "quiet_sink left f \<longleftrightarrow> (\<forall>b s r s'. f b s = (r, s') \<longrightarrow> (\<forall>it. left it s' \<le> left it s))"

lemma batch_validate_total:
  assumes "batch_validator_new shape = Inr v" and "arrow_batch b"
  shows "\<exists>r. validate_stage v b stage i = Some r"
  using batch_validate_spec [OF assms(1)] assms(2)
  by (auto simp: validate_stage_def arrow_batch_def)

lemma apply_transforms_total:
  fixes ts :: "('s, 'e) prepared_transform list" and left :: "'i \<Rightarrow> 's \<Rightarrow> nat"
  assumes "\<forall>t \<in> set ts. arrow_transform left (pt_callback t) \<and>
      (\<exists>shape. batch_validator_new shape = Inr (pt_validator t))"
  shows "\<exists>r s'. apply_transforms k i ts batch s = Some (r, s') \<and> (\<forall>it. left it s' \<le> left it s)"
  using assms
proof (induction ts arbitrary: k batch s)
  case (Cons t ts)
  obtain x s1 where x: "pt_callback t batch s = (x, s1)" by (cases "pt_callback t batch s")
  with Cons.prems have le: "\<forall>it. left it s1 \<le> left it s"
    and ok: "\<And>b. x = Inr b \<Longrightarrow> arrow_batch b" by (auto simp: arrow_transform_def)
  show ?case
  proof (cases x)
    case (Inr b)
    from Cons.prems ok [OF Inr] obtain c :: "'e pipeline_failure + unit" where c:
      "validate_stage (pt_validator t) b (Transform k) i = Some c"
      using batch_validate_total by fastforce
    show ?thesis
    proof (cases c)
      case (Inr u)
      from Cons.IH [of "k + 1" b s1] Cons.prems obtain r s2 where
        "apply_transforms (k + 1) i ts b s1 = Some (r, s2)" "\<forall>it. left it s2 \<le> left it s1" by auto
      with x c Inr \<open>x = Inr b\<close> le show ?thesis by (auto intro: order_trans)
    qed (use x c \<open>x = Inr b\<close> le in simp)
  qed (use x le in simp)
qed simp

lemma run_batch_total:
  fixes p :: "('s, 'i, 'e) prepared_pipeline" and left :: "'i \<Rightarrow> 's \<Rightarrow> nat"
  assumes "batch_validator_new shape = Inr (pp_source_validator p)"
    and "\<forall>t \<in> set (pp_transforms p). arrow_transform left (pt_callback t) \<and>
      (\<exists>shape. batch_validator_new shape = Inr (pt_validator t))"
    and "quiet_sink left (pp_sink p)" and "\<forall>b. received = Inr b \<longrightarrow> arrow_batch b"
  shows "\<exists>r s'. run_batch p received report s = Some (r, s') \<and> (\<forall>it. left it s' \<le> left it s)"
proof (cases received)
  case (Inr b)
  let ?i = "batches_processed report"
  obtain c :: "'e pipeline_failure + unit"
    where c: "validate_stage (pp_source_validator p) b Source ?i = Some c"
    using batch_validate_total [OF assms(1)] assms(4) Inr by blast
  obtain r1 s1 where t: "apply_transforms 0 ?i (pp_transforms p) b s = Some (r1, s1)"
    "\<forall>it. left it s1 \<le> left it s"
    using apply_transforms_total [OF assms(2)] by blast
  show ?thesis
  proof (cases c)
    case (Inr u)
    show ?thesis
    proof (cases r1)
      case (Inr b')
      obtain r s2 where r: "deliver (pp_sink p) report b' s1 = (r, s2)"
        by (cases "deliver (pp_sink p) report b' s1")
      with assms(3) have "\<forall>it. left it s2 \<le> left it s1"
        by (auto simp: deliver_def Let_def quiet_sink_def split: option.splits prod.splits sum.splits)
      with t(2) have "\<forall>it. left it s2 \<le> left it s" by (auto intro: order_trans)
      with c t Inr r \<open>c = Inr u\<close> \<open>received = Inr b\<close> show ?thesis
        by (simp add: run_batch_def Let_def)
    qed (use c t Inr \<open>received = Inr b\<close> in \<open>simp add: run_batch_def Let_def\<close>)
  qed (use c \<open>received = Inr b\<close> in \<open>simp add: run_batch_def Let_def\<close>)
qed (simp add: run_batch_def Let_def)

text \<open>
  C29. A run always returns: over an input that ends, with callbacks that return Arrow
  batches and do not prolong the input, the driver of a pipeline that was built gives a report
  or an error, never a panic and never an endless loop.
\<close>

theorem contract_run_ends:
  fixes left :: "'i \<Rightarrow> 's \<Rightarrow> nat" and prep :: "('s, 'i, 'e) prepared_pipeline"
  assumes "contract_build cs = Inr prep"
    and "ending_input left (pl_next (cs_plan cs))"
    and "\<forall>t \<in> set (pl_transforms (cs_plan cs)). arrow_transform left (ts_callback t)"
    and "quiet_sink left (cs_sink cs)"
  shows "\<exists>r s'. contract_run prep s = Some (r, s')"
proof -
  from assms(1) obtain sv pts where sv: "batch_validator_new (pl_prepare_source (cs_plan cs)) = Inr sv"
    and pts: "list_all2 (\<lambda>t p. pt_callback p = ts_callback t \<and>
        batch_validator_new (ts_prepare t) = Inr (pt_validator p)) (pl_transforms (cs_plan cs)) pts"
    and prep: "pp_source_validator prep = sv" "pp_transforms prep = pts" "pp_sink prep = cs_sink cs"
      "pp_next prep = pl_next (cs_plan cs)"
    by (auto simp: contract_build_def and_then_eq_Inr prepare_Inr prepare_transforms_Inr)
  have ts: "\<forall>t \<in> set pts. arrow_transform left (pt_callback t) \<and>
      (\<exists>shape. batch_validator_new shape = Inr (pt_validator t))"
    using pts assms(3) by (induction rule: list_all2_induct) auto
  note one = run_batch_total [of _ prep left, unfolded prep, OF sv ts assms(4)]
  have "\<exists>r s'. run_loop prep it report s = Some (r, s')" for it report s
  proof (induction "left it s" arbitrary: it report s rule: less_induct)
    case less
    obtain n s1 where n: "pl_next (cs_plan cs) it s = (n, s1)" by (cases "pl_next (cs_plan cs) it s")
    show ?case
    proof (cases n)
      case None
      with n show ?thesis by (subst run_loop.simps) (simp add: prep)
    next
      case (Some x)
      obtain received it' where x: "x = (received, it')" by (cases x)
      with assms(2) n Some have lt: "left it' s1 < left it s"
        and ok: "\<forall>b. received = Inr b \<longrightarrow> arrow_batch b" by (auto simp: ending_input_def)
      from one [OF ok, of report s1] obtain r s2 where r: "run_batch prep received report s1 = Some (r, s2)"
        "left it' s2 \<le> left it' s1" by blast
      show ?thesis
      proof (cases r)
        case (Inl e)
        with n Some x r show ?thesis by (subst run_loop.simps) (simp add: prep)
      next
        case (Inr report')
        from less.hyps [of it' s2 report'] lt r(2) obtain r' s' where
          "run_loop prep it' report' s2 = Some (r', s')" by auto
        with n Some x r Inr show ?thesis by (subst run_loop.simps) (simp add: prep)
      qed
    qed
  qed
  then show ?thesis by (auto simp: contract_run_def split: prod.split sum.split)
qed

subsection \<open>A pipeline of one batch\<close>

definition sample_shape :: type_shape where
  "sample_shape = Struct [FieldShape ''id'' (Primitive ''i64'') False]"

definition sample_batch :: record_batch where
  "sample_batch = \<lparr>rb_schema = [field_new ''id'' Int64 False],
     rb_columns = [Arr 1 None LeafData], rb_num_rows = 1\<rparr>"

text \<open>An input that gives the batch a number of times.\<close>

definition repeat_step :: "('s, nat, 'e) stepper" where
  "repeat_step n s = (case n of 0 \<Rightarrow> (None, s) | Suc m \<Rightarrow> (Some (Inr sample_batch, m), s))"

definition sample_pipeline :: "(unit, nat, string) contract_pipeline" where
  "sample_pipeline = contract_source sample_shape (\<lambda>s. (Inr 1, s)) repeat_step"

definition sample_validator :: batch_validator where
  "sample_validator = \<lparr>bv_schema = [field_new ''id'' Int64 False],
     bv_fields = [node_new (field_new ''id'' Int64 False) ''id'']\<rparr>"

definition sample_sink :: "(unit, nat, string) contract_sink" where
  "sample_sink = \<lparr>cs_plan = cp_plan sample_pipeline, cs_sink = (\<lambda>b s. (Inr (), s)),
     cs_prepare_sink = sample_shape\<rparr>"

definition sample_prepared :: "(unit, nat, string) prepared_pipeline" where
  "sample_prepared = \<lparr>pp_source = (\<lambda>s. (Inr 1, s)), pp_next = repeat_step,
     pp_source_validator = sample_validator, pp_transforms = [], pp_sink = (\<lambda>b s. (Inr (), s))\<rparr>"

lemma sample_validator_new: "batch_validator_new sample_shape = Inr sample_validator"
  by (simp add: sample_shape_def sample_validator_def batch_validator_new_def struct_fields_def
      map_field.simps primitive_type_def field_new_def)

lemma sample_validates: "batch_validate sample_validator sample_batch = Some (Inr ())"
  by (simp add: batch_validate_def sample_validator_def sample_batch_def field_new_def
      node_new_Field is_null_def)

lemma sample_build: "contract_build sample_sink = Inr sample_prepared"
  by (simp add: contract_build_def sample_sink_def sample_prepared_def sample_pipeline_def
      contract_source_def prepare_def sample_validator_new)

lemma sample_attach:
  "contract_sink_attach sample_shape (\<lambda>b s. (Inr (), s)) sample_pipeline = Inr sample_sink"
  by (simp add: contract_sink_attach_def enforce_exact_def check_def sample_sink_def
      conforms_ExactOrdered [unfolded conforms_def] sample_pipeline_def contract_source_def Let_def)

lemma one_batch_run:
  "contract_run (with_log sample_prepared) ((), []) =
    Some (Inr \<lparr>batches_processed = 1, rows_processed = 1\<rparr>, (), [(sample_batch, True)])"
proof -
  have row: "rb_num_rows sample_batch = 1" by (simp add: sample_batch_def)
  show ?thesis
    by (simp add: contract_run_def with_log_def sample_prepared_def run_loop.simps repeat_step_def
        run_batch_def deliver_def validate_stage_def sample_validates run_report_default_def
        checked_add_def usize_max_def row Let_def)
qed

lemma contract_run_truthful_witness:
  "contract_run (with_log sample_prepared) ((), []) =
     Some (Inr \<lparr>batches_processed = 1, rows_processed = 1\<rparr>, (), [(sample_batch, True)]) \<and>
   (\<exists>v. batch_validator_new sample_shape = Inr v \<and> batch_validate v sample_batch = Some (Inr ()))"
proof -
  have "composed sample_pipeline" unfolding sample_pipeline_def by (rule composed.from_source)
  from contract_run_truthful [OF this sample_attach sample_build one_batch_run] one_batch_run
  show ?thesis by auto
qed

lemma contract_run_ends_witness: "\<exists>r s'. contract_run sample_prepared () = Some (r, s')"
proof (rule contract_run_ends [OF sample_build, where left = "\<lambda>n s. n"])
  have "arrow_batch sample_batch"
    by (simp add: arrow_batch_def batch_ok_def sample_batch_def field_new_def)
  then show "ending_input (\<lambda>n s. n) (pl_next (cs_plan sample_sink))"
    by (auto simp: ending_input_def sample_sink_def sample_pipeline_def contract_source_def
        repeat_step_def split: nat.splits)
qed (simp_all add: sample_sink_def sample_pipeline_def contract_source_def quiet_sink_def)

end
