(* ===== verification/ContractTexts.thy ===== *)
theory ContractTexts
  imports ContractPipeline Decimal
begin

text \<open>
  The messages of the contract pipeline's failures: \<open>Display\<close> of \<open>MappingError\<close>
  (src/crates/contracts/src/arrow.rs), \<open>BatchValidationError\<close> (validation.rs) and
  \<open>ContractPipelineError\<close> (src/crates/typestate/src/contract_pipeline.rs).  The derived
  \<open>Debug\<close> of a mapping error, Arrow's print of a schema and a callback's own text are
  parameters.
\<close>

record 'e failure_printers =
  fp_mapping :: "mapping_error \<Rightarrow> string"
  fp_schema :: "arrow_schema \<Rightarrow> string"
  fp_callback :: "'e \<Rightarrow> string"

definition mapping_error_text :: "'e failure_printers \<Rightarrow> mapping_error \<Rightarrow> string" where
  "mapping_error_text pr e = ''contract to Arrow mapping failed: '' @ fp_mapping pr e"

fun validation_error_text :: "'e failure_printers \<Rightarrow> validation_error \<Rightarrow> string" where
  "validation_error_text pr (SchemaMismatch expected found) =
     ''expected schema '' @ fp_schema pr expected @ '', found '' @ fp_schema pr found"
| "validation_error_text pr (RequiredNull path row) =
     ''required value at '' @ path @ ''['' @ digits row @ ''] is null''"
| "validation_error_text pr (Representation path) = ''unsupported nested array representation at '' @ path"

text \<open>The derived \<open>Debug\<close> of a stage and of an \<open>Option<usize>\<close>.\<close>

fun stage_name :: "run_stage \<Rightarrow> string" where
  "stage_name SourceFactory = ''SourceFactory''"
| "stage_name Source = ''Source''"
| "stage_name (Transform i) = ''Transform('' @ digits i @ '')''"
| "stage_name Sink = ''Sink''"

fun option_name :: "nat option \<Rightarrow> string" where
  "option_name None = ''None''"
| "option_name (Some i) = ''Some('' @ digits i @ '')''"

fun run_failure_text :: "'e failure_printers \<Rightarrow> 'e run_failure \<Rightarrow> string" where
  "run_failure_text pr (Mapping e) = mapping_error_text pr e"
| "run_failure_text pr (Validation e) = validation_error_text pr e"
| "run_failure_text pr (Callback e) = fp_callback pr e"
| "run_failure_text pr CountOverflow = ''processed batch or row count overflow''"

definition pipeline_failure_text :: "'e failure_printers \<Rightarrow> 'e pipeline_failure \<Rightarrow> string" where
  "pipeline_failure_text pr e =
     ''contract pipeline '' @ stage_name (pf_stage e) @ '' at batch '' @ option_name (pf_batch_index e) @ '': '' @
     run_failure_text pr (pf_failure e)"

text \<open>Stages and batches are told apart in the message.\<close>

lemma digits_inj: "digits m = digits n \<Longrightarrow> m = n"
proof (induction m arbitrary: n rule: less_induct)
  case (less m)
  have one: "digits k = (if k < 10 then [] else digits (k div 10)) @ [char_of (48 + k mod 10)]" for k
    by (subst digits.simps) simp
  have nonempty: "digits k \<noteq> []" for k by (subst one) simp
  from less.prems have "(if m < 10 then [] else digits (m div 10)) @ [char_of (48 + m mod 10) :: char] =
      (if n < 10 then [] else digits (n div 10)) @ [char_of (48 + n mod 10)]"
    by (simp only: one [symmetric])
  then have front: "(if m < 10 then [] else digits (m div 10)) = (if n < 10 then [] else digits (n div 10))"
    and unit: "(char_of (48 + m mod 10) :: char) = char_of (48 + n mod 10)" by simp_all
  from unit have "byte_of (char_of (48 + m mod 10) :: char) = byte_of (char_of (48 + n mod 10) :: char)" by simp
  then have mod10: "m mod 10 = n mod 10" by simp
  show ?case
  proof (cases "m < 10")
    case True
    with front nonempty [of "n div 10"] have "n < 10" by (auto split: if_splits)
    with True mod10 show ?thesis by simp
  next
    case False
    with front nonempty [of "m div 10"] have "\<not> n < 10" and "digits (m div 10) = digits (n div 10)" by (auto split: if_splits)
    with less.IH [of "m div 10" "n div 10"] False have "m div 10 = n div 10" by simp
    with mod10 show ?thesis by (metis div_mult_mod_eq)
  qed
qed

lemma stage_name_inj: "stage_name s = stage_name t \<Longrightarrow> s = t"
  by (cases s; cases t) (auto dest: digits_inj)

lemma option_name_inj: "option_name i = option_name j \<Longrightarrow> i = j"
  by (cases i; cases j) (auto dest: digits_inj)

end
