(* ===== verification/StructSource.thy ===== *)
theory StructSource
  imports ContractRender ArrowMapping RustStr
begin

text \<open>
  Struct source from an Arrow schema (src/crates/schema-codegen/src/lib.rs), and what the
  generated struct declares: the derive macro (contracts-derive/src/lib.rs) and the standard
  implementations of \<open>Contract\<close> (contracts/src/resolved.rs).

  The quoted tokens are an abstract syntax: a field type, and the structs in the order they
  are emitted.  Parsing and printing them is \<open>syn\<close> and \<open>prettyplease\<close>, a parameter;
  \<open>format_ident!\<close> panics on a text that is no identifier, the outer \<open>None\<close>.
\<close>

subsection \<open>Generated syntax\<close>

datatype rust_type =
    PrimType string
  | VecType rust_type
  | OptionType rust_type
  | StructType string

record rust_struct =
  rs_name :: string
  rs_connector :: bool
  rs_fields :: "(string \<times> rust_type) list"

text \<open>
  \<open>SchemaCodegenError\<close>; the errors of the libraries and of the system, which the code only
  carries, are their texts.
\<close>

datatype codegen_error =
    OpenFile string string
  | ReadSchema string
  | UnsupportedArrowType string data_type
  | InvalidFieldName string
  | RenderStruct string string
  | RenderMain string
  | UnsupportedDeclaredType string string
  | ModelNotFound string
  | ParseDbtYaml string
  | EntityNotFound string
  | ParseErwinXml string
  | InvalidDeltaUri string string
  | DeltaRuntime string
  | OpenDeltaTable string
  | DeltaTableProvider string

fun codegen_source :: "codegen_error \<Rightarrow> string option" where
  "codegen_source (OpenFile path source) = Some source"
| "codegen_source (ReadSchema source) = Some source"
| "codegen_source (UnsupportedArrowType field ty) = None"
| "codegen_source (InvalidFieldName field) = None"
| "codegen_source (UnsupportedDeclaredType field declared) = None"
| "codegen_source (RenderStruct name source) = Some source"
| "codegen_source (RenderMain source) = Some source"
| "codegen_source (ModelNotFound model) = None"
| "codegen_source (ParseDbtYaml source) = Some source"
| "codegen_source (EntityNotFound entity) = None"
| "codegen_source (ParseErwinXml source) = Some source"
| "codegen_source (InvalidDeltaUri uri source) = Some source"
| "codegen_source (DeltaRuntime source) = Some source"
| "codegen_source (OpenDeltaTable source) = Some source"
| "codegen_source (DeltaTableProvider source) = Some source"

subsection \<open>Names\<close>

definition is_ascii_lowercase :: "char \<Rightarrow> bool" where
  "is_ascii_lowercase c \<longleftrightarrow> 97 \<le> byte_of c \<and> byte_of c \<le> 122"

definition is_ascii_alphabetic :: "char \<Rightarrow> bool" where
  "is_ascii_alphabetic c \<longleftrightarrow> is_ascii_uppercase c \<or> is_ascii_lowercase c"

definition is_ascii_alphanumeric :: "char \<Rightarrow> bool" where
  "is_ascii_alphanumeric c \<longleftrightarrow> is_ascii_alphabetic c \<or> is_ascii_digit c"

definition is_valid_rust_identifier :: "string \<Rightarrow> bool" where
  "is_valid_rust_identifier name =
     (case name of
        [] \<Rightarrow> False
      | c # cs \<Rightarrow> (is_ascii_alphabetic c \<or> c = CHR ''_'') \<and>
          list_all (\<lambda>c. is_ascii_alphanumeric c \<or> c = CHR ''_'') cs)"

text \<open>The capital of an ASCII letter.\<close>

definition to_upper :: "char \<Rightarrow> char" where
  "to_upper c = (if is_ascii_lowercase c then char_of (byte_of c - 32) else c)"

definition to_pascal_case :: "string \<Rightarrow> string" where
  "to_pascal_case name =
     concat (map (\<lambda>part. case part of [] \<Rightarrow> [] | c # cs \<Rightarrow> to_upper c # cs)
       (filter (\<lambda>part. part \<noteq> []) (split_chars (\<lambda>c. c = CHR ''_'' \<or> c = CHR ''-'') name)))"

subsection \<open>Types\<close>

fun rust_primitive :: "data_type \<Rightarrow> string option" where
  "rust_primitive Boolean = Some ''bool''"
| "rust_primitive Int8 = Some ''i8''"
| "rust_primitive Int16 = Some ''i16''"
| "rust_primitive Int32 = Some ''i32''"
| "rust_primitive Int64 = Some ''i64''"
| "rust_primitive UInt8 = Some ''u8''"
| "rust_primitive UInt16 = Some ''u16''"
| "rust_primitive UInt32 = Some ''u32''"
| "rust_primitive UInt64 = Some ''u64''"
| "rust_primitive Float32 = Some ''f32''"
| "rust_primitive Float64 = Some ''f64''"
| "rust_primitive Utf8 = Some ''String''"
| "rust_primitive _ = None"

definition field_of :: "arrow_field \<Rightarrow> rust_type \<Rightarrow> string \<times> rust_type" where
  "field_of f t = (f_name f, if f_nullable f then OptionType t else t)"

text \<open>
  \<open>field_type_tokens\<close>, threading \<open>nested_items\<close>; \<open>nested_fields\<close> is its loop over the fields
  of a struct.
\<close>

fun field_type_tokens ::
    "string \<Rightarrow> string \<Rightarrow> data_type \<Rightarrow> rust_struct list \<Rightarrow>
     codegen_error + rust_type \<times> rust_struct list"
  and nested_fields ::
    "string \<Rightarrow> string \<Rightarrow> arrow_field list \<Rightarrow> rust_struct list \<Rightarrow>
     codegen_error + (string \<times> rust_type) list \<times> rust_struct list"
where
  "field_type_tokens error_name type_hint (ListOf (Field n ty nl m)) nested =
     and_then (field_type_tokens (error_name @ ''[]'') (type_hint @ ''Item'') ty nested)
       (\<lambda>(t, nested). Inr (VecType t, nested))"
| "field_type_tokens error_name type_hint (LargeListOf (Field n ty nl m)) nested =
     and_then (field_type_tokens (error_name @ ''[]'') (type_hint @ ''Item'') ty nested)
       (\<lambda>(t, nested). Inr (VecType t, nested))"
| "field_type_tokens error_name type_hint (StructOf inner_fields) nested =
     and_then (nested_fields error_name type_hint inner_fields nested) (\<lambda>(rendered, nested).
       Inr (StructType type_hint,
            nested @ [\<lparr>rs_name = type_hint, rs_connector = False, rs_fields = rendered\<rparr>]))"
| "field_type_tokens error_name type_hint other nested =
     (case rust_primitive other of
        None \<Rightarrow> Inl (UnsupportedArrowType error_name other)
      | Some p \<Rightarrow> Inr (PrimType p, nested))"
| "nested_fields error_name type_hint [] nested = Inr ([], nested)"
| "nested_fields error_name type_hint (Field n ty nl m # fs) nested =
     (let field_error = error_name @ ''.'' @ n in
      if \<not> is_valid_rust_identifier n then Inl (InvalidFieldName field_error)
      else
        and_then (field_type_tokens field_error (type_hint @ to_pascal_case n) ty nested)
          (\<lambda>(t, nested).
        and_then (nested_fields error_name type_hint fs nested) (\<lambda>(rendered, nested).
          Inr (field_of (Field n ty nl m) t # rendered, nested))))"

text \<open>The loop of \<open>struct_source\<close> over the top-level fields.\<close>

fun top_fields ::
    "string \<Rightarrow> arrow_field list \<Rightarrow> rust_struct list \<Rightarrow>
     codegen_error + (string \<times> rust_type) list \<times> rust_struct list"
where
  "top_fields struct_name [] nested = Inr ([], nested)"
| "top_fields struct_name (f # fs) nested =
     (if \<not> is_valid_rust_identifier (f_name f) then Inl (InvalidFieldName (f_name f))
      else
        and_then (field_type_tokens (f_name f) (struct_name @ to_pascal_case (f_name f)) (f_type f) nested)
          (\<lambda>(t, nested).
        and_then (top_fields struct_name fs nested) (\<lambda>(flds, nested).
          Inr (field_of f t # flds, nested))))"

definition struct_items :: "string \<Rightarrow> arrow_schema \<Rightarrow> codegen_error + rust_struct list" where
  "struct_items struct_name sch =
     and_then (top_fields struct_name sch []) (\<lambda>(flds, nested).
       Inr (nested @ [\<lparr>rs_name = struct_name, rs_connector = True, rs_fields = flds\<rparr>]))"

text \<open>
  \<open>struct_source\<close>: \<open>is_ident\<close> is what \<open>format_ident!\<close> accepts, \<open>print_items\<close> the parse of the tokens
  and their printing.
\<close>

definition struct_source ::
    "(string \<Rightarrow> bool) \<Rightarrow> (rust_struct list \<Rightarrow> string + string) \<Rightarrow> string \<Rightarrow> arrow_schema \<Rightarrow>
     (codegen_error + string) option" where
  "struct_source is_ident print_items struct_name sch =
     (if \<not> is_ident struct_name then None
      else Some (and_then (struct_items struct_name sch)
        (\<lambda>structs. map_err (RenderStruct struct_name) (print_items structs))))"

subsection \<open>What generated structs declare\<close>

text \<open>
  \<open><T as Contract>::SHAPE\<close>, given the shapes of the structs in scope.  Two structs of one name
  do not compile, and neither does a name that is not in scope: \<open>None\<close>.
\<close>

fun resolve :: "(string \<rightharpoonup> type_shape) \<Rightarrow> rust_type \<Rightarrow> type_shape option" where
  "resolve env (PrimType p) = Some (Primitive p)"
| "resolve env (VecType t) = map_option Sequence (resolve env t)"
| "resolve env (OptionType t) = map_option Optional (resolve env t)"
| "resolve env (StructType s) = env s"

fun resolve_fields ::
    "(string \<rightharpoonup> type_shape) \<Rightarrow> (string \<times> rust_type) list \<Rightarrow> field_shape list option" where
  "resolve_fields env [] = Some []"
| "resolve_fields env ((n, t) # fs) =
     (case (resolve env t, resolve_fields env fs) of
        (Some s, Some rest) \<Rightarrow> Some (FieldShape n s False # rest)
      | _ \<Rightarrow> None)"

text \<open>\<open>#[derive(Contract)]\<close> on each struct in turn.\<close>

fun derive_contracts ::
    "(string \<rightharpoonup> type_shape) \<Rightarrow> rust_struct list \<Rightarrow> (string \<rightharpoonup> type_shape) option" where
  "derive_contracts env [] = Some env"
| "derive_contracts env (s # ss) =
     (if rs_name s \<in> dom env then None
      else (case resolve_fields env (rs_fields s) of
              None \<Rightarrow> None
            | Some flds \<Rightarrow> derive_contracts (env(rs_name s \<mapsto> Struct flds)) ss))"

definition declared_shape :: "string \<Rightarrow> rust_struct list \<Rightarrow> type_shape option" where
  "declared_shape name structs = Option.bind (derive_contracts Map.empty structs) (\<lambda>env. env name)"

subsection \<open>The declaration of a generated struct\<close>

text \<open>The shape the generated types stand for, read off the schema.\<close>

function (sequential) gen_shape :: "data_type \<Rightarrow> type_shape" where
  "gen_shape (ListOf f) = Sequence (gen_shape (f_type f))"
| "gen_shape (LargeListOf f) = Sequence (gen_shape (f_type f))"
| "gen_shape (StructOf fs) =
     Struct (map (\<lambda>f. FieldShape (f_name f)
       (if f_nullable f then Optional (gen_shape (f_type f)) else gen_shape (f_type f)) False) fs)"
| "gen_shape ty = Primitive (the (rust_primitive ty))"
  by pat_completeness auto

lemma f_type_smaller: "size (f_type f) < size f"
  by (cases f) simp

lemma nested_type_smaller: "f \<in> set fs \<Longrightarrow> size (f_type f) < Suc (size_list size fs)"
  using f_type_smaller [of f] size_list_estimation' [of f fs "size f" size] by simp

termination gen_shape
  by (relation "measure size") (auto simp: nested_type_smaller intro: less_SucI [OF f_type_smaller])

definition gen_field :: "arrow_field \<Rightarrow> field_shape" where
  "gen_field f = FieldShape (f_name f)
     (if f_nullable f then Optional (gen_shape (f_type f)) else gen_shape (f_type f)) False"

lemma gen_shape_struct [simp]: "gen_shape (StructOf fs) = Struct (map gen_field fs)"
  by (simp add: gen_field_def)

declare gen_shape.simps(3) [simp del]

lemma map_le_Some: "env \<subseteq>\<^sub>m env' \<Longrightarrow> env x = Some s \<Longrightarrow> env' x = Some s"
  by (metis domI map_le_def)

lemma resolve_mono: "env \<subseteq>\<^sub>m env' \<Longrightarrow> resolve env t = Some s \<Longrightarrow> resolve env' t = Some s"
  by (induction t arbitrary: s) (auto dest: map_le_Some)

lemma resolve_fields_mono:
  "env \<subseteq>\<^sub>m env' \<Longrightarrow> resolve_fields env fs = Some ss \<Longrightarrow> resolve_fields env' fs = Some ss"
  by (induction env fs arbitrary: ss rule: resolve_fields.induct)
    (auto split: option.splits dest: resolve_mono)

lemma derive_append:
  "derive_contracts env (xs @ ys) = Option.bind (derive_contracts env xs) (\<lambda>env'. derive_contracts env' ys)"
proof (induction xs arbitrary: env)
  case (Cons s ss)
  then show ?case by (cases "resolve_fields env (rs_fields s)") (simp_all del: fun_upd_apply)
qed simp

text \<open>
  Emitted structs compile in order, as long as their names are new, and give the generated
  type its shape.
\<close>

definition compiles ::
    "rust_struct list \<Rightarrow> ((string \<rightharpoonup> type_shape) \<Rightarrow> bool) \<Rightarrow> bool" where
  "compiles structs P \<longleftrightarrow>
     (\<forall>env. distinct (map rs_name structs) \<longrightarrow> rs_name ` set structs \<inter> dom env = {} \<longrightarrow>
        (\<exists>env'. derive_contracts env structs = Some env' \<and> env \<subseteq>\<^sub>m env' \<and>
           dom env' = dom env \<union> rs_name ` set structs \<and> P env'))"

lemma compilesE:
  assumes "compiles structs P" and "distinct (map rs_name structs)"
    and "rs_name ` set structs \<inter> dom env = {}"
  obtains env' where "derive_contracts env structs = Some env'" and "env \<subseteq>\<^sub>m env'"
    and "dom env' = dom env \<union> rs_name ` set structs" and "P env'"
  using assms unfolding compiles_def by blast

lemma compiles_file:
  assumes "compiles structs P" and "distinct (map rs_name structs)"
  shows "\<exists>env. derive_contracts Map.empty structs = Some env \<and> P env"
proof -
  have "rs_name ` set structs \<inter> dom Map.empty = {}" by simp
  then obtain env where "derive_contracts Map.empty structs = Some env" and "P env"
    by (rule compilesE [OF assms])
  then show ?thesis by (intro exI conjI)
qed

lemma compiles_nil: "compiles [] P" if "\<And>env. P env"
  using that by (simp add: compiles_def)

lemma compiles_append:
  assumes P: "compiles xs P" and Q: "compiles ys Q"
    and mono: "\<And>env env'. env \<subseteq>\<^sub>m env' \<Longrightarrow> P env \<Longrightarrow> P env'"
  shows "compiles (xs @ ys) (\<lambda>env. P env \<and> Q env)"
  unfolding compiles_def
proof (intro allI impI)
  fix env :: "string \<rightharpoonup> type_shape"
  assume d: "distinct (map rs_name (xs @ ys))" and new: "rs_name ` set (xs @ ys) \<inter> dom env = {}"
  from d new have dx: "distinct (map rs_name xs)" "rs_name ` set xs \<inter> dom env = {}" by auto
  obtain env1 where e1: "derive_contracts env xs = Some env1" "env \<subseteq>\<^sub>m env1"
    "dom env1 = dom env \<union> rs_name ` set xs" "P env1" using compilesE [OF P dx] .
  from d new e1(3) have dy: "distinct (map rs_name ys)" "rs_name ` set ys \<inter> dom env1 = {}" by auto
  obtain env2 where e2: "derive_contracts env1 ys = Some env2" "env1 \<subseteq>\<^sub>m env2"
    "dom env2 = dom env1 \<union> rs_name ` set ys" "Q env2" using compilesE [OF Q dy] .
  have "dom env2 = dom env \<union> rs_name ` set (xs @ ys)" using e1(3) e2(3) by auto
  then show "\<exists>env'. derive_contracts env (xs @ ys) = Some env' \<and> env \<subseteq>\<^sub>m env' \<and>
      dom env' = dom env \<union> rs_name ` set (xs @ ys) \<and> P env' \<and> Q env'"
    using e1(1) e2(1,4) mono [OF e2(2) e1(4)] map_le_trans [OF e1(2) e2(2)]
    by (simp add: derive_append)
qed

lemma compiles_mono:
  assumes P: "compiles structs P" and imp: "\<And>env. P env \<Longrightarrow> Q env"
  shows "compiles structs Q"
  unfolding compiles_def
proof (intro allI impI)
  fix env :: "string \<rightharpoonup> type_shape"
  assume new: "distinct (map rs_name structs)" "rs_name ` set structs \<inter> dom env = {}"
  obtain env' where "derive_contracts env structs = Some env'" "env \<subseteq>\<^sub>m env'"
    "dom env' = dom env \<union> rs_name ` set structs" "P env'" using compilesE [OF P new] .
  then show "\<exists>env'. derive_contracts env structs = Some env' \<and> env \<subseteq>\<^sub>m env' \<and>
      dom env' = dom env \<union> rs_name ` set structs \<and> Q env'"
    by (intro exI [of _ env'] conjI imp)
qed

lemma compiles_struct:
  assumes "compiles structs (\<lambda>env. resolve_fields env flds = Some shapes)"
  shows "compiles (structs @ [\<lparr>rs_name = name, rs_connector = c, rs_fields = flds\<rparr>])
    (\<lambda>env. env name = Some (Struct shapes))"
  unfolding compiles_def
proof (intro allI impI)
  fix env :: "string \<rightharpoonup> type_shape"
  let ?s = "\<lparr>rs_name = name, rs_connector = c, rs_fields = flds\<rparr>"
  assume d: "distinct (map rs_name (structs @ [?s]))"
    and new: "rs_name ` set (structs @ [?s]) \<inter> dom env = {}"
  from d new have dx: "distinct (map rs_name structs)" "rs_name ` set structs \<inter> dom env = {}" by auto
  obtain env1 where e1: "derive_contracts env structs = Some env1" "env \<subseteq>\<^sub>m env1"
    "dom env1 = dom env \<union> rs_name ` set structs" "resolve_fields env1 flds = Some shapes"
    using compilesE [OF assms dx] .
  from d new e1(3) have fresh: "name \<notin> dom env1" by auto
  let ?env' = "env1(name \<mapsto> Struct shapes)"
  have "derive_contracts env (structs @ [?s]) = Some ?env'"
    using e1(1,4) fresh by (simp add: derive_append)
  moreover have "env \<subseteq>\<^sub>m ?env'"
    using e1(2,3) fresh by (auto simp: map_le_def)
  moreover have "dom ?env' = dom env \<union> rs_name ` set (structs @ [?s])" using e1(3) by auto
  ultimately show "\<exists>env'. derive_contracts env (structs @ [?s]) = Some env' \<and> env \<subseteq>\<^sub>m env' \<and>
      dom env' = dom env \<union> rs_name ` set (structs @ [?s]) \<and> env' name = Some (Struct shapes)"
    by (intro exI [of _ ?env']) simp
qed

lemma compiles_field:
  assumes "compiles xs (\<lambda>env. resolve env t = Some (gen_shape (f_type f)))"
    and "compiles ys (\<lambda>env. resolve_fields env flds = Some (map gen_field fs))"
  shows "compiles (xs @ ys) (\<lambda>env. resolve_fields env (field_of f t # flds) = Some (map gen_field (f # fs)))"
  by (rule compiles_mono [OF compiles_append [OF assms]])
    (auto simp: field_of_def gen_field_def dest: resolve_mono)

lemma tokens_declare:
  shows "field_type_tokens en hint ty nested = Inr (t, nested') \<Longrightarrow>
      \<exists>new. nested' = nested @ new \<and> compiles new (\<lambda>env. resolve env t = Some (gen_shape ty))"
    and "nested_fields en hint fs nested = Inr (rendered, nested') \<Longrightarrow>
      \<exists>new. nested' = nested @ new \<and>
        compiles new (\<lambda>env. resolve_fields env rendered = Some (map gen_field fs))"
proof (induction en hint ty nested and en hint fs nested arbitrary: t nested' and rendered nested'
    rule: field_type_tokens_nested_fields.induct)
  case (1 en hint n ty nl m nested)
  then show ?case by (fastforce simp: and_then_eq_Inr elim!: compiles_mono)
next
  case (2 en hint n ty nl m nested)
  then show ?case by (fastforce simp: and_then_eq_Inr elim!: compiles_mono)
next
  case (3 en hint fs nested)
  from 3(2) obtain rendered nested1 where r: "nested_fields en hint fs nested = Inr (rendered, nested1)"
    "t = StructType hint"
    "nested' = nested1 @ [\<lparr>rs_name = hint, rs_connector = False, rs_fields = rendered\<rparr>]"
    by (auto simp: and_then_eq_Inr)
  from 3(1) [OF r(1)] obtain new where new: "nested1 = nested @ new"
    "compiles new (\<lambda>env. resolve_fields env rendered = Some (map gen_field fs))" by blast
  from compiles_struct [OF new(2), of hint False] r new(1) show ?case
    by (intro exI [of _ "new @ [\<lparr>rs_name = hint, rs_connector = False, rs_fields = rendered\<rparr>]"]) simp
next
  case (6 en hint n ty nl m fs nested)
  from 6(3) obtain t nested1 rest where r: "is_valid_rust_identifier n"
    "field_type_tokens (en @ ''.'' @ n) (hint @ to_pascal_case n) ty nested = Inr (t, nested1)"
    "nested_fields en hint fs nested1 = Inr (rest, nested')"
    "rendered = field_of (Field n ty nl m) t # rest"
    by (auto simp: Let_def and_then_eq_Inr split: if_splits)
  from 6(1) [OF refl _ r(2)] r(1) obtain new1 where n1: "nested1 = nested @ new1"
    "compiles new1 (\<lambda>env. resolve env t = Some (gen_shape ty))" by auto
  from 6(2) [OF refl _ r(3)] r(1) obtain new2 where n2: "nested' = nested1 @ new2"
    "compiles new2 (\<lambda>env. resolve_fields env rest = Some (map gen_field fs))" by auto
  show ?case
    using compiles_field [of new1 t "Field n ty nl m" new2 rest fs] n1 n2 r(4)
    by (intro exI [of _ "new1 @ new2"]) simp
qed (auto intro: compiles_nil split: option.splits)

subsection \<open>When a struct is generated\<close>

text \<open>Every leaf has a Rust primitive, and every field inside is named by an identifier.\<close>

function (sequential) generable :: "data_type \<Rightarrow> bool" where
  "generable (ListOf f) \<longleftrightarrow> generable (f_type f)"
| "generable (LargeListOf f) \<longleftrightarrow> generable (f_type f)"
| "generable (StructOf fs) \<longleftrightarrow>
     (\<forall>f \<in> set fs. is_valid_rust_identifier (f_name f) \<and> generable (f_type f))"
| "generable ty \<longleftrightarrow> rust_primitive ty \<noteq> None"
  by pat_completeness auto
termination generable
  by (relation "measure size") (auto simp: nested_type_smaller intro: less_SucI [OF f_type_smaller])

lemma tokens_succeed:
  shows "succeeds (field_type_tokens en hint ty nested) \<longleftrightarrow> generable ty"
    and "succeeds (nested_fields en hint fs nested) \<longleftrightarrow> generable (StructOf fs)"
proof (induction en hint ty nested and en hint fs nested rule: field_type_tokens_nested_fields.induct)
  case (6 en hint n ty nl m fs nested)
  show ?case
  proof (cases "is_valid_rust_identifier n")
    case True
    let ?first = "field_type_tokens (en @ ''.'' @ n) (hint @ to_pascal_case n) ty nested"
    show ?thesis
    proof (cases ?first)
      case (Inl e)
      with 6(1) [OF refl] True have "\<not> generable ty" by simp
      with True Inl show ?thesis by simp
    next
      case (Inr r)
      obtain t nested1 where r: "r = (t, nested1)" by fastforce
      from 6(1) [OF refl] True Inr have "generable ty" by simp
      moreover have "succeeds (nested_fields en hint fs nested1) \<longleftrightarrow> generable (StructOf fs)"
        using 6(2) [OF refl] True by simp
      ultimately show ?thesis using True Inr r by (auto simp: and_then_eq_Inr)
    qed
  qed simp
qed (auto simp: and_then_eq_Inr split: option.splits)

lemma top_fields_succeed:
  "succeeds (top_fields name fs nested) \<longleftrightarrow> generable (StructOf fs)"
proof (induction fs arbitrary: nested)
  case (Cons f fs)
  let ?first = "field_type_tokens (f_name f) (name @ to_pascal_case (f_name f)) (f_type f) nested"
  show ?case
  proof (cases ?first)
    case (Inl e)
    with tokens_succeed(1) [of "f_name f" "name @ to_pascal_case (f_name f)" "f_type f" nested]
    show ?thesis by auto
  next
    case (Inr r)
    obtain t nested1 where r: "r = (t, nested1)" by fastforce
    from Inr tokens_succeed(1) [of "f_name f" "name @ to_pascal_case (f_name f)" "f_type f" nested]
    have "generable (f_type f)" by simp
    with Inr r Cons.IH [of nested1] show ?thesis by (auto simp: and_then_eq_Inr)
  qed
qed simp

lemma top_fields_declare:
  "top_fields name fs nested = Inr (flds, nested') \<Longrightarrow>
     \<exists>new. nested' = nested @ new \<and>
       compiles new (\<lambda>env. resolve_fields env flds = Some (map gen_field fs))"
proof (induction fs arbitrary: nested flds)
  case (Cons f fs)
  from Cons.prems obtain t nested1 rest where r:
    "field_type_tokens (f_name f) (name @ to_pascal_case (f_name f)) (f_type f) nested = Inr (t, nested1)"
    "top_fields name fs nested1 = Inr (rest, nested')" "flds = field_of f t # rest"
    by (auto simp: and_then_eq_Inr split: if_splits)
  from tokens_declare(1) [OF r(1)] obtain new1 where n1: "nested1 = nested @ new1"
    "compiles new1 (\<lambda>env. resolve env t = Some (gen_shape (f_type f)))" by blast
  from Cons.IH [OF r(2)] obtain new2 where n2: "nested' = nested1 @ new2"
    "compiles new2 (\<lambda>env. resolve_fields env rest = Some (map gen_field fs))" by blast
  show ?case using compiles_field [OF n1(2) n2(2)] n1(1) n2(1) r(3)
    by (intro exI [of _ "new1 @ new2"]) simp
qed (auto intro: compiles_nil)

lemma struct_items_compile:
  assumes "struct_items name sch = Inr structs"
  shows "compiles structs (\<lambda>env. env name = Some (Struct (map gen_field sch)))"
proof -
  from assms obtain flds nested where r: "top_fields name sch [] = Inr (flds, nested)"
    "structs = nested @ [\<lparr>rs_name = name, rs_connector = True, rs_fields = flds\<rparr>]"
    by (auto simp: struct_items_def and_then_eq_Inr)
  from top_fields_declare [OF r(1)] have
    "compiles nested (\<lambda>env. resolve_fields env flds = Some (map gen_field sch))" by simp
  from compiles_struct [OF this, of name True] r(2) show ?thesis by simp
qed

lemma struct_items_declare:
  assumes "struct_items name sch = Inr structs" and "distinct (map rs_name structs)"
  shows "declared_shape name structs = Some (Struct (map gen_field sch))"
  using compiles_file [OF struct_items_compile [OF assms(1)] assms(2)]
  by (auto simp: declared_shape_def)

subsection \<open>The schema a generated contract stands for\<close>

text \<open>List items lose name and validity, large offsets and metadata are dropped.\<close>

function (sequential) regen_type :: "data_type \<Rightarrow> data_type" where
  "regen_type (ListOf f) = ListOf (field_new ''item'' (regen_type (f_type f)) False)"
| "regen_type (LargeListOf f) = ListOf (field_new ''item'' (regen_type (f_type f)) False)"
| "regen_type (StructOf fs) =
     StructOf (map (\<lambda>f. field_new (f_name f) (regen_type (f_type f)) (f_nullable f)) fs)"
| "regen_type ty = ty"
  by pat_completeness auto
termination regen_type
  by (relation "measure size") (auto simp: nested_type_smaller intro: less_SucI [OF f_type_smaller])

definition regen_field :: "arrow_field \<Rightarrow> arrow_field" where
  "regen_field f = field_new (f_name f) (regen_type (f_type f)) (f_nullable f)"

lemma regen_type_struct: "regen_type (StructOf fs) = StructOf (map regen_field fs)"
  by (simp add: regen_field_def)

text \<open>Fields of one struct have different names, at every level.\<close>

function (sequential) unique_fields :: "data_type \<Rightarrow> bool" where
  "unique_fields (ListOf f) \<longleftrightarrow> unique_fields (f_type f)"
| "unique_fields (LargeListOf f) \<longleftrightarrow> unique_fields (f_type f)"
| "unique_fields (StructOf fs) \<longleftrightarrow>
     distinct (map f_name fs) \<and> (\<forall>f \<in> set fs. unique_fields (f_type f))"
| "unique_fields ty \<longleftrightarrow> True"
  by pat_completeness auto
termination unique_fields
  by (relation "measure size") (auto simp: nested_type_smaller intro: less_SucI [OF f_type_smaller])

lemma primitive_type_labels [simp]:
  "primitive_type ''bool'' = Some Boolean"
  "primitive_type ''i8'' = Some Int8"
  "primitive_type ''i16'' = Some Int16"
  "primitive_type ''i32'' = Some Int32"
  "primitive_type ''i64'' = Some Int64"
  "primitive_type ''u8'' = Some UInt8"
  "primitive_type ''u16'' = Some UInt16"
  "primitive_type ''u32'' = Some UInt32"
  "primitive_type ''u64'' = Some UInt64"
  "primitive_type ''f32'' = Some Float32"
  "primitive_type ''f64'' = Some Float64"
  "primitive_type ''String'' = Some Utf8"
  by (simp_all add: primitive_type_def)

lemma primitive_back: "rust_primitive ty = Some p \<Longrightarrow> primitive_type p = Some ty"
  by (erule rust_primitive.elims) simp_all

lemma gen_shape_not_optional [simp]: "strip_optional (gen_shape ty) = (gen_shape ty, False)"
  by (cases ty) simp_all

lemma gen_field_parts [simp]:
  "fs_name (gen_field f) = f_name f"
  "strip_optional (fs_shape (gen_field f)) = (gen_shape (f_type f), f_nullable f)"
  by (simp_all add: gen_field_def)

lemma gen_supported:
  "generable ty \<Longrightarrow> unique_fields ty \<Longrightarrow> supported_type (gen_shape ty)"
proof (induction ty rule: regen_type.induct)
  case (3 fs)
  then show ?case by (auto simp: supported.simps comp_def)
qed (auto simp: supported.simps dest: primitive_back)

lemma gen_mapped_as:
  "generable ty \<Longrightarrow> map_type (gen_shape ty) path depth = Inr out \<Longrightarrow> out = regen_type ty"
proof (induction ty arbitrary: path depth out rule: regen_type.induct)
  case (3 fs)
  have loop: "struct_loop prior (map gen_field gs) path depth = Inr ms \<Longrightarrow> set gs \<subseteq> set fs \<Longrightarrow>
      ms = map regen_field gs" for prior gs ms
  proof (induction gs arbitrary: prior ms)
    case (Cons g gs)
    with 3(1) [of g] 3(2) show ?case
      by (auto simp: Let_def map_field.simps regen_field_def split: sum.splits if_splits)
  qed simp
  from 3(3) loop [of "[]" fs] show ?case
    by (auto simp: regen_field_def split: sum.splits)
qed (auto simp: map_field.simps dest: primitive_back split: sum.splits if_splits)

lemma generated_mapping:
  assumes "generable (StructOf sch)" and "unique_fields (StructOf sch)"
    and "height (gen_shape (StructOf sch)) \<le> 128"
  shows "schema (Struct (map gen_field sch)) = Inr (map regen_field sch)"
proof -
  have "succeeds (map_type (gen_shape (StructOf sch)) '''' 0)"
    using mapping_succeeds(2) [of 0 "gen_shape (StructOf sch)" "''''"] gen_supported [OF assms(1,2)]
      assms(3) by simp
  then obtain out where "map_type (gen_shape (StructOf sch)) '''' 0 = Inr out" by blast
  with gen_mapped_as [OF assms(1) this] show ?thesis
    by (auto simp: struct_fields_def regen_field_def split: sum.splits)
qed

lemma generated_too_deep:
  assumes "generable (StructOf sch)" and "unique_fields (StructOf sch)"
    and "\<not> height (gen_shape (StructOf sch)) \<le> 128"
  shows "\<exists>path. schema (Struct (map gen_field sch)) = Inl (DepthLimit path)"
proof -
  let ?shape = "gen_shape (StructOf sch)"
  have sup: "supported_type ?shape" by (rule gen_supported [OF assms(1,2)])
  have "\<not> succeeds (map_type ?shape '''' 0)"
    using mapping_succeeds(2) [of 0 ?shape "''''"] assms(3) by simp
  then obtain e where e: "map_type ?shape '''' 0 = Inl e" by (cases "map_type ?shape '''' 0") auto
  from mapping_too_deep(2) [OF e sup] e show ?thesis
    by (auto simp: struct_fields_def split: sum.splits)
qed

subsection \<open>Properties of the generated source\<close>

lemma struct_items_succeed: "succeeds (struct_items name sch) \<longleftrightarrow> generable (StructOf sch)"
  using top_fields_succeed [of name sch "[]"] by (auto simp: struct_items_def and_then_eq_Inr)

text \<open>
  A struct is generated exactly for the schemas whose names, at every depth, are ASCII
  identifiers and whose leaves have a Rust primitive; nothing else is refused before the
  rendering.
\<close>

theorem struct_generated_iff:
  "(\<exists>structs. struct_items name sch = Inr structs) \<longleftrightarrow> generable (StructOf sch)"
  using struct_items_succeed [of name sch] by simp

text \<open>
  C15. The generated structs, once they compile - their names and the names of each one's fields
  being distinct -, declare the contract that is read off the schema.  Where that contract
  nests at most 128 levels, its own Arrow schema is the schema the structs were read from, up
  to list items (renamed \<open>item\<close> and required), large lists (lists) and metadata (dropped).
  Nothing in the generation bounds the nesting: a deeper schema is generated all the same,
  and its contract then has no Arrow schema but a depth error.
\<close>

theorem generated_struct_declares:
  assumes "struct_items name sch = Inr structs" and "distinct (map rs_name structs)"
    and "unique_fields (StructOf sch)"
  shows "\<exists>shape. declared_shape name structs = Some shape \<and> shape = Struct (map gen_field sch) \<and>
    (if height shape \<le> 128 then schema shape = Inr (map regen_field sch)
     else \<exists>path. schema shape = Inl (DepthLimit path))"
proof -
  let ?shape = "Struct (map gen_field sch)"
  have gen: "generable (StructOf sch)" using assms(1) struct_items_succeed [of name sch] by blast
  have shape: "gen_shape (StructOf sch) = ?shape" by (rule gen_shape_struct)
  have "if height ?shape \<le> 128 then schema ?shape = Inr (map regen_field sch)
     else \<exists>path. schema ?shape = Inl (DepthLimit path)"
    using generated_mapping [OF gen assms(3)] generated_too_deep [OF gen assms(3)]
    unfolding shape by (simp only: if_bool_eq_conj) blast
  with struct_items_declare [OF assms(1,2)] show ?thesis by blast
qed

lemma generated_struct_declares_witness:
  "\<exists>structs shape.
     struct_items ''Row'' [Field ''id'' Int64 False [(''k'', ''v'')],
       Field ''part'' (LargeListOf (Field ''element'' (StructOf [Field ''a'' Utf8 True []]) True [])) True []]
       = Inr structs \<and>
     declared_shape ''Row'' structs = Some shape \<and>
     schema shape = Inr [Field ''id'' Int64 False [],
       Field ''part'' (ListOf (Field ''item'' (StructOf [Field ''a'' Utf8 True []]) False [])) True []]"
proof -
  let ?sch = "[Field ''id'' Int64 False [(''k'', ''v'')],
    Field ''part'' (LargeListOf (Field ''element'' (StructOf [Field ''a'' Utf8 True []]) True [])) True []]"
  let ?structs = "[\<lparr>rs_name = ''RowPartItem'', rs_connector = False,
      rs_fields = [(''a'', OptionType (PrimType ''String''))]\<rparr>,
    \<lparr>rs_name = ''Row'', rs_connector = True,
      rs_fields = [(''id'', PrimType ''i64''), (''part'', OptionType (VecType (StructType ''RowPartItem'')))]\<rparr>]"
  have items: "struct_items ''Row'' ?sch = Inr ?structs" by code_simp
  have "height (Struct (map gen_field ?sch)) \<le> 128" by (simp add: gen_field_def)
  then have "\<exists>shape. declared_shape ''Row'' ?structs = Some shape \<and> schema shape = Inr (map regen_field ?sch)"
    using generated_struct_declares [OF items] by (simp del: height.simps schema.simps)
  with items show ?thesis by (auto simp: regen_field_def field_new_def)
qed

lemma item_validity_lost:
  assumes "struct_items name sch = Inr structs" and "declared_shape name structs = Some shape"
    and "distinct (map rs_name structs)" and "schema shape = Inr out"
    and "Field n (ListOf (Field i ty True m)) nl m' \<in> set sch"
  shows "out \<noteq> sch"
proof
  assume same: "out = sch"
  have gen: "generable (StructOf sch)" using assms(1) struct_items_succeed [of name sch] by blast
  have shape: "shape = Struct (map gen_field sch)"
    using struct_items_declare [OF assms(1,3)] assms(2) by simp
  have "map_type (gen_shape (StructOf sch)) '''' 0 = Inr (StructOf out)"
    using assms(4) shape by (simp add: struct_fields_def)
  from gen_mapped_as [OF gen this] same have unchanged: "map regen_field sch = sch"
    unfolding regen_type_struct by simp
  then have "regen_field (Field n (ListOf (Field i ty True m)) nl m') = Field n (ListOf (Field i ty True m)) nl m'"
    by (rule map_fixed [OF _ assms(5)])
  then show False by (simp add: regen_field_def field_new_def)
qed

text \<open>
  A list whose items may be null is declared with required items: the generated contract
  never has the schema it was generated from, and so refuses the batches of that schema.
\<close>

theorem nullable_item_lost:
  assumes "struct_items name sch = Inr structs" and "declared_shape name structs = Some shape"
    and "distinct (map rs_name structs)" and "schema shape = Inr out"
    and "Field n (ListOf (Field i ty True m)) nl m' \<in> set sch"
  shows "out \<noteq> sch"
  by (rule item_validity_lost [OF assms])

lemma nullable_item_lost_witness:
  "[Field ''tags'' (ListOf (Field ''item'' Utf8 False [])) False []] \<noteq>
   [Field ''tags'' (ListOf (Field ''item'' Utf8 True [])) False []]"
proof (rule nullable_item_lost [where n = "''tags''" and i = "''item''" and ty = Utf8 and m = "[]"
      and nl = False and m' = "[]"])
  show "struct_items ''Row'' [Field ''tags'' (ListOf (Field ''item'' Utf8 True [])) False []] =
      Inr [\<lparr>rs_name = ''Row'', rs_connector = True, rs_fields = [(''tags'', VecType (PrimType ''String''))]\<rparr>]"
    by code_simp
  show "declared_shape ''Row''
      [\<lparr>rs_name = ''Row'', rs_connector = True, rs_fields = [(''tags'', VecType (PrimType ''String''))]\<rparr>] =
      Some (Struct [FieldShape ''tags'' (Sequence (Primitive ''String'')) False])"
    by (simp add: declared_shape_def)
  show "schema (Struct [FieldShape ''tags'' (Sequence (Primitive ''String'')) False]) =
      Inr [Field ''tags'' (ListOf (Field ''item'' Utf8 False [])) False []]"
    by (simp add: struct_fields_def map_field.simps field_new_def)
qed simp_all

subsection \<open>From a contract to source and back\<close>

text \<open>No list item is optional.\<close>

primrec required_items :: "type_shape \<Rightarrow> bool" and required_field :: "field_shape \<Rightarrow> bool" where
  "required_items (Primitive p) \<longleftrightarrow> True"
| "required_items (Optional t) \<longleftrightarrow> required_items t"
| "required_items (Sequence t) \<longleftrightarrow> required_items t \<and> \<not> is_optional t"
| "required_items (MapOf k v) \<longleftrightarrow> True"
| "required_items (Struct fs) \<longleftrightarrow> (\<forall>b \<in> set (map required_field fs). b)"
| "required_field (FieldShape n s d) \<longleftrightarrow> required_items s"

lemma required_field_shape: "required_field f \<longleftrightarrow> required_items (fs_shape f)"
  by (cases f) simp

lemma optional_stripped: "\<not> is_optional s \<Longrightarrow> strip_optional s = (s, False)"
  by (cases s) auto

lemma mapping_regenerates:
  shows "map_field name shape path depth = Inr f \<Longrightarrow> required_items shape \<Longrightarrow> generable (f_type f) \<Longrightarrow>
      f_name f = name \<and> gen_field f = FieldShape name (canonical shape) False"
    and "map_type s path depth = Inr ty \<Longrightarrow> required_items s \<Longrightarrow> generable ty \<Longrightarrow>
      gen_shape ty = canonical s"
    and "struct_loop prior fs path depth = Inr ms \<Longrightarrow> (\<forall>f \<in> set fs. required_field f) \<Longrightarrow>
      generable (StructOf ms) \<Longrightarrow> map gen_field ms = map canonical_field fs"
proof (induction name shape path depth and s path depth and prior fs path depth
    arbitrary: f and ty and ms rule: map_field_map_type_struct_loop.induct)
  case (1 name shape path depth)
  obtain s n where s: "strip_optional shape = (s, n)" by fastforce
  then have "required_items shape = required_items s" by (cases shape) auto
  with 1 s strip_canonical [OF s] show ?case
    by (auto simp: map_field.simps gen_field_def field_new_def split: sum.splits if_splits)
next
  case (3 p path depth)
  then show ?case by (auto simp: primitive_type_def split: if_splits)
next
  case (4 item path depth)
  then show ?case
    by (auto simp: gen_field_def optional_stripped map_field.simps field_new_def
        split: sum.splits if_splits)
next
  case (8 prior f fs path depth)
  then show ?case
    by (auto simp: Let_def canonical_field_alt required_field_shape split: sum.splits if_splits)
qed (auto split: sum.splits if_splits)

text \<open>
  Generating a struct from the schema of a contract whose list items are required gives
  that contract back, up to declared defaults and \<open>str\<close> for \<open>String\<close>.
\<close>

theorem contract_source_round_trip:
  assumes "schema s = Inr sch" and "required_items s"
    and "struct_items name sch = Inr structs" and "distinct (map rs_name structs)"
  shows "declared_shape name structs = Some (canonical s)"
proof -
  from assms(1) obtain fs where s: "s = Struct fs" "struct_loop [] fs '''' 0 = Inr sch"
    by (cases s) (auto simp: struct_fields_def)
  have "generable (StructOf sch)" using assms(3) struct_items_succeed [of name sch] by blast
  with mapping_regenerates(3) [OF s(2)] assms(2) s(1)
  have "map gen_field sch = map canonical_field fs" by simp
  with struct_items_declare [OF assms(3,4)] s(1) show ?thesis by simp
qed

lemma contract_source_round_trip_witness:
  "declared_shape ''Order'' [\<lparr>rs_name = ''OrderParts'', rs_connector = False,
       rs_fields = [(''sku'', PrimType ''String'')]\<rparr>,
     \<lparr>rs_name = ''Order'', rs_connector = True,
       rs_fields = [(''id'', PrimType ''i64''), (''parts'', OptionType (StructType ''OrderParts''))]\<rparr>]
   = Some (canonical (Struct [FieldShape ''id'' (Primitive ''i64'') True,
       FieldShape ''parts'' (Optional (Struct [FieldShape ''sku'' (Primitive ''str'') False])) False]))"
proof (rule contract_source_round_trip)
  show "schema (Struct [FieldShape ''id'' (Primitive ''i64'') True,
       FieldShape ''parts'' (Optional (Struct [FieldShape ''sku'' (Primitive ''str'') False])) False]) =
     Inr [Field ''id'' Int64 False [], Field ''parts'' (StructOf [Field ''sku'' Utf8 False []]) True []]"
    by (simp add: struct_fields_def map_field.simps field_new_def primitive_type_def)
  show "struct_items ''Order''
      [Field ''id'' Int64 False [], Field ''parts'' (StructOf [Field ''sku'' Utf8 False []]) True []] =
     Inr [\<lparr>rs_name = ''OrderParts'', rs_connector = False,
       rs_fields = [(''sku'', PrimType ''String'')]\<rparr>,
     \<lparr>rs_name = ''Order'', rs_connector = True,
       rs_fields = [(''id'', PrimType ''i64''), (''parts'', OptionType (StructType ''OrderParts''))]\<rparr>]"
    by code_simp
qed simp_all

text \<open>
  Names are glued together without a separator, so different paths can give one struct name;
  the generated source then does not compile.
\<close>

lemma struct_name_collision:
  "map_option (map rs_name) (case struct_items ''Row''
      [Field ''tags'' (ListOf (Field ''item'' (StructOf [Field ''a'' Utf8 False []]) False [])) False [],
       Field ''tags_item'' (StructOf [Field ''b'' Utf8 False []]) False []] of
     Inr structs \<Rightarrow> Some structs | Inl _ \<Rightarrow> None) =
   Some [''RowTagsItem'', ''RowTagsItem'', ''Row'']"
  by code_simp

lemma collision_does_not_compile:
  assumes "\<not> distinct (map rs_name structs)"
  shows "declared_shape name structs = None"
proof -
  have "derive_contracts env structs = Some env' \<Longrightarrow>
      distinct (map rs_name structs) \<and> rs_name ` set structs \<inter> dom env = {}" for env env'
  proof (induction structs arbitrary: env)
    case (Cons s ss)
    then obtain flds where step: "rs_name s \<notin> dom env"
      "derive_contracts (env(rs_name s \<mapsto> Struct flds)) ss = Some env'"
      by (auto split: if_splits option.splits)
    from Cons.IH [OF step(2)] step(1) show ?case by auto
  qed simp
  with assms show ?thesis by (cases "derive_contracts Map.empty structs") (auto simp: declared_shape_def)
qed

end
