(* ===== verification/DeclaredTypes.thy ===== *)
theory DeclaredTypes
  imports StructSource
begin

text \<open>
  Schemas declared as text (src/crates/schema-codegen/src/text_types.rs, dbt.rs, erwin.rs):
  the type grammar, and the schemas of a dbt \<open>schema.yml\<close> model and of an Erwin entity.  The
  YAML and XML parsers are parameters that return the parsed documents.
\<close>

subsection \<open>The type grammar\<close>

definition primitive_from_token :: "string \<Rightarrow> data_type option" where
  "primitive_from_token token =
     (if token \<in> {''boolean'', ''bool''} then Some Boolean
      else if token \<in> {''int8'', ''tinyint''} then Some Int8
      else if token \<in> {''int16'', ''smallint''} then Some Int16
      else if token \<in> {''int32'', ''integer'', ''int''} then Some Int32
      else if token \<in> {''int64'', ''bigint''} then Some Int64
      else if token = ''uint8'' then Some UInt8
      else if token = ''uint16'' then Some UInt16
      else if token = ''uint32'' then Some UInt32
      else if token = ''uint64'' then Some UInt64
      else if token \<in> {''float32'', ''float'', ''real''} then Some Float32
      else if token \<in> {''float64'', ''double'', ''double precision''} then Some Float64
      else if token \<in> {''string'', ''varchar'', ''text'', ''character varying'', ''char''} then Some Utf8
      else None)"

text \<open>
  \<open>s.get(..prefix.len())\<close> is also \<open>None\<close> off a character boundary; there the bytes are not
  ASCII and do not match either.
\<close>

definition strip_wrapper :: "string \<Rightarrow> string \<Rightarrow> string option" where
  "strip_wrapper s prefix =
     (if length s < length prefix then None
      else if map to_ascii_lower (take (length prefix) s) \<noteq> map to_ascii_lower prefix then None
      else strip_suffix CHR ''>'' (drop (length prefix) s))"

text \<open>
  The loop of \<open>split_top_level_commas\<close> at a nesting depth: the slice being read is the head
  of the result.
\<close>

definition push :: "char \<Rightarrow> string list \<Rightarrow> string list" where
  "push c parts = (case parts of part # rest \<Rightarrow> (c # part) # rest | [] \<Rightarrow> [[c]])"

fun split_from :: "nat \<Rightarrow> string \<Rightarrow> string list" where
  "split_from depth [] = [[]]"
| "split_from depth (c # cs) =
     (if c = CHR ''<'' then push c (split_from (depth + 1) cs)
      else if c = CHR ''>'' then push c (split_from (depth - 1) cs)
      else if c = CHR '','' \<and> depth = 0 then [] # split_from depth cs
      else push c (split_from depth cs))"

definition split_top_level_commas :: "string \<Rightarrow> string list" where
  "split_top_level_commas s = split_from 0 s"

lemma split_from_size: "sum_list (map (\<lambda>p. Suc (length p)) (split_from d s)) = Suc (length s)"
proof (induction d s rule: split_from.induct)
  case (2 depth c cs)
  have "sum_list (map (\<lambda>p. Suc (length p)) (push c ps)) = Suc (sum_list (map (\<lambda>p. Suc (length p)) ps))"
    if "ps \<noteq> []" for ps using that by (cases ps) (auto simp: push_def)
  moreover have "split_from d cs \<noteq> []" for d
    by (cases cs) (auto simp: push_def split: list.splits)
  ultimately show ?case using 2 by auto
qed simp

lemma strip_wrapper_eq:
  "strip_wrapper s p = Some t \<Longrightarrow> length p \<le> length s \<and> drop (length p) s = t @ [CHR ''>'']"
  by (auto simp: strip_wrapper_def strip_suffix_eq split: if_splits)

lemma strip_wrapper_length: "strip_wrapper s p = Some t \<Longrightarrow> length t + length p < length s"
  by (drule strip_wrapper_eq) (metis add.commute length_append_singleton length_drop less_add_Suc1 less_diff_conv lessI)

text \<open>\<open>declared_type_to_arrow\<close>, and its loop over the fields of a struct.\<close>

function (sequential) declared_type_to_arrow :: "string \<Rightarrow> data_type option"
  and declared_fields :: "string list \<Rightarrow> arrow_field list option" where
  "declared_type_to_arrow declared =
     (let trimmed = trim declared in
      case strip_wrapper trimmed ''array<'' of
        Some inner \<Rightarrow>
          map_option (\<lambda>item. ListOf (field_new ''item'' item True)) (declared_type_to_arrow inner)
      | None \<Rightarrow>
     (case strip_wrapper trimmed ''struct<'' of
        Some inner \<Rightarrow> map_option StructOf (declared_fields (split_top_level_commas inner))
      | None \<Rightarrow>
          primitive_from_token
            (map to_ascii_lower (trim (hd (split_at CHR ''('' trimmed))))))"
| "declared_fields [] = Some []"
| "declared_fields (part # parts) =
     (case split_once CHR '':'' part of
        None \<Rightarrow> None
      | Some (name, ty) \<Rightarrow>
     (case declared_type_to_arrow ty of
        None \<Rightarrow> None
      | Some t \<Rightarrow> map_option (\<lambda>fs. field_new (trim name) t True # fs) (declared_fields parts)))"
  by pat_completeness auto

termination declared_type_to_arrow
proof (relation "measure (\<lambda>x. case x of
    Inl s \<Rightarrow> length s | Inr ps \<Rightarrow> sum_list (map (\<lambda>p. Suc (length p)) ps))")
  fix declared x inner
  assume x: "x = trim declared"
  { assume "strip_wrapper x ''array<'' = Some inner"
    then have "length inner < length declared"
      using strip_wrapper_length trim_length [of declared] x by fastforce
    then show "(Inl inner, Inl declared) \<in> measure (\<lambda>x. case x of
        Inl s \<Rightarrow> length s | Inr ps \<Rightarrow> sum_list (map (\<lambda>p. Suc (length p)) ps))" by simp }
  { assume "strip_wrapper x ''struct<'' = Some inner"
    then have "Suc (length inner) < length declared"
      using strip_wrapper_length trim_length [of declared] x by fastforce
    then show "(Inr (split_top_level_commas inner), Inl declared) \<in> measure (\<lambda>x. case x of
        Inl s \<Rightarrow> length s | Inr ps \<Rightarrow> sum_list (map (\<lambda>p. Suc (length p)) ps))"
      by (simp add: split_top_level_commas_def split_from_size) }
qed (auto dest!: split_once_length)

declare declared_type_to_arrow.simps [simp del]

subsection \<open>Writing declared types\<close>

fun type_token :: "data_type \<Rightarrow> string option" where
  "type_token Boolean = Some ''boolean''"
| "type_token Int8 = Some ''int8''"
| "type_token Int16 = Some ''int16''"
| "type_token Int32 = Some ''int32''"
| "type_token Int64 = Some ''int64''"
| "type_token UInt8 = Some ''uint8''"
| "type_token UInt16 = Some ''uint16''"
| "type_token UInt32 = Some ''uint32''"
| "type_token UInt64 = Some ''uint64''"
| "type_token Float32 = Some ''float32''"
| "type_token Float64 = Some ''float64''"
| "type_token Utf8 = Some ''string''"
| "type_token _ = None"

function (sequential) type_text :: "data_type \<Rightarrow> string" where
  "type_text (ListOf f) = ''array<'' @ type_text (f_type f) @ ''>''"
| "type_text (StructOf fs) =
     ''struct<'' @ join CHR '','' (map (\<lambda>f. f_name f @ CHR '':'' # type_text (f_type f)) fs) @ ''>''"
| "type_text ty = the (type_token ty)"
  by pat_completeness auto
termination type_text
  by (relation "measure size") (auto simp: nested_type_smaller intro: less_SucI [OF f_type_smaller])

text \<open>
  What the notation can say: every nested value is nullable, list items are called \<open>item\<close>,
  and names contain no separator and no white space around them.
\<close>

definition plain_name :: "string \<Rightarrow> bool" where
  "plain_name n \<longleftrightarrow> trim n = n \<and> list_all (\<lambda>c. c \<notin> {CHR '','', CHR '':'', CHR ''<'', CHR ''>''}) n"

function (sequential) writable :: "data_type \<Rightarrow> bool" where
  "writable (ListOf f) \<longleftrightarrow>
     f_name f = ''item'' \<and> f_nullable f \<and> f_meta f = [] \<and> writable (f_type f)"
| "writable (StructOf fs) \<longleftrightarrow> fs \<noteq> [] \<and>
     (\<forall>f \<in> set fs. plain_name (f_name f) \<and> f_nullable f \<and> f_meta f = [] \<and> writable (f_type f))"
| "writable ty \<longleftrightarrow> type_token ty \<noteq> None"
  by pat_completeness auto
termination writable
  by (relation "measure size") (auto simp: nested_type_smaller intro: less_SucI [OF f_type_smaller])

subsection \<open>Splitting nested texts\<close>

text \<open>Prefixing the slice being read, and texts the splitting passes over as a whole.\<close>

definition prepend :: "string \<Rightarrow> string list \<Rightarrow> string list" where
  "prepend s parts = (case parts of part # rest \<Rightarrow> (s @ part) # rest | [] \<Rightarrow> [s])"

definition sealed :: "nat \<Rightarrow> string \<Rightarrow> bool" where
  "sealed least s \<longleftrightarrow> (\<forall>d \<ge> least. \<forall>t. split_from d (s @ t) = prepend s (split_from d t))"

lemma push_prepend: "push c parts = prepend [c] parts"
  by (simp add: push_def prepend_def split: list.split)

lemma prepend_prepend: "prepend s (prepend t parts) = prepend (s @ t) parts"
  by (simp add: prepend_def split: list.split)

lemma split_from_nonempty: "split_from d s \<noteq> []"
  by (induction d s rule: split_from.induct) (auto simp: push_def split: list.splits)

lemma prepend_Nil [simp]: "prepend [] (split_from d t) = split_from d t"
  using split_from_nonempty [of d t] by (simp add: prepend_def split: list.split)

lemma sealed_Nil: "sealed n []"
  by (simp add: sealed_def)

lemma sealed_append: "sealed n s \<Longrightarrow> sealed n t \<Longrightarrow> sealed n (s @ t)"
  by (simp add: sealed_def prepend_prepend)

lemma sealed_mono: "sealed n s \<Longrightarrow> n \<le> m \<Longrightarrow> sealed m s"
  by (simp add: sealed_def)

lemma sealed_char: "c \<noteq> CHR ''<'' \<Longrightarrow> c \<noteq> CHR ''>'' \<Longrightarrow> c \<noteq> CHR '','' \<Longrightarrow> sealed n [c]"
  by (simp add: sealed_def push_prepend)

lemma sealed_comma: "sealed (Suc n) '',''"
  by (auto simp: sealed_def push_prepend)

lemma sealed_text: "list_all (\<lambda>c. c \<notin> {CHR '','', CHR ''<'', CHR ''>''}) s \<Longrightarrow> sealed n s"
proof (induction s)
  case (Cons c s)
  then have "sealed n [c]" "sealed n s" by (auto intro: sealed_char)
  from sealed_append [OF this] show ?case by simp
qed (simp add: sealed_Nil)

lemma sealed_brackets: "sealed (Suc n) s \<Longrightarrow> sealed n (''<'' @ s @ ''>'')"
  by (simp add: sealed_def push_prepend prepend_prepend)

lemma sealed_join: "\<forall>s \<in> set ss. sealed (Suc n) s \<Longrightarrow> sealed (Suc n) (join CHR '','' ss)"
proof (induction "CHR '',''" ss rule: join.induct)
  case (3 s t ss)
  then have "sealed (Suc n) (s @ '','' @ join CHR '','' (t # ss))"
    by (intro sealed_append sealed_comma) simp_all
  then show ?case by simp
qed (simp_all add: sealed_Nil)

lemma split_sealed_join:
  "ss \<noteq> [] \<Longrightarrow> \<forall>s \<in> set ss. sealed 0 s \<Longrightarrow> split_from 0 (join CHR '','' ss) = ss"
proof (induction "CHR '',''" ss rule: join.induct)
  case (2 s)
  then have "sealed 0 s" by simp
  then have "split_from 0 (s @ []) = prepend s (split_from 0 [])" unfolding sealed_def by blast
  then show ?case by (simp add: prepend_def)
next
  case (3 s t ss)
  then have "split_from 0 (s @ CHR '','' # join CHR '','' (t # ss)) =
      prepend s (split_from 0 (CHR '','' # join CHR '','' (t # ss)))" unfolding sealed_def by simp
  with 3 show ?case by (simp add: prepend_def)
qed simp

lemma token_cases:
  "type_token ty = Some s \<Longrightarrow>
     sealed n s \<and> s \<noteq> [] \<and> visible (hd s) \<and> visible (last s) \<and> CHR ''('' \<notin> set s \<and>
     strip_wrapper s ''array<'' = None \<and> strip_wrapper s ''struct<'' = None \<and>
     primitive_from_token (map to_ascii_lower s) = Some ty"
  by (erule type_token.elims)
    (simp_all add: sealed_text visible_def strip_wrapper_def to_ascii_lower_def is_ascii_uppercase_def
      primitive_from_token_def)

lemma field_text_sealed:
  assumes "plain_name name" and "sealed n text"
  shows "sealed n (name @ CHR '':'' # text)"
proof -
  have "sealed n name" using assms(1) by (intro sealed_text) (auto simp: plain_name_def list_all_iff)
  moreover have "sealed n '':''" by (simp add: sealed_char)
  ultimately have "sealed n (name @ '':'' @ text)" using assms(2) by (intro sealed_append)
  then show ?thesis by simp
qed

lemma type_text_sealed: "writable ty \<Longrightarrow> sealed n (type_text ty)"
proof (induction ty arbitrary: n rule: writable.induct)
  case (1 f)
  then have "sealed n (''array'' @ ''<'' @ type_text (f_type f) @ ''>'')"
    by (intro sealed_append [OF sealed_text] sealed_brackets) simp_all
  then show ?case by simp
next
  case (2 fs)
  then have "\<forall>f \<in> set fs. sealed (Suc n) (f_name f @ CHR '':'' # type_text (f_type f))"
    by (auto intro: field_text_sealed)
  then have "sealed (Suc n) (join CHR '','' (map (\<lambda>f. f_name f @ CHR '':'' # type_text (f_type f)) fs))"
    by (intro sealed_join) simp
  from sealed_append [OF sealed_text sealed_brackets [OF this], of "''struct''"] show ?case by simp
qed (simp_all add: sealed_text)

subsection \<open>Reading what was written\<close>

lemma type_text_ends:
  "writable ty \<Longrightarrow> type_text ty \<noteq> [] \<and> visible (hd (type_text ty)) \<and> visible (last (type_text ty))"
  by (induction ty rule: writable.induct) (simp_all add: visible_def)

lemma trim_type_text [simp]: "writable ty \<Longrightarrow> trim (type_text ty) = type_text ty"
  using type_text_ends by (intro trim_visible) blast

lemma strip_wrapper_array: "strip_wrapper (''array<'' @ s @ ''>'') ''array<'' = Some s"
  by (simp add: strip_wrapper_def strip_suffix_def)

lemma strip_wrapper_struct:
  "strip_wrapper (''struct<'' @ s @ ''>'') ''array<'' = None"
  "strip_wrapper (''struct<'' @ s @ ''>'') ''struct<'' = Some s"
  by (simp_all add: strip_wrapper_def strip_suffix_def to_ascii_lower_def is_ascii_uppercase_def)

lemma declared_array:
  assumes "trim s = s" and "strip_wrapper s ''array<'' = Some inner"
  shows "declared_type_to_arrow s =
    map_option (\<lambda>item. ListOf (field_new ''item'' item True)) (declared_type_to_arrow inner)"
  using assms by (simp add: declared_type_to_arrow.simps [of s])

lemma declared_struct:
  assumes "trim s = s" and "strip_wrapper s ''array<'' = None" and "strip_wrapper s ''struct<'' = Some inner"
  shows "declared_type_to_arrow s = map_option StructOf (declared_fields (split_from 0 inner))"
  using assms by (simp add: declared_type_to_arrow.simps [of s] split_top_level_commas_def)

lemma read_token:
  assumes "type_token ty = Some s"
  shows "declared_type_to_arrow s = Some ty"
proof -
  note s = token_cases [OF assms]
  then have "trim s = s" by (intro trim_visible) simp
  moreover have "split_at CHR ''('' s = [s]" using s by (intro split_chars_none) (auto simp: list_all_iff)
  ultimately show ?thesis using s by (simp add: declared_type_to_arrow.simps [of s])
qed

lemma read_fields:
  assumes "\<forall>f \<in> set fs. plain_name (f_name f) \<and> f_nullable f \<and> f_meta f = [] \<and>
    declared_type_to_arrow (type_text (f_type f)) = Some (f_type f)"
  shows "declared_fields (map (\<lambda>f. f_name f @ CHR '':'' # type_text (f_type f)) fs) = Some fs"
  using assms
proof (induction fs)
  case (Cons f fs)
  then have "CHR '':'' \<notin> set (f_name f)" "trim (f_name f) = f_name f"
    by (auto simp: plain_name_def list_all_iff)
  with Cons show ?case by (cases f) (auto simp: split_once_at field_new_def)
qed simp

lemma read_type_text: "writable ty \<Longrightarrow> declared_type_to_arrow (type_text ty) = Some ty"
proof (induction ty rule: writable.induct)
  case (1 f)
  have "strip_wrapper (type_text (ListOf f)) ''array<'' = Some (type_text (f_type f))"
    unfolding type_text.simps by (rule strip_wrapper_array)
  from declared_array [OF trim_type_text [OF 1(2)] this] 1 show ?case
    by (cases f) (simp add: field_new_def)
next
  case (2 fs)
  let ?parts = "map (\<lambda>f. f_name f @ CHR '':'' # type_text (f_type f)) fs"
  have "split_from 0 (join CHR '','' ?parts) = ?parts"
    using 2(2) by (intro split_sealed_join) (auto intro: field_text_sealed type_text_sealed)
  moreover have "declared_fields ?parts = Some fs" using 2 by (intro read_fields) auto
  moreover have "strip_wrapper (type_text (StructOf fs)) ''array<'' = None"
    "strip_wrapper (type_text (StructOf fs)) ''struct<'' = Some (join CHR '','' ?parts)"
    unfolding type_text.simps by (rule strip_wrapper_struct)+
  ultimately show ?case using declared_struct [OF trim_type_text [OF 2(2)]] by simp
qed (simp_all add: read_token)

text \<open>
  C30. The type notation is faithful: every type it can say - nested lists and structs of
  nullable values, any number of levels - reads back as itself.
\<close>

theorem declared_type_round_trip:
  assumes "writable ty"
  shows "declared_type_to_arrow (type_text ty) = Some ty"
  by (rule read_type_text [OF assms])

lemma declared_type_round_trip_witness:
  "declared_type_to_arrow (type_text (StructOf [Field ''id'' Int64 True [],
     Field ''parts'' (ListOf (Field ''item'' (StructOf [Field ''sku'' Utf8 True [],
       Field ''qty'' Int32 True []]) True [])) True []])) =
   Some (StructOf [Field ''id'' Int64 True [],
     Field ''parts'' (ListOf (Field ''item'' (StructOf [Field ''sku'' Utf8 True [],
       Field ''qty'' Int32 True []]) True [])) True []])"
  by (rule declared_type_round_trip) (simp add: plain_name_def trim_visible visible_def)

text \<open>
  A precision suffix is ignored at the top, where the text is cut at the parenthesis, but the
  comma inside it separates fields of a struct.
\<close>

lemma precision_suffix:
  "declared_type_to_arrow ''float(10,2)'' = Some Float32"
  "declared_type_to_arrow ''struct<a:float(10,2)>'' = None"
proof -
  show "declared_type_to_arrow ''float(10,2)'' = Some Float32"
    by (simp add: declared_type_to_arrow.simps [of "''float(10,2)''"] trim_visible visible_def
        strip_wrapper_def to_ascii_lower_def is_ascii_uppercase_def primitive_from_token_def)
  have "strip_wrapper ''struct<a:float(10,2)>'' ''struct<'' = Some ''a:float(10,2)''"
    "strip_wrapper ''struct<a:float(10,2)>'' ''array<'' = None"
    by (simp_all add: strip_wrapper_def strip_suffix_def to_ascii_lower_def is_ascii_uppercase_def)
  moreover have "split_from 0 ''a:float(10,2)'' = [''a:float(10'', ''2)'']" by (simp add: push_def)
  moreover have "split_once CHR '':'' ''2)'' = None" by simp
  ultimately show "declared_type_to_arrow ''struct<a:float(10,2)>'' = None"
    by (simp add: declared_struct trim_visible visible_def split: option.split)
qed

subsection \<open>Every declared type can be generated\<close>

function (sequential) leaves_mapped :: "data_type \<Rightarrow> bool" where
  "leaves_mapped (ListOf f) \<longleftrightarrow> leaves_mapped (f_type f)"
| "leaves_mapped (LargeListOf f) \<longleftrightarrow> leaves_mapped (f_type f)"
| "leaves_mapped (StructOf fs) \<longleftrightarrow> (\<forall>f \<in> set fs. leaves_mapped (f_type f))"
| "leaves_mapped ty \<longleftrightarrow> rust_primitive ty \<noteq> None"
  by pat_completeness auto
termination leaves_mapped
  by (relation "measure size") (auto simp: nested_type_smaller intro: less_SucI [OF f_type_smaller])

lemma token_mapped: "primitive_from_token t = Some ty \<Longrightarrow> leaves_mapped ty"
  by (auto simp: primitive_from_token_def split: if_splits)

lemma declared_leaves:
  shows "declared_type_to_arrow s = Some ty \<Longrightarrow> leaves_mapped ty"
    and "declared_fields ps = Some fs \<Longrightarrow> \<forall>f \<in> set fs. leaves_mapped (f_type f)"
proof (induction s and ps arbitrary: ty and fs rule: declared_type_to_arrow_declared_fields.induct)
  case (1 declared)
  from 1(3) show ?case
    by (subst (asm) declared_type_to_arrow.simps)
      (auto simp: Let_def field_new_def token_mapped dest: 1(1) [OF refl] 1(2) [OF refl]
        split: option.splits)
next
  case (3 part parts)
  then show ?case by (auto simp: field_new_def split: option.splits prod.splits)
qed simp

lemma tokens_only_names:
  shows "field_type_tokens en hint ty nested = Inl e \<Longrightarrow> leaves_mapped ty \<Longrightarrow> \<exists>p. e = InvalidFieldName p"
    and "nested_fields en hint fs nested = Inl e \<Longrightarrow> leaves_mapped (StructOf fs) \<Longrightarrow>
      \<exists>p. e = InvalidFieldName p"
proof (induction en hint ty nested and en hint fs nested rule: field_type_tokens_nested_fields.induct)
  case (6 en hint n ty nl m fs nested)
  show ?case
  proof (cases "is_valid_rust_identifier n")
    case True
    let ?first = "field_type_tokens (en @ ''.'' @ n) (hint @ to_pascal_case n) ty nested"
    show ?thesis
    proof (cases ?first)
      case (Inl e')
      with 6(3) True have "e' = e" by (simp add: Let_def)
      with 6(1) [OF refl _ ] True Inl 6(4) show ?thesis by simp
    next
      case (Inr r)
      obtain t nested1 where r: "r = (t, nested1)" by fastforce
      with 6(3) True Inr have "nested_fields en hint fs nested1 = Inl e"
        by (auto simp: Let_def and_then_eq_Inl)
      with 6(2) [OF refl _ ] True 6(4) show ?thesis by simp
    qed
  qed (use 6(3) in auto)
qed (simp_all add: and_then_eq_Inl)

lemma struct_items_only_names:
  assumes "struct_items name sch = Inl e" and "\<forall>f \<in> set sch. leaves_mapped (f_type f)"
  shows "\<exists>p. e = InvalidFieldName p"
proof -
  have "top_fields name fs nested = Inl e \<Longrightarrow> \<forall>f \<in> set fs. leaves_mapped (f_type f) \<Longrightarrow>
      \<exists>p. e = InvalidFieldName p" for fs nested
    by (induction fs arbitrary: nested)
      (auto simp: and_then_eq_Inl dest: tokens_only_names(1) split: if_splits)
  with assms show ?thesis by (auto simp: struct_items_def and_then_eq_Inl)
qed

subsection \<open>dbt models\<close>

datatype yaml_value =
    YamlNull
  | YamlBool bool
  | YamlNumber string
  | YamlString string
  | YamlSequence "yaml_value list"
  | YamlMapping "(yaml_value \<times> yaml_value) list"
  | YamlTagged string yaml_value

text \<open>\<open>Value::as_str\<close> looks through tags; the patterns of a \<open>match\<close> do not.\<close>

fun as_str :: "yaml_value \<Rightarrow> string option" where
  "as_str (YamlString s) = Some s"
| "as_str (YamlTagged tag v) = as_str v"
| "as_str _ = None"

record dbt_column =
  dc_name :: string
  dc_data_type :: "string option"
  dc_tests :: "yaml_value list"

record dbt_model =
  dm_name :: string
  dm_columns :: "dbt_column list"

fun is_not_null_test :: "yaml_value \<Rightarrow> bool" where
  "is_not_null_test (YamlString name) \<longleftrightarrow> name = ''not_null''"
| "is_not_null_test (YamlMapping entries) \<longleftrightarrow> list_ex (\<lambda>(key, _). as_str key = Some ''not_null'') entries"
| "is_not_null_test _ \<longleftrightarrow> False"

definition dbt_field :: "dbt_column \<Rightarrow> codegen_error + arrow_field" where
  "dbt_field column =
     (let declared = (case dc_data_type column of Some d \<Rightarrow> d | None \<Rightarrow> ''<none>'') in
      and_then (ok_or (UnsupportedDeclaredType (dc_name column) declared) (declared_type_to_arrow declared))
        (\<lambda>ty. Inr (field_new (dc_name column) ty (\<not> list_ex is_not_null_test (dc_tests column)))))"

text \<open>\<open>from_str\<close> is the YAML parser, with serde's decoding into \<open>SchemaFile\<close>.\<close>

definition parse_dbt_schema_yml ::
    "(string \<Rightarrow> string + dbt_model list) \<Rightarrow> string \<Rightarrow> string \<Rightarrow> codegen_error + arrow_schema" where
  "parse_dbt_schema_yml from_str yaml model_name =
     and_then (map_err ParseDbtYaml (from_str yaml)) (\<lambda>models.
     and_then (ok_or (ModelNotFound model_name) (find (\<lambda>m. dm_name m = model_name) models))
       (\<lambda>model. try_map dbt_field (dm_columns model)))"

subsection \<open>Erwin entities\<close>

datatype xml_node = Element string "(string \<times> string) list" "xml_node list" | OtherNode

fun has_tag_name :: "string \<Rightarrow> xml_node \<Rightarrow> bool" where
  "has_tag_name tag (Element name attrs children) \<longleftrightarrow> name = tag"
| "has_tag_name tag OtherNode \<longleftrightarrow> False"

fun attribute :: "string \<Rightarrow> xml_node \<Rightarrow> string option" where
  "attribute key (Element name attrs children) = map_of attrs key"
| "attribute key OtherNode = None"

fun child_nodes :: "xml_node \<Rightarrow> xml_node list" where
  "child_nodes (Element name attrs children) = children"
| "child_nodes OtherNode = []"

text \<open>Document order.\<close>

primrec descendants :: "xml_node \<Rightarrow> xml_node list" where
  "descendants (Element name attrs children) =
     Element name attrs children # concat (map descendants children)"
| "descendants OtherNode = [OtherNode]"

definition erwin_field :: "xml_node \<Rightarrow> codegen_error + arrow_field" where
  "erwin_field node =
     (let name = (case attribute ''name'' node of Some n \<Rightarrow> n | None \<Rightarrow> '''');
          declared = (case attribute ''type'' node of Some d \<Rightarrow> d | None \<Rightarrow> ''<none>'') in
      and_then (ok_or (UnsupportedDeclaredType name declared) (declared_type_to_arrow declared))
        (\<lambda>ty. Inr (field_new name ty
          (case attribute ''nullable'' node of Some v \<Rightarrow> v = ''true'' | None \<Rightarrow> True))))"

text \<open>\<open>parse\<close> is the XML parser; a document is its list of top nodes.\<close>

definition parse_erwin_xml ::
    "(string \<Rightarrow> string + xml_node list) \<Rightarrow> string \<Rightarrow> string \<Rightarrow> codegen_error + arrow_schema" where
  "parse_erwin_xml parse xml entity_name =
     and_then (map_err ParseErwinXml (parse xml)) (\<lambda>document.
     and_then (ok_or (EntityNotFound entity_name)
         (find (\<lambda>n. has_tag_name ''Entity'' n \<and> attribute ''name'' n = Some entity_name)
           (concat (map descendants document))))
       (\<lambda>entity. try_map erwin_field (filter (has_tag_name ''Attribute'') (child_nodes entity))))"

subsection \<open>Properties of declared schemas\<close>

lemma dbt_field_eq:
  "dbt_field c = Inr f \<longleftrightarrow>
     (\<exists>d. dc_data_type c = Some d \<and>
       (\<exists>ty. declared_type_to_arrow d = Some ty \<and>
          f = field_new (dc_name c) ty (\<not> list_ex is_not_null_test (dc_tests c))))"
proof -
  have "declared_type_to_arrow ''<none>'' = None"
    by (simp add: declared_type_to_arrow.simps [of "''<none>''"] trim_visible visible_def
        strip_wrapper_def to_ascii_lower_def is_ascii_uppercase_def primitive_from_token_def)
  then show ?thesis
    by (cases "dc_data_type c") (auto simp: dbt_field_def Let_def and_then_eq_Inr)
qed

text \<open>
  A dbt model is read column by column: the first model of that name, every column with a
  declared type, in order, under its own name, required exactly if it carries a \<open>not_null\<close>
  test.
\<close>

theorem dbt_schema_read:
  "parse_dbt_schema_yml from_str yaml model_name = Inr sch \<longleftrightarrow>
     (\<exists>models model. from_str yaml = Inr models \<and>
        find (\<lambda>m. dm_name m = model_name) models = Some model \<and>
        list_all2 (\<lambda>c f. \<exists>d ty. dc_data_type c = Some d \<and> declared_type_to_arrow d = Some ty \<and>
            f = field_new (dc_name c) ty (\<not> list_ex is_not_null_test (dc_tests c)))
          (dm_columns model) sch)"
proof -
  have "try_map dbt_field cs = Inr sch \<longleftrightarrow>
      list_all2 (\<lambda>c f. \<exists>d ty. dc_data_type c = Some d \<and> declared_type_to_arrow d = Some ty \<and>
            f = field_new (dc_name c) ty (\<not> list_ex is_not_null_test (dc_tests c))) cs sch" for cs
    unfolding try_map_eq_Inr dbt_field_eq by (simp add: list_all2_iff)
  then show ?thesis by (auto simp: parse_dbt_schema_yml_def and_then_eq_Inr)
qed

lemma dbt_fields_mapped:
  assumes "parse_dbt_schema_yml from_str yaml model_name = Inr sch" and "f \<in> set sch"
  shows "leaves_mapped (f_type f)"
proof -
  from assms(1) obtain cs where all: "list_all2 (\<lambda>c f. dbt_field c = Inr f) cs sch"
    by (auto simp: parse_dbt_schema_yml_def and_then_eq_Inr try_map_eq_Inr)
  obtain c where "dbt_field c = Inr f" using list_all2_right [OF all assms(2)] by auto
  then show ?thesis by (auto simp: dbt_field_eq field_new_def dest: declared_leaves(1))
qed

lemma erwin_fields_mapped:
  assumes "parse_erwin_xml parse xml entity = Inr sch" and "f \<in> set sch"
  shows "leaves_mapped (f_type f)"
proof -
  from assms(1) obtain ns where all: "list_all2 (\<lambda>n f. erwin_field n = Inr f) ns sch"
    by (auto simp: parse_erwin_xml_def and_then_eq_Inr try_map_eq_Inr)
  obtain n where "erwin_field n = Inr f" using list_all2_right [OF all assms(2)] by auto
  then show ?thesis
    by (auto simp: erwin_field_def Let_def and_then_eq_Inr field_new_def dest: declared_leaves(1))
qed

text \<open>
  A schema read from a dbt model or an Erwin entity has a Rust type for every leaf: the
  struct generated from it can only be refused for a name that is no identifier.
\<close>

theorem declared_schema_generable:
  assumes "parse_dbt_schema_yml from_str yaml model_name = Inr sch \<or>
      parse_erwin_xml parse xml entity = Inr sch"
    and "struct_items name sch = Inl e"
  shows "\<exists>path. e = InvalidFieldName path"
  using assms(1) struct_items_only_names [OF assms(2)] dbt_fields_mapped erwin_fields_mapped by blast

definition sample_models :: "dbt_model list" where
  "sample_models =
     [\<lparr>dm_name = ''orders'', dm_columns =
        [\<lparr>dc_name = ''order id'', dc_data_type = Some ''bigint'',
          dc_tests = [YamlString ''unique'', YamlMapping [(YamlString ''not_null'', YamlNull)]]\<rparr>,
         \<lparr>dc_name = ''tags'', dc_data_type = Some ''array<string>'', dc_tests = []\<rparr>]\<rparr>]"

definition sample_dbt_schema :: arrow_schema where
  "sample_dbt_schema =
     [Field ''order id'' Int64 False [], Field ''tags'' (ListOf (Field ''item'' Utf8 True [])) True []]"

lemma sample_types:
  "declared_type_to_arrow ''bigint'' = Some Int64"
  "declared_type_to_arrow ''array<string>'' = Some (ListOf (Field ''item'' Utf8 True []))"
proof -
  show "declared_type_to_arrow ''bigint'' = Some Int64"
    by (simp add: declared_type_to_arrow.simps [of "''bigint''"] trim_visible visible_def
        strip_wrapper_def to_ascii_lower_def is_ascii_uppercase_def primitive_from_token_def)
  show "declared_type_to_arrow ''array<string>'' = Some (ListOf (Field ''item'' Utf8 True []))"
    using read_type_text [of "ListOf (Field ''item'' Utf8 True [])"] by simp
qed

lemma sample_dbt:
  "parse_dbt_schema_yml (\<lambda>_. Inr sample_models) '''' ''orders'' = Inr sample_dbt_schema"
  by (simp add: parse_dbt_schema_yml_def sample_models_def sample_dbt_schema_def dbt_field_def
      sample_types field_new_def)

lemma declared_schema_generable_witness:
  "\<exists>path. InvalidFieldName ''order id'' = InvalidFieldName path"
proof (rule declared_schema_generable [OF disjI1 [OF sample_dbt]])
  show "struct_items ''Order'' sample_dbt_schema = Inl (InvalidFieldName ''order id'')"
    by code_simp
qed

text \<open>
  An array declared in a dbt model has nullable items, and the generated struct makes them
  required: such a contract never has the declared schema.
\<close>

theorem dbt_array_items_lost:
  assumes "parse_dbt_schema_yml from_str yaml model_name = Inr sch"
    and "f \<in> set sch" and "f_type f = ListOf item"
    and "struct_items name sch = Inr structs" and "distinct (map rs_name structs)"
    and "declared_shape name structs = Some shape" and "schema shape = Inr out"
  shows "f_nullable item \<and> out \<noteq> sch"
proof -
  have array: "declared_type_to_arrow s = Some (ListOf g) \<Longrightarrow> f_nullable g" for s g
  proof -
    assume "declared_type_to_arrow s = Some (ListOf g)"
    then show "f_nullable g"
      by (subst (asm) declared_type_to_arrow.simps)
        (auto simp: Let_def field_new_def primitive_from_token_def split: option.splits if_splits)
  qed
  from assms(1) obtain cs where all: "list_all2 (\<lambda>c f. dbt_field c = Inr f) cs sch"
    by (auto simp: parse_dbt_schema_yml_def and_then_eq_Inr try_map_eq_Inr)
  obtain c where "dbt_field c = Inr f" using list_all2_right [OF all assms(2)] by auto
  then obtain d nl where f: "declared_type_to_arrow d = Some (ListOf item)"
    "f = Field (f_name f) (ListOf item) nl []"
    using assms(3) by (auto simp: dbt_field_eq field_new_def)
  with array have "f_nullable item" by blast
  moreover from this f(2) assms(2)
  have "Field (f_name f) (ListOf (Field (f_name item) (f_type item) True (f_meta item))) nl [] \<in> set sch"
    by (cases item) simp
  ultimately show ?thesis using item_validity_lost [OF assms(4,6,5,7)] by blast
qed

lemma dbt_array_items_lost_witness:
  "f_nullable (Field ''item'' Utf8 True []) \<and>
   [Field ''tags'' (ListOf (Field ''item'' Utf8 False [])) True []] \<noteq>
   [Field ''tags'' (ListOf (Field ''item'' Utf8 True [])) True []]"
proof (rule dbt_array_items_lost [where f = "Field ''tags'' (ListOf (Field ''item'' Utf8 True [])) True []"])
  let ?column = "\<lparr>dc_name = ''tags'', dc_data_type = Some ''array<string>'', dc_tests = []\<rparr>"
  let ?structs = "[\<lparr>rs_name = ''Row'', rs_connector = True,
      rs_fields = [(''tags'', OptionType (VecType (PrimType ''String'')))]\<rparr>]"
  let ?shape = "Struct [FieldShape ''tags'' (Optional (Sequence (Primitive ''String''))) False]"
  show "parse_dbt_schema_yml (\<lambda>_. Inr [\<lparr>dm_name = ''m'', dm_columns = [?column]\<rparr>]) '''' ''m'' =
      Inr [Field ''tags'' (ListOf (Field ''item'' Utf8 True [])) True []]"
    by (simp add: parse_dbt_schema_yml_def dbt_field_def sample_types field_new_def)
  show "struct_items ''Row'' [Field ''tags'' (ListOf (Field ''item'' Utf8 True [])) True []] = Inr ?structs"
    by code_simp
  show "declared_shape ''Row'' ?structs = Some ?shape" by (simp add: declared_shape_def)
  show "schema ?shape = Inr [Field ''tags'' (ListOf (Field ''item'' Utf8 False [])) True []]"
    by (simp add: struct_fields_def map_field.simps field_new_def)
qed simp_all

end
