(* ===== verification/TransformOps.thy ===== *)
theory TransformOps
  imports StructSource Decimal
begin

text \<open>
  The transform grammar of the scaffolding command line
  (src/crates/schema-codegen/src/dataframe_ops.rs, src/crates/scaffold-cli/src/main.rs): the
  operations of a \<open>DataFrame\<close> chain and the texts they are parsed from.

  A floating point literal is kept as the text it was read from, of which only the grammar of
  \<open>f64::from_str\<close> is modelled.
\<close>

subsection \<open>Operations\<close>

datatype comparator = CmpEq | CmpNe | CmpGt | CmpLt | CmpGe | CmpLe

datatype literal = IntLit i64 | FloatLit string | BoolLit bool | StrLit string

datatype agg_fn = SumFn | CountFn | AvgFn | MinFn | MaxFn

record agg_expr =
  ae_column :: string
  ae_func :: agg_fn
  ae_alias :: string

record sort_key =
  sk_column :: string
  sk_ascending :: bool

datatype df_op =
    Select "string list"
  | FilterOp string comparator literal
  | Aggregate "string list" "agg_expr list"
  | Sort "sort_key list"
  | Limit usize

datatype cli_error =
    SchemaError codegen_error
  | WriteOutput string string
  | InvalidSpec string
  | MissingSourceData string
  | UnknownSourceFormat string
  | ConflictingTransform
  | InvalidTransformDf string

subsection \<open>Floating point texts\<close>

definition drop_sign :: "string \<Rightarrow> string" where
  "drop_sign s = (if s \<noteq> [] \<and> (hd s = CHR ''-'' \<or> hd s = CHR ''+'') then tl s else s)"

definition f64_exponent :: "string \<Rightarrow> bool" where
  "f64_exponent s \<longleftrightarrow>
     (case s of
        [] \<Rightarrow> True
      | e # rest \<Rightarrow> (e = CHR ''e'' \<or> e = CHR ''E'') \<and>
          drop_sign rest \<noteq> [] \<and> list_all is_ascii_digit (drop_sign rest))"

definition f64_number :: "string \<Rightarrow> bool" where
  "f64_number s \<longleftrightarrow>
     (let whole = takeWhile is_ascii_digit s; rest = dropWhile is_ascii_digit s in
      case rest of
        c # tail \<Rightarrow>
          (if c = CHR ''.''
           then (whole \<noteq> [] \<or> takeWhile is_ascii_digit tail \<noteq> []) \<and>
             f64_exponent (dropWhile is_ascii_digit tail)
           else whole \<noteq> [] \<and> f64_exponent rest)
      | [] \<Rightarrow> whole \<noteq> [])"

definition f64_special :: "string \<Rightarrow> bool" where
  "f64_special s \<longleftrightarrow> map to_ascii_lower s \<in> {''inf'', ''infinity'', ''nan''}"

definition f64_text :: "string \<Rightarrow> bool" where
  "f64_text s \<longleftrightarrow> f64_number (drop_sign s) \<or> f64_special (drop_sign s)"

subsection \<open>Parsing\<close>

definition parse_comparator :: "string \<Rightarrow> comparator option" where
  "parse_comparator text =
     (if text = ''eq'' then Some CmpEq
      else if text = ''ne'' then Some CmpNe
      else if text = ''gt'' then Some CmpGt
      else if text = ''lt'' then Some CmpLt
      else if text = ''ge'' then Some CmpGe
      else if text = ''le'' then Some CmpLe
      else None)"

definition parse_literal :: "string \<Rightarrow> literal" where
  "parse_literal text =
     (case parse_i64 text of
        Some n \<Rightarrow> IntLit n
      | None \<Rightarrow>
          if f64_text text then FloatLit text
          else if text = ''true'' then BoolLit True
          else if text = ''false'' then BoolLit False
          else StrLit text)"

definition parse_agg_fn :: "string \<Rightarrow> agg_fn option" where
  "parse_agg_fn text =
     (if text = ''sum'' then Some SumFn
      else if text = ''count'' then Some CountFn
      else if text = ''avg'' then Some AvgFn
      else if text = ''min'' then Some MinFn
      else if text = ''max'' then Some MaxFn
      else None)"

text \<open>\<open>collect::<Option<Vec<_>>>()\<close>.\<close>

fun collect_some :: "('a \<Rightarrow> 'b option) \<Rightarrow> 'a list \<Rightarrow> 'b list option" where
  "collect_some f [] = Some []"
| "collect_some f (x # xs) =
     Option.bind (f x) (\<lambda>y. map_option (\<lambda>ys. y # ys) (collect_some f xs))"

definition parse_agg_term :: "string \<Rightarrow> agg_expr option" where
  "parse_agg_term term =
     Option.bind (split_once CHR ''='' term) (\<lambda>(func_col, alias).
     Option.bind (split_once CHR ''('' func_col) (\<lambda>(func_name, column).
     Option.bind (strip_suffix CHR '')'' column) (\<lambda>column.
     Option.bind (parse_agg_fn func_name) (\<lambda>func.
       Some \<lparr>ae_column = column, ae_func = func, ae_alias = alias\<rparr>))))"

definition parse_aggregate :: "string \<Rightarrow> df_op option" where
  "parse_aggregate rest =
     Option.bind (split_once CHR '';'' rest) (\<lambda>(group_part, agg_part).
     Option.bind (strip_prefix ''group='' group_part) (\<lambda>group_cols.
       let group_by = (if group_cols = [] then [] else split_at CHR '','' group_cols) in
       map_option (Aggregate group_by) (collect_some parse_agg_term (split_at CHR '','' agg_part))))"

definition parse_sort_key :: "string \<Rightarrow> sort_key option" where
  "parse_sort_key term =
     Option.bind (split_once CHR '','' term) (\<lambda>(column, direction).
       if direction = ''asc'' then Some \<lparr>sk_column = column, sk_ascending = True\<rparr>
       else if direction = ''desc'' then Some \<lparr>sk_column = column, sk_ascending = False\<rparr>
       else None)"

definition parse_sort :: "string \<Rightarrow> df_op option" where
  "parse_sort rest = map_option Sort (collect_some parse_sort_key (split_at CHR '';'' rest))"

definition parse_filter :: "cli_error \<Rightarrow> string \<Rightarrow> cli_error + df_op" where
  "parse_filter invalid rest =
     (case splitn 3 CHR '','' rest of
        column # cmp # lit # _ \<Rightarrow>
          and_then (ok_or invalid (parse_comparator cmp)) (\<lambda>cmp.
            Inr (FilterOp column cmp (parse_literal lit)))
      | _ \<Rightarrow> Inl invalid)"

definition parse_df_op :: "string \<Rightarrow> cli_error + df_op" where
  "parse_df_op op_text =
     (let invalid = InvalidTransformDf op_text in
      case splitn 2 CHR '':'' op_text of
        kind # rest # _ \<Rightarrow>
          (if kind = ''select'' then Inr (Select (split_at CHR '','' rest))
           else if kind = ''filter'' then parse_filter invalid rest
           else if kind = ''aggregate'' then ok_or invalid (parse_aggregate rest)
           else if kind = ''sort'' then ok_or invalid (parse_sort rest)
           else if kind = ''limit'' then map_err (\<lambda>_. invalid) (ok_or () (map_option Limit (parse_usize rest)))
           else Inl invalid)
      | _ \<Rightarrow> Inl invalid)"

text \<open>Whatever is wrong with an operation, its whole text is reported.\<close>

lemma parse_filter_error: "parse_filter e rest = Inl e' \<Longrightarrow> e' = e"
  by (auto simp: parse_filter_def and_then_eq_Inl ok_or_eq_Inl split: list.splits)

lemma parse_df_op_error: "parse_df_op s = Inl e \<Longrightarrow> e = InvalidTransformDf s"
  by (cases "splitn 2 CHR '':'' s" rule: list.exhaust [case_names Nil Cons])
    (auto simp: parse_df_op_def Let_def ok_or_eq_Inl map_err_eq_Inl dest: parse_filter_error
      split: list.splits if_splits)

lemma parse_ops_error: "try_map parse_df_op ops = Inl e \<Longrightarrow> \<exists>s \<in> set ops. e = InvalidTransformDf s"
  by (auto simp: try_map_first_error dest: parse_df_op_error)

subsection \<open>Writing operations\<close>

fun comparator_text :: "comparator \<Rightarrow> string" where
  "comparator_text CmpEq = ''eq''"
| "comparator_text CmpNe = ''ne''"
| "comparator_text CmpGt = ''gt''"
| "comparator_text CmpLt = ''lt''"
| "comparator_text CmpGe = ''ge''"
| "comparator_text CmpLe = ''le''"

fun fn_name :: "agg_fn \<Rightarrow> string" where
  "fn_name SumFn = ''sum''"
| "fn_name CountFn = ''count''"
| "fn_name AvgFn = ''avg''"
| "fn_name MinFn = ''min''"
| "fn_name MaxFn = ''max''"

fun literal_text :: "literal \<Rightarrow> string" where
  "literal_text (IntLit n) = show_int (sint n)"
| "literal_text (FloatLit s) = s"
| "literal_text (BoolLit b) = (if b then ''true'' else ''false'')"
| "literal_text (StrLit s) = s"

definition agg_text :: "agg_expr \<Rightarrow> string" where
  "agg_text a = fn_name (ae_func a) @ ''('' @ ae_column a @ '')='' @ ae_alias a"

definition sort_text :: "sort_key \<Rightarrow> string" where
  "sort_text k = sk_column k @ '','' @ (if sk_ascending k then ''asc'' else ''desc'')"

fun op_text :: "df_op \<Rightarrow> string" where
  "op_text (Select cols) = ''select:'' @ join CHR '','' cols"
| "op_text (FilterOp col cmp lit) = ''filter:'' @ col @ '','' @ comparator_text cmp @ '','' @ literal_text lit"
| "op_text (Aggregate group_by aggs) =
     ''aggregate:group='' @ join CHR '','' group_by @ '';'' @ join CHR '','' (map agg_text aggs)"
| "op_text (Sort keys) = ''sort:'' @ join CHR '';'' (map sort_text keys)"
| "op_text (Limit n) = ''limit:'' @ digits n"

text \<open>What the grammar can say: no separator inside a name, no text that reads as another literal.\<close>

definition free_of :: "char list \<Rightarrow> string \<Rightarrow> bool" where
  "free_of cs s \<longleftrightarrow> set s \<inter> set cs = {}"

fun literal_clean :: "literal \<Rightarrow> bool" where
  "literal_clean (IntLit n) \<longleftrightarrow> True"
| "literal_clean (FloatLit s) \<longleftrightarrow> parse_i64 s = None \<and> f64_text s"
| "literal_clean (BoolLit b) \<longleftrightarrow> True"
| "literal_clean (StrLit s) \<longleftrightarrow>
     parse_i64 s = None \<and> \<not> f64_text s \<and> s \<noteq> ''true'' \<and> s \<noteq> ''false''"

definition agg_clean :: "agg_expr \<Rightarrow> bool" where
  "agg_clean a \<longleftrightarrow> free_of '',='' (ae_column a) \<and> free_of '','' (ae_alias a)"

fun op_clean :: "df_op \<Rightarrow> bool" where
  "op_clean (Select cols) \<longleftrightarrow> cols \<noteq> [] \<and> list_all (free_of '','') cols"
| "op_clean (FilterOp col cmp lit) \<longleftrightarrow> free_of '','' col \<and> literal_clean lit"
| "op_clean (Aggregate group_by aggs) \<longleftrightarrow>
     group_by \<noteq> [''''] \<and> list_all (free_of '',;'') group_by \<and> aggs \<noteq> [] \<and> list_all agg_clean aggs"
| "op_clean (Sort keys) \<longleftrightarrow> keys \<noteq> [] \<and> list_all (\<lambda>k. free_of '',;'' (sk_column k)) keys"
| "op_clean (Limit n) \<longleftrightarrow> n \<le> usize_max"

subsection \<open>Reading what was written\<close>


lemma collect_some_map: "(\<And>y. y \<in> set ys \<Longrightarrow> f (g y) = Some y) \<Longrightarrow> collect_some f (map g ys) = Some ys"
  by (induction ys) auto

lemma split_at_join_free:
  "ss \<noteq> [] \<Longrightarrow> list_all (\<lambda>s. c \<notin> set s) ss \<Longrightarrow> split_at c (join c ss) = ss"
  by (rule split_at_join) (auto simp: list_all_iff)

lemma free_of_mem: "free_of cs s \<Longrightarrow> c \<in> set cs \<Longrightarrow> c \<notin> set s"
  by (auto simp: free_of_def)

lemma read_comparator: "parse_comparator (comparator_text cmp) = Some cmp"
  by (cases cmp) (simp_all add: parse_comparator_def)

lemma comparator_free: "CHR '','' \<notin> set (comparator_text cmp)"
  by (cases cmp) simp_all

lemma read_agg_fn: "parse_agg_fn (fn_name f) = Some f"
  by (cases f) (simp_all add: parse_agg_fn_def)

lemma fn_name_free: "free_of ''(,='' (fn_name f)"
  by (cases f) (simp_all add: free_of_def)

lemma bool_not_number: "parse_i64 ''true'' = None" "parse_i64 ''false'' = None"
  "\<not> f64_text ''true''" "\<not> f64_text ''false''"
  by code_simp+

lemma read_literal: "literal_clean lit \<Longrightarrow> parse_literal (literal_text lit) = lit"
  by (cases lit) (simp_all add: parse_literal_def parse_i64_sint bool_not_number)

lemma read_agg: "agg_clean a \<Longrightarrow> parse_agg_term (agg_text a) = Some a"
proof -
  assume "agg_clean a"
  then have "CHR ''='' \<notin> set (fn_name (ae_func a) @ ''('' @ ae_column a @ '')'')"
    using free_of_mem [OF fn_name_free] by (auto simp: agg_clean_def free_of_def)
  from split_once_at [OF this, of "ae_alias a"]
  have "split_once CHR ''='' (agg_text a) =
      Some (fn_name (ae_func a) @ CHR ''('' # (ae_column a @ '')''), ae_alias a)"
    by (simp add: agg_text_def)
  moreover have "split_once CHR ''('' (fn_name (ae_func a) @ CHR ''('' # (ae_column a @ '')'')) =
      Some (fn_name (ae_func a), ae_column a @ '')'')"
    using free_of_mem [OF fn_name_free] by (intro split_once_at) simp
  ultimately show ?thesis by (simp add: parse_agg_term_def read_agg_fn)
qed

lemma agg_text_free: "agg_clean a \<Longrightarrow> CHR '','' \<notin> set (agg_text a)"
  using free_of_mem [OF fn_name_free] by (auto simp: agg_clean_def agg_text_def free_of_def)

lemma read_sort_key: "free_of '',;'' (sk_column k) \<Longrightarrow> parse_sort_key (sort_text k) = Some k"
proof -
  assume "free_of '',;'' (sk_column k)"
  then have "split_once CHR '','' (sort_text k) =
      Some (sk_column k, if sk_ascending k then ''asc'' else ''desc'')"
    unfolding sort_text_def using split_once_at by (auto simp: free_of_def)
  then show ?thesis by (simp add: parse_sort_key_def)
qed

lemma sort_text_free: "free_of '',;'' (sk_column k) \<Longrightarrow> CHR '';'' \<notin> set (sort_text k)"
  by (auto simp: sort_text_def free_of_def)

lemma read_group:
  assumes "group_by \<noteq> ['''']" and "list_all (free_of '',;'') group_by"
  shows "(if join CHR '','' group_by = [] then [] else split_at CHR '','' (join CHR '','' group_by)) = group_by"
proof (cases "group_by = []")
  case False
  then have "join CHR '','' group_by \<noteq> []" using assms(1) by (cases group_by rule: list.exhaust [case_names Nil Cons])
      (auto elim: join.elims)
  moreover have "split_at CHR '','' (join CHR '','' group_by) = group_by"
    using False assms(2) by (intro split_at_join_free) (auto simp: list_all_iff free_of_def)
  ultimately show ?thesis by simp
qed simp

lemma join_free: "c \<noteq> d \<Longrightarrow> list_all (\<lambda>s. c \<notin> set s) ss \<Longrightarrow> c \<notin> set (join d ss)"
  by (induction d ss rule: join.induct) auto

lemma read_op:
  assumes "op_clean op"
  shows "parse_df_op (op_text op) = Inr op"
proof -
  have kind: "splitn 2 CHR '':'' (k @ CHR '':'' # rest) = [k, rest]" if "CHR '':'' \<notin> set k" for k rest
    using splitn_two [OF that, of 0] by (simp add: numeral_2_eq_2)
  show ?thesis
  proof (cases op)
    case (Select cols)
    with assms have "split_at CHR '','' (join CHR '','' cols) = cols"
      by (intro split_at_join_free) (auto simp: list_all_iff free_of_def)
    with Select kind [of "''select''"] show ?thesis by (simp add: parse_df_op_def)
  next
    case (FilterOp col cmp lit)
    with assms have free: "CHR '','' \<notin> set col" "literal_clean lit" by (auto simp: free_of_def)
    have "splitn 3 CHR '','' (col @ CHR '','' # comparator_text cmp @ CHR '','' # literal_text lit) =
        [col, comparator_text cmp, literal_text lit]"
      using splitn_two [OF free(1), of "Suc 0"] splitn_two [OF comparator_free, of 0]
      by (simp add: numeral_3_eq_3)
    with FilterOp kind [of "''filter''"] free show ?thesis
      by (simp add: parse_df_op_def parse_filter_def read_comparator read_literal)
  next
    case (Aggregate group_by aggs)
    have "CHR '';'' \<notin> set (''group='' @ join CHR '','' group_by)"
      using join_free [of "CHR '';''" "CHR '',''" group_by] assms Aggregate
      by (auto simp: list_all_iff free_of_def)
    from split_once_at [OF this, of "join CHR '','' (map agg_text aggs)"]
    have "split_once CHR '';'' (''group='' @ join CHR '','' group_by @ CHR '';'' # join CHR '','' (map agg_text aggs)) =
        Some (''group='' @ join CHR '','' group_by, join CHR '','' (map agg_text aggs))" by simp
    moreover have "split_at CHR '','' (join CHR '','' (map agg_text aggs)) = map agg_text aggs"
      using assms Aggregate by (intro split_at_join_free) (auto simp: list_all_iff agg_text_free)
    moreover have "collect_some parse_agg_term (map agg_text aggs) = Some aggs"
      using assms Aggregate by (intro collect_some_map read_agg) (simp add: list_all_iff)
    ultimately have "parse_aggregate
        (''group='' @ join CHR '','' group_by @ CHR '';'' # join CHR '','' (map agg_text aggs)) = Some op"
      using assms Aggregate read_group [of group_by]
      by (simp add: parse_aggregate_def Let_def del: append.simps)
    with Aggregate kind [of "''aggregate''"] show ?thesis by (simp add: parse_df_op_def)
  next
    case (Sort keys)
    have "split_at CHR '';'' (join CHR '';'' (map sort_text keys)) = map sort_text keys"
      using assms Sort by (intro split_at_join_free) (auto simp: list_all_iff sort_text_free)
    moreover have "collect_some parse_sort_key (map sort_text keys) = Some keys"
      using assms Sort by (intro collect_some_map read_sort_key) (simp add: list_all_iff)
    ultimately show ?thesis using Sort kind [of "''sort''"] by (simp add: parse_df_op_def parse_sort_def)
  next
    case (Limit n)
    with assms kind [of "''limit''"] show ?thesis
      by (simp add: parse_df_op_def parse_usize_digits)
  qed
qed

subsection \<open>What is read can be written\<close>













subsection \<open>Rendering a chain\<close>

text \<open>
  One call of the generated \<open>DataFrame\<close> chain.  Quoting a literal that is not finite panics
  (\<open>None\<close>): tokens have no such number.  \<open>finite\<close> is whether the number a text stands for is.
\<close>

datatype df_call =
    SelectCall "string list"
  | FilterCall string string literal
  | AggregateCall "string list" "(string \<times> string \<times> string) list"
  | SortCall "(string \<times> bool \<times> bool) list"
  | LimitCall nat usize

fun method_name :: "comparator \<Rightarrow> string" where
  "method_name CmpEq = ''eq''"
| "method_name CmpNe = ''not_eq''"
| "method_name CmpGt = ''gt''"
| "method_name CmpLt = ''lt''"
| "method_name CmpGe = ''gt_eq''"
| "method_name CmpLe = ''lt_eq''"

fun literal_tokens :: "(string \<Rightarrow> bool) \<Rightarrow> literal \<Rightarrow> literal option" where
  "literal_tokens is_finite (FloatLit s) = (if is_finite s then Some (FloatLit s) else None)"
| "literal_tokens is_finite lit = Some lit"

fun op_tokens :: "(string \<Rightarrow> bool) \<Rightarrow> df_op \<Rightarrow> df_call option" where
  "op_tokens is_finite (Select columns) = Some (SelectCall columns)"
| "op_tokens is_finite (FilterOp column cmp lit) =
     map_option (FilterCall column (method_name cmp)) (literal_tokens is_finite lit)"
| "op_tokens is_finite (Aggregate group_by aggs) =
     Some (AggregateCall group_by (map (\<lambda>a. (fn_name (ae_func a), ae_column a, ae_alias a)) aggs))"
| "op_tokens is_finite (Sort keys) =
     Some (SortCall (map (\<lambda>k. (sk_column k, sk_ascending k, False)) keys))"
| "op_tokens is_finite (Limit n) = Some (LimitCall 0 n)"

definition chain_tokens :: "(string \<Rightarrow> bool) \<Rightarrow> df_op list \<Rightarrow> df_call list option" where
  "chain_tokens is_finite ops = collect_some (op_tokens is_finite) ops"

text \<open>A chain is rendered call by call, unless one of its filters compares with such a number.\<close>

lemma chain_rendered:
  "(\<exists>calls. chain_tokens is_finite ops = Some calls) \<longleftrightarrow>
     (\<forall>col cmp s. FilterOp col cmp (FloatLit s) \<in> set ops \<longrightarrow> is_finite s)"
proof -
  have one: "(\<exists>c. op_tokens is_finite op = Some c) \<longleftrightarrow>
      (\<forall>col cmp s. op = FilterOp col cmp (FloatLit s) \<longrightarrow> is_finite s)" for op
  proof (cases op)
    case (FilterOp col cmp lit)
    then show ?thesis by (cases lit) auto
  qed simp_all
  have "(\<exists>calls. collect_some (op_tokens is_finite) ops = Some calls) \<longleftrightarrow>
      (\<forall>op \<in> set ops. \<exists>c. op_tokens is_finite op = Some c)"
    by (induction ops) (auto simp: bind_eq_Some_conv)
  then show ?thesis unfolding chain_tokens_def one by blast
qed

lemma special_not_integer:
  assumes "f64_special (drop_sign s)"
  shows "parse_i64 s = None"
proof -
  obtain c u where u: "drop_sign s = c # u" using assms by (cases "drop_sign s") (auto simp: f64_special_def)
  have "\<not> is_ascii_digit c"
  proof
    assume d: "is_ascii_digit c"
    then have "to_ascii_lower c = c" by (simp add: to_ascii_lower_def is_ascii_uppercase_def is_ascii_digit_def)
    with assms u d show False by (auto simp: f64_special_def is_ascii_digit_def)
  qed
  then have "parse_magnitude (drop_sign s) = None" using u by simp
  then have "parse_signed s = None"
    by (auto simp: parse_signed_def drop_sign_def split: if_splits)
  then show ?thesis by (simp add: parse_i64_def)
qed

text \<open>
  A filter against a word that \<open>f64\<close> also reads, such as a name \<open>Nan\<close> or \<open>inf\<close>, is
  accepted, and then rendering the pipeline panics.
\<close>

theorem special_literal_panics:
  assumes "free_of '','' column" and "f64_special (drop_sign word)"
    and "\<And>s. f64_special (drop_sign s) \<Longrightarrow> \<not> is_finite s"
  shows "\<exists>op. parse_df_op (''filter:'' @ column @ '',eq,'' @ word) = Inr op \<and>
    chain_tokens is_finite (before @ op # after) = None"
proof -
  let ?op = "FilterOp column CmpEq (FloatLit word)"
  have "op_clean ?op" using assms(1) special_not_integer [OF assms(2)] assms(2) by (simp add: f64_text_def)
  from read_op [OF this] have "parse_df_op (''filter:'' @ column @ '',eq,'' @ word) = Inr ?op" by simp
  moreover have "\<not> (\<exists>calls. chain_tokens is_finite (before @ ?op # after) = Some calls)"
    using assms(3) [OF assms(2)] unfolding chain_rendered by auto
  ultimately show ?thesis by (intro exI [of _ ?op]) auto
qed

lemma special_literal_panics_witness:
  "\<exists>op. parse_df_op ''filter:city,eq,Nan'' = Inr op \<and>
     chain_tokens (\<lambda>s. \<not> f64_special (drop_sign s)) [op, Limit 5] = None"
proof -
  have "free_of '','' ''city''" "f64_special (drop_sign ''Nan'')" by code_simp+
  from special_literal_panics [OF this, of "\<lambda>s. \<not> f64_special (drop_sign s)" "[]" "[Limit 5]"]
  show ?thesis by simp
qed

end
