(* ===== verification/PipelineTemplate.thy ===== *)
theory PipelineTemplate
  imports TransformOps ContractPipeline
begin

text \<open>
  Generated pipelines (src/crates/schema-codegen/src/pipeline_template.rs): the program that
  \<open>pipeline_source\<close> renders, as an abstract syntax of what its tokens say, and how its
  stages compose when it is built (\<open>ContractPipeline\<close>).

  The fixed statements of the generated \<open>main\<close> (runtime, session, report) are not part of
  the syntax: they are the same in every program.
\<close>

subsection \<open>Specifications\<close>

datatype source_format = Parquet | Csv | Delta

record source_data =
  sd_location :: string
  sd_format :: source_format

datatype transform_stage = Sql string | DataFrame "df_op list"

record pipeline_spec =
  ps_name :: string
  ps_source_schema :: arrow_schema
  ps_target_schema :: "arrow_schema option"
  ps_source_data :: source_data
  ps_transform :: "transform_stage option"
  ps_sink_parquet :: string

subsection \<open>The generated program\<close>

text \<open>A store registered for a bucket: the bucket and the URL it answers to.\<close>

type_synonym store_registration = "string \<times> string"

datatype registration =
    RegisterParquet string string
  | RegisterCsv string string
  | RegisterDelta string

datatype generated_stage =
    SqlStage string string
  | DataFrameStage string "df_call list"

text \<open>The sink closure; with a remote sink the helper \<open>put_object_s3\<close> is emitted.\<close>

datatype generated_sink = LocalParquet string | UploadParquet string string

record generated_main =
  gm_source_store :: "store_registration option"
  gm_sink_store :: "store_registration option"
  gm_registration :: registration
  gm_source :: string
  gm_stage :: "generated_stage option"
  gm_target :: string
  gm_sink :: generated_sink
  gm_put_helper :: bool

definition parse_s3_location :: "string \<Rightarrow> (string \<times> string) option" where
  "parse_s3_location location =
     Option.bind (strip_prefix ''s3://'' location) (split_once CHR ''/'')"

definition s3_registration_tokens :: "string \<Rightarrow> store_registration option" where
  "s3_registration_tokens location =
     map_option (\<lambda>(bucket, key). (bucket, ''s3://'' @ bucket)) (parse_s3_location location)"

definition registration_tokens :: "string \<Rightarrow> source_data \<Rightarrow> registration" where
  "registration_tokens source_struct_name data =
     (case sd_format data of
        Parquet \<Rightarrow> RegisterParquet source_struct_name (sd_location data)
      | Csv \<Rightarrow> RegisterCsv source_struct_name (sd_location data)
      | Delta \<Rightarrow> RegisterDelta (sd_location data))"

text \<open>The outer \<open>None\<close> is the panic of a literal that is no token.\<close>

definition transform_tokens ::
    "(string \<Rightarrow> bool) \<Rightarrow> transform_stage option \<Rightarrow> string \<Rightarrow> generated_stage option option" where
  "transform_tokens is_finite transform target_struct_name =
     (case transform of
        Some (Sql sql) \<Rightarrow> Some (Some (SqlStage target_struct_name sql))
      | Some (DataFrame ops) \<Rightarrow>
          map_option (\<lambda>chain. Some (DataFrameStage target_struct_name chain)) (chain_tokens is_finite ops)
      | None \<Rightarrow> Some None)"

definition sink_tokens :: "string \<Rightarrow> generated_sink \<times> bool" where
  "sink_tokens sink_parquet =
     (case parse_s3_location sink_parquet of
        Some (bucket, key) \<Rightarrow> (UploadParquet bucket key, True)
      | None \<Rightarrow> (LocalParquet sink_parquet, False))"

text \<open>
  \<open>pipeline_source\<close>: the parameters are those of \<open>struct_source\<close>, \<open>is_finite\<close>, and
  \<open>print_main\<close>, the parse and the printing of \<open>main\<close>; \<open>header\<close> is the constant text of
  the file's head.  The result of a run that does not panic is the text, and here also the
  program it is the text of.
\<close>

definition pipeline_main ::
    "(string \<Rightarrow> bool) \<Rightarrow> pipeline_spec \<Rightarrow> string \<Rightarrow> string \<Rightarrow> generated_main option" where
  "pipeline_main is_finite spec source_name target_name =
     map_option (\<lambda>stage.
       \<lparr>gm_source_store = s3_registration_tokens (sd_location (ps_source_data spec)),
        gm_sink_store = s3_registration_tokens (ps_sink_parquet spec),
        gm_registration = registration_tokens source_name (ps_source_data spec),
        gm_source = source_name,
        gm_stage = stage,
        gm_target = target_name,
        gm_sink = fst (sink_tokens (ps_sink_parquet spec)),
        gm_put_helper = snd (sink_tokens (ps_sink_parquet spec))\<rparr>)
       (transform_tokens is_finite (ps_transform spec) target_name)"

text \<open>The texts of the structs, and the name the sink's contract has.\<close>

definition pipeline_structs ::
    "(string \<Rightarrow> bool) \<Rightarrow> (rust_struct list \<Rightarrow> string + string) \<Rightarrow> pipeline_spec \<Rightarrow>
     (codegen_error + string \<times> string option \<times> string) option" where
  "pipeline_structs is_ident print_items spec =
     (let source_name = ps_name spec @ ''Source'' in
      case struct_source is_ident print_items source_name (ps_source_schema spec) of
        None \<Rightarrow> None
      | Some (Inl e) \<Rightarrow> Some (Inl e)
      | Some (Inr source_text) \<Rightarrow>
     (case ps_target_schema spec of
        None \<Rightarrow> Some (Inr (source_text, None, source_name))
      | Some target_schema \<Rightarrow>
          (let target_name = ps_name spec @ ''Target'' in
           case struct_source is_ident print_items target_name target_schema of
             None \<Rightarrow> None
           | Some (Inl e) \<Rightarrow> Some (Inl e)
           | Some (Inr text) \<Rightarrow> Some (Inr (source_text, Some text, target_name)))))"

definition pipeline_source_text ::
    "(string \<Rightarrow> bool) \<Rightarrow> (rust_struct list \<Rightarrow> string + string) \<Rightarrow> (string \<Rightarrow> bool) \<Rightarrow>
     (generated_main \<Rightarrow> string + string) \<Rightarrow> string \<Rightarrow> pipeline_spec \<Rightarrow>
     (codegen_error + string) option" where
  "pipeline_source_text is_ident print_items is_finite print_main header spec =
     (case pipeline_structs is_ident print_items spec of
        None \<Rightarrow> None
      | Some (Inl e) \<Rightarrow> Some (Inl e)
      | Some (Inr (source_text, target_text, target_name)) \<Rightarrow>
     (case pipeline_main is_finite spec (ps_name spec @ ''Source'') target_name of
        None \<Rightarrow> None
      | Some main_fn \<Rightarrow>
          Some (map_err RenderMain
            (and_then (print_main main_fn) (\<lambda>main_text.
              Inr (header @ source_text @ (case target_text of Some t \<Rightarrow> t | None \<Rightarrow> []) @
                   [CHR 0x0A] @ main_text))))))"

subsection \<open>Building a generated program\<close>

text \<open>The structs of the whole file.\<close>

definition file_structs :: "pipeline_spec \<Rightarrow> codegen_error + rust_struct list" where
  "file_structs spec =
     and_then (struct_items (ps_name spec @ ''Source'') (ps_source_schema spec)) (\<lambda>src.
       case ps_target_schema spec of
         None \<Rightarrow> Inr src
       | Some target_schema \<Rightarrow>
           and_then (struct_items (ps_name spec @ ''Target'') target_schema) (\<lambda>tgt. Inr (src @ tgt)))"

definition target_name :: "pipeline_spec \<Rightarrow> string" where
  "target_name spec =
     ps_name spec @ (case ps_target_schema spec of None \<Rightarrow> ''Source'' | Some _ \<Rightarrow> ''Target'')"

definition target_schema :: "pipeline_spec \<Rightarrow> arrow_schema" where
  "target_schema spec =
     (case ps_target_schema spec of None \<Rightarrow> ps_source_schema spec | Some t \<Rightarrow> t)"

text \<open>
  The chain \<open>ContractPipeline::source(...)...sink(...)\<close> of the generated \<open>main\<close>, with the
  contracts its structs derive: \<open>None\<close> when a name is not in scope, \<open>Inl\<close> the compile-time
  message.  \<open>table\<close> and \<open>calls\<close> are the query engine's side of a \<open>DataFrame\<close> stage.
\<close>

definition compose_main ::
    "('c, 'e) query_engine \<Rightarrow> (string \<Rightarrow> 'c \<Rightarrow> ('e + arrow_schema \<times> record_batch list) \<times> 'c) \<Rightarrow>
     (string \<Rightarrow> ('f \<Rightarrow> 'e + 'f) \<Rightarrow> 'c \<Rightarrow> ('e + arrow_schema \<times> record_batch list) \<times> 'c) \<Rightarrow>
     (df_call list \<Rightarrow> 'f \<Rightarrow> 'e + 'f) \<Rightarrow>
     ('c, 'i, 'e) opener \<Rightarrow> ('c, 'i, 'e) stepper \<Rightarrow> (generated_sink \<Rightarrow> ('c, 'e) batch_sink) \<Rightarrow>
     (string \<rightharpoonup> type_shape) \<Rightarrow> generated_main \<Rightarrow> (string + ('c, 'i, 'e) contract_sink) option" where
  "compose_main engine sql table calls factory step sink env main_fn =
     (case (env (gm_source main_fn), env (gm_target main_fn)) of
        (Some source, Some target) \<Rightarrow>
          (let p = contract_source source factory step;
               attach = contract_sink_attach target (sink (gm_sink main_fn)) in
           Some (case gm_stage main_fn of
             None \<Rightarrow> attach p
           | Some (SqlStage _ text) \<Rightarrow> and_then (sql_transform engine sql target text p) attach
           | Some (DataFrameStage _ chain) \<Rightarrow>
               and_then (dataframe_transform engine table target (calls chain) p) attach))
      | _ \<Rightarrow> None)"

subsection \<open>Declared contracts of a generated program\<close>

lemma gen_shape_erased:
  shows "erase_defaults (gen_shape ty) = gen_shape ty"
  by (induction ty rule: regen_type.induct) (auto simp: gen_field_def)

lemma gen_fields_erased: "erase_defaults (Struct (map gen_field fs)) = Struct (map gen_field fs)"
  using gen_shape_erased [of "StructOf fs"] by simp

lemma file_compiles:
  assumes "file_structs spec = Inr structs" and "distinct (map rs_name structs)"
  obtains env where "derive_contracts Map.empty structs = Some env"
    and "env (ps_name spec @ ''Source'') = Some (Struct (map gen_field (ps_source_schema spec)))"
    and "env (target_name spec) = Some (Struct (map gen_field (target_schema spec)))"
proof -
  let ?P = "\<lambda>env. env (ps_name spec @ ''Source'') = Some (Struct (map gen_field (ps_source_schema spec)))"
  let ?Q = "\<lambda>env. env (target_name spec) = Some (Struct (map gen_field (target_schema spec)))"
  have "compiles structs (\<lambda>env. ?P env \<and> ?Q env)"
  proof (cases "ps_target_schema spec")
    case None
    with assms(1) have "compiles structs ?P"
      by (auto simp: file_structs_def and_then_eq_Inr intro: struct_items_compile)
    then show ?thesis by (rule compiles_mono) (simp add: None target_name_def target_schema_def)
  next
    case (Some t)
    with assms(1) obtain src tgt where items: "struct_items (ps_name spec @ ''Source'') (ps_source_schema spec) = Inr src"
      "struct_items (ps_name spec @ ''Target'') t = Inr tgt" "structs = src @ tgt"
      by (auto simp: file_structs_def and_then_eq_Inr)
    show ?thesis unfolding items(3)
      by (rule compiles_append [OF struct_items_compile [OF items(1)]])
        (use struct_items_compile [OF items(2)] in
          \<open>auto simp: Some target_name_def target_schema_def dest: map_le_Some\<close>)
  qed
  from compiles_file [OF this assms(2)] obtain env where
    "derive_contracts Map.empty structs = Some env \<and> ?P env \<and> ?Q env" by (elim exE)
  then show thesis by (elim conjE) (rule that)
qed

lemma enforce_same: "enforce_exact p p = Inr u"
  by (simp add: enforce_exact_ok conforms_ExactOrdered)

lemma file_generable:
  assumes "file_structs spec = Inr structs"
  shows "generable (StructOf (ps_source_schema spec))" and "generable (StructOf (target_schema spec))"
proof -
  from assms obtain src where src: "struct_items (ps_name spec @ ''Source'') (ps_source_schema spec) = Inr src"
    by (auto simp: file_structs_def and_then_eq_Inr)
  then show source: "generable (StructOf (ps_source_schema spec))"
    using struct_items_succeed [of "ps_name spec @ ''Source''" "ps_source_schema spec"] by blast
  show "generable (StructOf (target_schema spec))"
  proof (cases "ps_target_schema spec")
    case None
    with source show ?thesis by (simp add: target_schema_def)
  next
    case (Some t)
    with assms obtain tgt where "struct_items (ps_name spec @ ''Target'') t = Inr tgt"
      by (auto simp: file_structs_def and_then_eq_Inr)
    then have "generable (StructOf t)"
      using struct_items_succeed [of "ps_name spec @ ''Target''" t] by blast
    with Some show ?thesis by (simp add: target_schema_def)
  qed
qed

lemma main_parts:
  assumes "pipeline_main is_finite spec (ps_name spec @ ''Source'') (target_name spec) = Some main_fn"
  shows "gm_source main_fn = ps_name spec @ ''Source''" and "gm_target main_fn = target_name spec"
    and "gm_stage main_fn = None \<longleftrightarrow> ps_transform spec = None"
    and "gm_sink main_fn = fst (sink_tokens (ps_sink_parquet spec))"
  using assms
  by (auto simp: pipeline_main_def transform_tokens_def split: option.splits transform_stage.splits)

lemmas attach_simps = contract_sink_attach_def contract_transform_def sql_transform_def
  dataframe_transform_def contract_source_def and_then_eq_Inr enforce_same enforce_exact_ok conforms_ExactOrdered

lemma composes_iff:
  assumes "file_structs spec = Inr structs" and "distinct (map rs_name structs)"
    and "derive_contracts Map.empty structs = Some env"
    and "pipeline_main is_finite spec (ps_name spec @ ''Source'') (target_name spec) = Some main_fn"
  shows "(\<exists>cs. compose_main engine sql table calls factory step sink env main_fn = Some (Inr cs)) \<longleftrightarrow>
    ps_transform spec \<noteq> None \<or> map gen_field (ps_source_schema spec) = map gen_field (target_schema spec)"
proof -
  note parts = main_parts [OF assms(4)]
  from file_compiles [OF assms(1,2)] assms(3)
  have env: "env (gm_source main_fn) = Some (Struct (map gen_field (ps_source_schema spec)))"
    "env (gm_target main_fn) = Some (Struct (map gen_field (target_schema spec)))"
    using parts by auto
  show ?thesis
  proof (cases "gm_stage main_fn")
    case None
    then have "ps_transform spec = None" using parts(3) by simp
    moreover have "(\<exists>cs. compose_main engine sql table calls factory step sink env main_fn = Some (Inr cs)) \<longleftrightarrow>
        conforms (Struct (map gen_field (ps_source_schema spec))) (Struct (map gen_field (target_schema spec))) ExactOrdered"
      using env None by (auto simp: compose_main_def contract_sink_attach_def contract_source_def
          and_then_eq_Inr enforce_exact_ok Let_def)
    ultimately show ?thesis
      unfolding conforms_ExactOrdered gen_fields_erased by simp
  next
    case (Some stage)
    then have "ps_transform spec \<noteq> None" using parts(3) by auto
    then show ?thesis using env Some
      by (cases stage) (simp_all add: compose_main_def attach_simps)
  qed
qed

text \<open>
  C16. A generated program composes unless it has a target of another shape and no transform to
  reach it: with a transform, or passing its input through, every stage fits the next.
\<close>

theorem generated_program_composes:
  assumes "file_structs spec = Inr structs" and "distinct (map rs_name structs)"
    and "derive_contracts Map.empty structs = Some env"
    and "pipeline_main is_finite spec (ps_name spec @ ''Source'') (target_name spec) = Some main_fn"
  shows "(\<exists>cs. compose_main engine sql table calls factory step sink env main_fn = Some (Inr cs)) \<longleftrightarrow>
    ps_transform spec \<noteq> None \<or> map gen_field (ps_source_schema spec) = map gen_field (target_schema spec)"
  by (rule composes_iff [OF assms])

definition sample_spec :: "arrow_schema option \<Rightarrow> transform_stage option \<Rightarrow> pipeline_spec" where
  "sample_spec target transform =
     \<lparr>ps_name = ''Orders'', ps_source_schema = [Field ''id'' Int64 False []],
      ps_target_schema = target,
      ps_source_data = \<lparr>sd_location = ''s3://raw/orders.parquet'', sd_format = Parquet\<rparr>,
      ps_transform = transform, ps_sink_parquet = ''out.parquet''\<rparr>"

definition sample_target :: arrow_schema where
  "sample_target = [Field ''id'' Int64 False [], Field ''tag'' Utf8 True []]"

definition sample_structs :: "rust_struct list" where
  "sample_structs =
     [\<lparr>rs_name = ''OrdersSource'', rs_connector = True, rs_fields = [(''id'', PrimType ''i64'')]\<rparr>,
      \<lparr>rs_name = ''OrdersTarget'', rs_connector = True,
       rs_fields = [(''id'', PrimType ''i64''), (''tag'', OptionType (PrimType ''String''))]\<rparr>]"

lemma sample_file: "file_structs (sample_spec (Some sample_target) t) = Inr sample_structs"
proof -
  have "struct_items ''OrdersSource'' [Field ''id'' Int64 False []] = Inr [sample_structs ! 0]"
    "struct_items ''OrdersTarget'' sample_target = Inr [sample_structs ! 1]" by code_simp+
  then show ?thesis by (simp add: file_structs_def sample_spec_def sample_structs_def)
qed

definition sample_main :: "generated_stage option \<Rightarrow> generated_main" where
  "sample_main stage =
     \<lparr>gm_source_store = Some (''raw'', ''s3://raw''), gm_sink_store = None,
      gm_registration = RegisterParquet ''OrdersSource'' ''s3://raw/orders.parquet'',
      gm_source = ''OrdersSource'', gm_stage = stage, gm_target = ''OrdersTarget'',
      gm_sink = LocalParquet ''out.parquet'', gm_put_helper = False\<rparr>"

lemma sample_rendered:
  "pipeline_main f (sample_spec (Some sample_target) (Some (Sql q))) ''OrdersSource'' ''OrdersTarget'' =
     Some (sample_main (Some (SqlStage ''OrdersTarget'' q)))"
  "pipeline_main f (sample_spec (Some sample_target) None) ''OrdersSource'' ''OrdersTarget'' =
     Some (sample_main None)"
  by (simp_all add: pipeline_main_def sample_spec_def sample_main_def s3_registration_tokens_def
      parse_s3_location_def strip_prefix_def split_once_def registration_tokens_def
      transform_tokens_def sink_tokens_def)

lemma generated_program_composes_witness:
  "\<exists>env. derive_contracts Map.empty sample_structs = Some env \<and>
     (\<forall>(engine :: (unit, unit) query_engine) sql (table :: string \<Rightarrow> (unit \<Rightarrow> unit + unit) \<Rightarrow> _)
        calls (factory :: (unit, unit, unit) opener) step sink.
        (\<exists>cs. compose_main engine sql table calls factory step sink env
           (sample_main (Some (SqlStage ''OrdersTarget'' ''SELECT id, NULL AS tag FROM batch''))) = Some (Inr cs)) \<and>
        \<not> (\<exists>cs. compose_main engine sql table calls factory step sink env (sample_main None) = Some (Inr cs)))"
proof -
  let ?sql = "sample_spec (Some sample_target) (Some (Sql ''SELECT id, NULL AS tag FROM batch''))"
  let ?plain = "sample_spec (Some sample_target) None"
  have names: "ps_name (sample_spec (Some sample_target) t) @ ''Source'' = ''OrdersSource''"
    "target_name (sample_spec (Some sample_target) t) = ''OrdersTarget''" for t
    by (simp_all add: sample_spec_def target_name_def)
  have d: "distinct (map rs_name sample_structs)" by (simp add: sample_structs_def)
  obtain env where env: "derive_contracts Map.empty sample_structs = Some env"
    by (simp add: sample_structs_def)
  have differ: "map gen_field [Field ''id'' Int64 False []] \<noteq> map gen_field sample_target"
    by (simp add: sample_target_def)
  note composes = generated_program_composes [OF sample_file d env, unfolded names, OF sample_rendered(1)]
    generated_program_composes [OF sample_file d env, unfolded names, OF sample_rendered(2)]
  show ?thesis
    using env composes differ
    by (intro exI [of _ env] conjI allI) (simp_all add: sample_spec_def target_schema_def)
qed

text \<open>
  What composes also passes the preflight: no schema a struct was generated from is refused
  when the generated program starts.
\<close>

theorem generated_program_builds:
  assumes "file_structs spec = Inr structs" and "distinct (map rs_name structs)"
    and "derive_contracts Map.empty structs = Some env"
    and "pipeline_main is_finite spec (ps_name spec @ ''Source'') (target_name spec) = Some main_fn"
    and "compose_main engine sql table calls factory step sink env main_fn = Some (Inr cs)"
    and "unique_fields (StructOf (ps_source_schema spec))"
    and "height (gen_shape (StructOf (ps_source_schema spec))) \<le> 128"
    and "unique_fields (StructOf (target_schema spec))"
    and "height (gen_shape (StructOf (target_schema spec))) \<le> 128"
  shows "\<exists>prep. contract_build cs = Inr prep"
proof -
  note parts = main_parts [OF assms(4)]
  note generable = file_generable [OF assms(1)]
  let ?source = "Struct (map gen_field (ps_source_schema spec))"
  let ?target = "Struct (map gen_field (target_schema spec))"
  have ok: "mappable ?source" "mappable ?target"
    using generated_mapping [OF generable(1) assms(6,7)] generated_mapping [OF generable(2) assms(8,9)]
    by (simp_all add: mappable_def batch_validator_new_def)
  from file_compiles [OF assms(1,2)] assms(3)
  have env: "env (gm_source main_fn) = Some ?source" "env (gm_target main_fn) = Some ?target"
    using parts by auto
  have "set (declared_shapes cs) \<subseteq> {?source, ?target}"
    using assms(5) env
    by (auto simp: compose_main_def attach_simps declared_shapes_def Let_def
        split: option.splits generated_stage.splits)
  with ok have "list_all mappable (declared_shapes cs)" by (auto simp: list_all_iff)
  then show ?thesis using build_ok [of cs] by blast
qed

lemma generated_program_builds_witness:
  "\<exists>env. derive_contracts Map.empty sample_structs = Some env \<and>
     (\<forall>(engine :: (unit, unit) query_engine) sql (table :: string \<Rightarrow> (unit \<Rightarrow> unit + unit) \<Rightarrow> _)
        calls (factory :: (unit, unit, unit) opener) step sink.
        \<exists>cs prep. compose_main engine sql table calls factory step sink env
           (sample_main (Some (SqlStage ''OrdersTarget'' ''SELECT id, NULL AS tag FROM batch''))) = Some (Inr cs) \<and>
          contract_build cs = Inr prep)"
proof -
  let ?sql = "sample_spec (Some sample_target) (Some (Sql ''SELECT id, NULL AS tag FROM batch''))"
  have names: "ps_name (sample_spec (Some sample_target) t) @ ''Source'' = ''OrdersSource''"
    "target_name (sample_spec (Some sample_target) t) = ''OrdersTarget''" for t
    by (simp_all add: sample_spec_def target_name_def)
  have d: "distinct (map rs_name sample_structs)" by (simp add: sample_structs_def)
  obtain env where env: "derive_contracts Map.empty sample_structs = Some env"
    by (simp add: sample_structs_def)
  have builds: "\<exists>prep. contract_build cs = Inr prep"
    if "compose_main engine sql table calls factory step sink env
         (sample_main (Some (SqlStage ''OrdersTarget'' ''SELECT id, NULL AS tag FROM batch''))) = Some (Inr cs)"
    for engine :: "(unit, unit) query_engine" and sql and table :: "string \<Rightarrow> (unit \<Rightarrow> unit + unit) \<Rightarrow> _"
      and calls and factory :: "(unit, unit, unit) opener" and step sink cs
    by (rule generated_program_builds [OF sample_file d env, unfolded names, OF sample_rendered(1) that])
      (simp_all add: sample_spec_def target_schema_def sample_target_def gen_field_def)
  note composes = composes_iff [OF sample_file d env, unfolded names, OF sample_rendered(1)]
  show ?thesis
  proof (intro exI [of _ env] conjI allI env)
    fix engine :: "(unit, unit) query_engine" and sql and table :: "string \<Rightarrow> (unit \<Rightarrow> unit + unit) \<Rightarrow> _"
      and calls and factory :: "(unit, unit, unit) opener" and step sink
    obtain cs where "compose_main engine sql table calls factory step sink env
        (sample_main (Some (SqlStage ''OrdersTarget'' ''SELECT id, NULL AS tag FROM batch''))) = Some (Inr cs)"
      using composes [of engine sql table calls factory step sink] by (auto simp: sample_spec_def)
    with builds [OF this] show "\<exists>cs prep. compose_main engine sql table calls factory step sink env
        (sample_main (Some (SqlStage ''OrdersTarget'' ''SELECT id, NULL AS tag FROM batch''))) = Some (Inr cs) \<and>
        contract_build cs = Inr prep" by blast
  qed
qed

end
