(* ===== verification/ScaffoldCli.thy ===== *)
theory ScaffoldCli
  imports DeclaredTypes PipelineTemplate
begin

text \<open>
  The scaffolding command line (src/crates/scaffold-cli/src/main.rs): schema specifications,
  the source data they imply, and the two commands.  Argument parsing is \<open>clap\<close>; reading
  files and schemas are parameters; writing the result acts on a world \<open>'w\<close>.
\<close>

subsection \<open>Arguments\<close>

datatype schema_spec =
    ParquetSpec string
  | DbtSpec string string
  | ErwinSpec string string
  | DeltaSpec string

record struct_args =
  sa_from_parquet :: string
  sa_name :: string
  sa_out :: "string option"

record pipeline_args =
  pa_source_schema :: string
  pa_source_data :: "string option"
  pa_source_format :: "source_format option"
  pa_target_schema :: "string option"
  pa_transform_sql :: "string option"
  pa_transform_df :: "string list"
  pa_sink_parquet :: string
  pa_name :: string
  pa_out :: "string option"

text \<open>What the commands use of the system and of the libraries.\<close>

record 'w system =
  sy_open_file :: "string \<Rightarrow> string + string"
  sy_load_footer :: "string \<Rightarrow> string + arrow_schema"
  sy_parse_url :: "string \<Rightarrow> string + string"
  sy_runtime :: "string + unit"
  sy_open_table :: "string \<Rightarrow> string + string"
  sy_table_provider :: "string \<Rightarrow> string + arrow_schema"
  sy_read_file :: "string \<Rightarrow> string + string"
  sy_yaml :: "string \<Rightarrow> string + dbt_model list"
  sy_xml :: "string \<Rightarrow> string + xml_node list"
  sy_is_ident :: "string \<Rightarrow> bool"
  sy_print_items :: "rust_struct list \<Rightarrow> string + string"
  sy_is_finite :: "string \<Rightarrow> bool"
  sy_print_main :: "generated_main \<Rightarrow> string + string"
  sy_header :: string
  sy_write_file :: "string \<Rightarrow> string \<Rightarrow> 'w \<Rightarrow> (string + unit) \<times> 'w"
  sy_print :: "string \<Rightarrow> 'w \<Rightarrow> 'w"

subsection \<open>Schema specifications\<close>

definition parse_schema_spec :: "string \<Rightarrow> cli_error + schema_spec" where
  "parse_schema_spec spec =
     (case splitn 2 CHR '':'' spec of
        kind # rest # _ \<Rightarrow>
          (if kind = ''parquet'' then Inr (ParquetSpec rest)
           else if kind = ''delta'' then Inr (DeltaSpec rest)
           else if kind = ''dbt'' then
             and_then (ok_or (InvalidSpec spec) (rsplit_once CHR '':'' rest)) (\<lambda>(yaml, model).
               Inr (DbtSpec yaml model))
           else if kind = ''erwin'' then
             and_then (ok_or (InvalidSpec spec) (rsplit_once CHR '':'' rest)) (\<lambda>(xml, entity).
               Inr (ErwinSpec xml entity))
           else Inl (InvalidSpec spec))
      | _ \<Rightarrow> Inl (InvalidSpec spec))"

text \<open>
  \<open>read_parquet_schema\<close> (src/crates/schema-codegen/src/lib.rs) and \<open>read_delta_schema\<close>
  (delta.rs): the steps that can fail, and the error each becomes.
\<close>

definition read_parquet_schema :: "'w system \<Rightarrow> string \<Rightarrow> codegen_error + arrow_schema" where
  "read_parquet_schema sys path =
     and_then (map_err (OpenFile path) (sy_open_file sys path)) (\<lambda>file.
       map_err ReadSchema (sy_load_footer sys file))"

definition read_delta_schema :: "'w system \<Rightarrow> string \<Rightarrow> codegen_error + arrow_schema" where
  "read_delta_schema sys table_uri =
     and_then (map_err (InvalidDeltaUri table_uri) (sy_parse_url sys table_uri)) (\<lambda>url.
     and_then (map_err DeltaRuntime (sy_runtime sys)) (\<lambda>_.
     and_then (map_err OpenDeltaTable (sy_open_table sys url)) (\<lambda>table.
       map_err DeltaTableProvider (sy_table_provider sys table))))"

definition read_to_string :: "'w system \<Rightarrow> string \<Rightarrow> codegen_error + string" where
  "read_to_string sys path = map_err (OpenFile path) (sy_read_file sys path)"

fun resolve_schema :: "'w system \<Rightarrow> schema_spec \<Rightarrow> codegen_error + arrow_schema" where
  "resolve_schema sys (ParquetSpec path) = read_parquet_schema sys path"
| "resolve_schema sys (DeltaSpec uri) = read_delta_schema sys uri"
| "resolve_schema sys (DbtSpec yaml model) =
     and_then (read_to_string sys yaml) (\<lambda>text. parse_dbt_schema_yml (sy_yaml sys) text model)"
| "resolve_schema sys (ErwinSpec xml entity) =
     and_then (read_to_string sys xml) (\<lambda>text. parse_erwin_xml (sy_xml sys) text entity)"

definition infer_format :: "string \<Rightarrow> source_format option" where
  "infer_format location =
     (if ends_with ''.csv'' location then Some Csv
      else if ends_with ''.parquet'' location then Some Parquet
      else None)"

fun spec_location :: "schema_spec \<Rightarrow> cli_error + string \<times> source_format option" where
  "spec_location (ParquetSpec path) = Inr (path, Some Parquet)"
| "spec_location (DeltaSpec uri) = Inr (uri, Some Delta)"
| "spec_location (DbtSpec yaml model) = Inl (MissingSourceData ''dbt:...'')"
| "spec_location (ErwinSpec xml entity) = Inl (MissingSourceData ''erwin:...'')"

definition resolve_source_data ::
    "schema_spec \<Rightarrow> string option \<Rightarrow> cli_error + string \<times> source_format option" where
  "resolve_source_data spec source_data =
     (case source_data of
        Some location \<Rightarrow> Inr (location, infer_format location)
      | None \<Rightarrow> spec_location spec)"

definition parse_transform ::
    "string option \<Rightarrow> string list \<Rightarrow> cli_error + transform_stage option" where
  "parse_transform transform_sql transform_df =
     (case (transform_sql, transform_df = []) of
        (Some _, False) \<Rightarrow> Inl ConflictingTransform
      | (Some sql, True) \<Rightarrow> Inr (Some (Sql sql))
      | (None, True) \<Rightarrow> Inr None
      | (None, False) \<Rightarrow>
          and_then (try_map parse_df_op transform_df) (\<lambda>ops. Inr (Some (DataFrame ops))))"

subsection \<open>Commands\<close>

definition write_output ::
    "'w system \<Rightarrow> string option \<Rightarrow> string \<Rightarrow> 'w \<Rightarrow> (cli_error + unit) \<times> 'w" where
  "write_output sys out text w =
     (case out of
        Some path \<Rightarrow> (case sy_write_file sys path text w of (r, w') \<Rightarrow> (map_err (WriteOutput path) r, w'))
      | None \<Rightarrow> (Inr (), sy_print sys text w))"

definition run_struct :: "'w system \<Rightarrow> struct_args \<Rightarrow> 'w \<Rightarrow> ((cli_error + unit) \<times> 'w) option" where
  "run_struct sys args w =
     (case read_parquet_schema sys (sa_from_parquet args) of
        Inl e \<Rightarrow> Some (Inl (SchemaError e), w)
      | Inr sch \<Rightarrow>
     (case struct_source (sy_is_ident sys) (sy_print_items sys) (sa_name args) sch of
        None \<Rightarrow> None
      | Some (Inl e) \<Rightarrow> Some (Inl (SchemaError e), w)
      | Some (Inr source) \<Rightarrow> Some (write_output sys (sa_out args) source w)))"

text \<open>The part of \<open>run_pipeline\<close> that turns the arguments into a specification.\<close>

definition pipeline_spec_of :: "'w system \<Rightarrow> pipeline_args \<Rightarrow> cli_error + pipeline_spec" where
  "pipeline_spec_of sys args =
     and_then (parse_schema_spec (pa_source_schema args)) (\<lambda>source_spec.
     and_then (map_err SchemaError (resolve_schema sys source_spec)) (\<lambda>source_schema.
     and_then
       (case pa_target_schema args of
          Some spec_text \<Rightarrow>
            and_then (parse_schema_spec spec_text) (\<lambda>spec.
              and_then (map_err SchemaError (resolve_schema sys spec)) (\<lambda>sch. Inr (Some sch)))
        | None \<Rightarrow> Inr None) (\<lambda>target.
     and_then (resolve_source_data source_spec (pa_source_data args)) (\<lambda>(location, inferred_format).
     and_then
       (case pa_source_format args of
          Some explicit \<Rightarrow> Inr explicit
        | None \<Rightarrow> ok_or (UnknownSourceFormat location) inferred_format) (\<lambda>format.
     and_then (parse_transform (pa_transform_sql args) (pa_transform_df args)) (\<lambda>transform.
       Inr \<lparr>ps_name = pa_name args, ps_source_schema = source_schema, ps_target_schema = target,
            ps_source_data = \<lparr>sd_location = location, sd_format = format\<rparr>,
            ps_transform = transform, ps_sink_parquet = pa_sink_parquet args\<rparr>))))))"

definition run_pipeline ::
    "'w system \<Rightarrow> pipeline_args \<Rightarrow> 'w \<Rightarrow> ((cli_error + unit) \<times> 'w) option" where
  "run_pipeline sys args w =
     (case pipeline_spec_of sys args of
        Inl e \<Rightarrow> Some (Inl e, w)
      | Inr spec \<Rightarrow>
     (case pipeline_source_text (sy_is_ident sys) (sy_print_items sys) (sy_is_finite sys)
             (sy_print_main sys) (sy_header sys) spec of
        None \<Rightarrow> None
      | Some (Inl e) \<Rightarrow> Some (Inl (SchemaError e), w)
      | Some (Inr rendered) \<Rightarrow> Some (write_output sys (pa_out args) rendered w)))"

text \<open>\<open>CliError::source\<close>: an error of the code generator, or of the system.\<close>

fun cli_source :: "cli_error \<Rightarrow> (codegen_error + string) option" where
  "cli_source (SchemaError e) = Some (Inl e)"
| "cli_source (WriteOutput path source) = Some (Inr source)"
| "cli_source _ = None"

subsection \<open>Properties of the command line\<close>

fun spec_text :: "schema_spec \<Rightarrow> string" where
  "spec_text (ParquetSpec path) = ''parquet:'' @ path"
| "spec_text (DeltaSpec uri) = ''delta:'' @ uri"
| "spec_text (DbtSpec yaml model) = ''dbt:'' @ yaml @ '':'' @ model"
| "spec_text (ErwinSpec xml entity) = ''erwin:'' @ xml @ '':'' @ entity"

text \<open>The part after the last colon has none; a path or a URI may.\<close>

fun spec_clean :: "schema_spec \<Rightarrow> bool" where
  "spec_clean (DbtSpec yaml model) \<longleftrightarrow> CHR '':'' \<notin> set model"
| "spec_clean (ErwinSpec xml entity) \<longleftrightarrow> CHR '':'' \<notin> set entity"
| "spec_clean _ \<longleftrightarrow> True"

lemma splitn_pair:
  "splitn 2 c s = kind # rest # others \<longleftrightarrow> others = [] \<and> s = kind @ c # rest \<and> c \<notin> set kind"
proof -
  have "splitn 2 c s = (case split_once c s of None \<Rightarrow> [s] | Some (a, b) \<Rightarrow> [a, b])"
    by (simp add: numeral_2_eq_2 split: option.split prod.split)
  then show ?thesis
    by (auto simp: split_once_at split_once_None split: option.splits dest: split_once_eq)
qed

lemma rsplit_once_iff: "rsplit_once c s = Some (a, b) \<longleftrightarrow> s = a @ c # b \<and> c \<notin> set b"
proof
  assume "rsplit_once c s = Some (a, b)"
  then have "split_once c (rev s) = Some (rev b, rev a)" by (auto simp: rsplit_once_def)
  from split_once_eq [OF this] show "s = a @ c # b \<and> c \<notin> set b"
    by (metis append.assoc append_Cons append_Nil rev_append rev_rev_ident rev.simps(2) set_rev)
qed (auto simp: rsplit_once_at)

lemma read_spec: "parse_schema_spec s = Inr spec \<longleftrightarrow> spec_clean spec \<and> s = spec_text spec"
proof
  assume parsed: "parse_schema_spec s = Inr spec"
  then obtain kind rest more where parts: "splitn 2 CHR '':'' s = kind # rest # more"
    by (auto simp: parse_schema_spec_def split: list.splits)
  then have "s = kind @ CHR '':'' # rest" by (simp add: splitn_pair)
  with parsed parts show "spec_clean spec \<and> s = spec_text spec"
    by (auto simp: parse_schema_spec_def and_then_eq_Inr rsplit_once_iff split: if_splits)
next
  have kind: "splitn 2 CHR '':'' (k @ CHR '':'' # rest) = [k, rest]" if "CHR '':'' \<notin> set k" for k rest
    using that by (simp add: splitn_pair)
  assume "spec_clean spec \<and> s = spec_text spec"
  then show "parse_schema_spec s = Inr spec"
    using kind [of "''parquet''"] kind [of "''delta''"] kind [of "''dbt''"] kind [of "''erwin''"]
    by (cases spec) (simp_all add: parse_schema_spec_def rsplit_once_at)
qed

text \<open>
  C31. The specification grammar is exact: a text is read as a specification exactly when it is
  that specification's own text, so nothing is read two ways, and a path may contain colons
  while a model or entity name may not.
\<close>

theorem schema_spec_grammar:
  "parse_schema_spec s = Inr spec \<longleftrightarrow> spec_clean spec \<and> s = spec_text spec"
  by (rule read_spec)

subsection \<open>What is written\<close>

lemma source_text:
  assumes "struct_source is_ident print_items name sch = Some (Inr text)"
  shows "\<exists>structs. struct_items name sch = Inr structs \<and> print_items structs = Inr text"
  using assms by (auto simp: struct_source_def and_then_eq_Inr split: if_splits)

text \<open>The structs of the file are those whose texts are written.\<close>

lemma structs_text:
  assumes "pipeline_structs is_ident print_items spec = Some (Inr (source, target, name))"
  shows "\<exists>structs. file_structs spec = Inr structs" and "name = target_name spec"
proof -
  from assms obtain src where src: "struct_items (ps_name spec @ ''Source'') (ps_source_schema spec) = Inr src"
    by (auto simp: pipeline_structs_def Let_def dest: source_text split: option.splits sum.splits)
  show "\<exists>structs. file_structs spec = Inr structs"
  proof (cases "ps_target_schema spec")
    case None
    with src show ?thesis by (simp add: file_structs_def)
  next
    case (Some t)
    with assms obtain tgt where "struct_items (ps_name spec @ ''Target'') t = Inr tgt"
      by (auto simp: pipeline_structs_def Let_def dest: source_text split: option.splits sum.splits)
    with src Some show ?thesis by (simp add: file_structs_def)
  qed
  from assms show "name = target_name spec"
    by (auto simp: pipeline_structs_def target_name_def Let_def split: option.splits sum.splits)
qed

lemma program_written:
  assumes "pipeline_source_text is_ident print_items is_finite print_main header spec = Some (Inr text)"
  shows "\<exists>structs main_fn main_text source target. file_structs spec = Inr structs \<and>
    pipeline_main is_finite spec (ps_name spec @ ''Source'') (target_name spec) = Some main_fn \<and>
    print_main main_fn = Inr main_text \<and>
    pipeline_structs is_ident print_items spec = Some (Inr (source, target, target_name spec)) \<and>
    text = header @ source @ (case target of Some t \<Rightarrow> t | None \<Rightarrow> []) @ [CHR 0x0A] @ main_text"
  using assms structs_text
  by (auto simp: pipeline_source_text_def and_then_eq_Inr split: option.splits sum.splits prod.splits)

subsection \<open>What the arguments ask for\<close>

text \<open>A specification as it is written, and the data a schema names of itself.\<close>

definition written_as :: "string \<Rightarrow> schema_spec \<Rightarrow> bool" where
  "written_as s spec \<longleftrightarrow> spec_clean spec \<and> s = spec_text spec"

lemma written_once: "written_as s a \<Longrightarrow> written_as s b \<Longrightarrow> a = b"
  unfolding written_as_def using read_spec by (metis sum.inject(2))

fun own_data :: "schema_spec \<Rightarrow> (string \<times> source_format) option" where
  "own_data (ParquetSpec path) = Some (path, Parquet)"
| "own_data (DeltaSpec uri) = Some (uri, Delta)"
| "own_data _ = None"

definition told_by_name :: "string \<Rightarrow> source_format \<Rightarrow> bool" where
  "told_by_name location format \<longleftrightarrow>
     ends_with ''.csv'' location \<and> format = Csv \<or> ends_with ''.parquet'' location \<and> format = Parquet"

definition transform_asked :: "string option \<Rightarrow> string list \<Rightarrow> transform_stage option \<Rightarrow> bool" where
  "transform_asked sql ops transform \<longleftrightarrow>
     (case transform of
        None \<Rightarrow> sql = None \<and> ops = []
      | Some (Sql query) \<Rightarrow> sql = Some query \<and> ops = []
      | Some (DataFrame stages) \<Rightarrow>
          sql = None \<and> ops \<noteq> [] \<and> list_all2 (\<lambda>s stage. parse_df_op s = Inr stage) ops stages)"

text \<open>
  The pipeline that the arguments ask for: each part of it comes from the option it belongs to,
  and from the source schema only where that option is missing.
\<close>

definition asked_for :: "'w system \<Rightarrow> pipeline_args \<Rightarrow> pipeline_spec \<Rightarrow> bool" where
  "asked_for sys args spec \<longleftrightarrow>
     ps_name spec = pa_name args \<and> ps_sink_parquet spec = pa_sink_parquet args \<and>
     (case pa_target_schema args of
        None \<Rightarrow> ps_target_schema spec = None
      | Some s \<Rightarrow> \<exists>tgt sch. written_as s tgt \<and> resolve_schema sys tgt = Inr sch \<and> ps_target_schema spec = Some sch) \<and>
     (\<exists>src. written_as (pa_source_schema args) src \<and> resolve_schema sys src = Inr (ps_source_schema spec) \<and>
        (case pa_source_data args of
           Some location \<Rightarrow> sd_location (ps_source_data spec) = location \<and>
             (pa_source_format args = None \<longrightarrow> told_by_name location (sd_format (ps_source_data spec)))
         | None \<Rightarrow> \<exists>format. own_data src = Some (sd_location (ps_source_data spec), format) \<and>
             (pa_source_format args = None \<longrightarrow> sd_format (ps_source_data spec) = format)) \<and>
        (\<forall>format. pa_source_format args = Some format \<longrightarrow> sd_format (ps_source_data spec) = format)) \<and>
     transform_asked (pa_transform_sql args) (pa_transform_df args) (ps_transform spec)"

text \<open>What each error says of the arguments; none of them is consistent with a pipeline asked for.\<close>

fun refused_for :: "'w system \<Rightarrow> pipeline_args \<Rightarrow> cli_error \<Rightarrow> bool" where
  "refused_for sys args (InvalidSpec s) \<longleftrightarrow>
     (s = pa_source_schema args \<or> pa_target_schema args = Some s) \<and> (\<nexists>spec. written_as s spec)"
| "refused_for sys args (SchemaError e) \<longleftrightarrow>
     (\<exists>s spec. (s = pa_source_schema args \<or> pa_target_schema args = Some s) \<and> written_as s spec \<and>
        resolve_schema sys spec = Inl e)"
| "refused_for sys args (MissingSourceData s) \<longleftrightarrow>
     pa_source_data args = None \<and> (\<exists>src. written_as (pa_source_schema args) src \<and> own_data src = None)"
| "refused_for sys args (UnknownSourceFormat location) \<longleftrightarrow>
     pa_source_data args = Some location \<and> pa_source_format args = None \<and> (\<nexists>format. told_by_name location format)"
| "refused_for sys args ConflictingTransform \<longleftrightarrow> pa_transform_sql args \<noteq> None \<and> pa_transform_df args \<noteq> []"
| "refused_for sys args (InvalidTransformDf op) \<longleftrightarrow>
     pa_transform_sql args = None \<and> op \<in> set (pa_transform_df args) \<and> (\<nexists>stage. parse_df_op op = Inr stage)"
| "refused_for sys args (WriteOutput path source) \<longleftrightarrow> False"

lemma refused_not_asked: "refused_for sys args e \<Longrightarrow> \<not> asked_for sys args spec"
  by (cases e)
    (auto simp: asked_for_def transform_asked_def list_all2_conv_all_nth in_set_conv_nth
      dest: written_once split: option.splits transform_stage.splits)

lemma read_spec_error: "parse_schema_spec s = Inl e \<Longrightarrow> e = InvalidSpec s \<and> (\<nexists>spec. written_as s spec)"
  using read_spec [of s]
  by (auto simp: written_as_def) (auto simp: parse_schema_spec_def and_then_eq_Inl ok_or_eq_Inl split: list.splits if_splits)

lemma suffixes_apart: "ends_with ''.csv'' s \<Longrightarrow> \<not> ends_with ''.parquet'' s"
  by (cases "rev s") (auto simp: ends_with_def)

lemma inferred: "infer_format location = Some format \<longleftrightarrow> told_by_name location format"
  using suffixes_apart [of location] by (auto simp: infer_format_def told_by_name_def)

lemma located:
  "resolve_source_data src given = Inr (location, format) \<longleftrightarrow>
     (case given of
        Some l \<Rightarrow> location = l \<and> format = infer_format l
      | None \<Rightarrow> \<exists>f. own_data src = Some (location, f) \<and> format = Some f)"
  by (cases src) (auto simp: resolve_source_data_def split: option.splits)

lemma not_located:
  "resolve_source_data src given = Inl e \<Longrightarrow> given = None \<and> own_data src = None \<and> (\<exists>s. e = MissingSourceData s)"
  by (cases src) (auto simp: resolve_source_data_def split: option.splits)

lemma transform_read:
  "parse_transform sql ops = Inr transform \<Longrightarrow> transform_asked sql ops transform"
  by (auto simp: parse_transform_def transform_asked_def and_then_eq_Inr try_map_eq_Inr
      split: option.splits bool.splits)

lemma transform_refused:
  assumes "parse_transform sql ops = Inl e"
  shows "e = ConflictingTransform \<and> sql \<noteq> None \<and> ops \<noteq> [] \<or>
    sql = None \<and> (\<exists>s \<in> set ops. e = InvalidTransformDf s \<and> (\<nexists>stage. parse_df_op s = Inr stage))"
  using assms
  by (auto simp: parse_transform_def and_then_eq_Inl try_map_first_error dest: parse_df_op_error
      split: option.splits bool.splits)

lemma spec_read:
  assumes "pipeline_spec_of sys args = Inr spec"
  shows "asked_for sys args spec"
proof -
  from assms obtain src sch target location inferred_format format transform where
    parts: "parse_schema_spec (pa_source_schema args) = Inr src" "resolve_schema sys src = Inr sch"
      "resolve_source_data src (pa_source_data args) = Inr (location, inferred_format)"
      "parse_transform (pa_transform_sql args) (pa_transform_df args) = Inr transform"
    and target: "(case pa_target_schema args of
          Some s \<Rightarrow> and_then (parse_schema_spec s) (\<lambda>tgt.
              and_then (map_err SchemaError (resolve_schema sys tgt)) (\<lambda>sch. Inr (Some sch)))
        | None \<Rightarrow> Inr None) = Inr target"
    and form: "(case pa_source_format args of Some explicit \<Rightarrow> Inr explicit
        | None \<Rightarrow> ok_or (UnknownSourceFormat location) inferred_format) = Inr format"
    and spec: "spec = \<lparr>ps_name = pa_name args, ps_source_schema = sch, ps_target_schema = target,
            ps_source_data = \<lparr>sd_location = location, sd_format = format\<rparr>,
            ps_transform = transform, ps_sink_parquet = pa_sink_parquet args\<rparr>"
    by (auto simp: pipeline_spec_of_def and_then_eq_Inr)
  have src: "written_as (pa_source_schema args) src" using parts(1) by (simp add: read_spec written_as_def)
  have "case pa_target_schema args of
      None \<Rightarrow> target = None
    | Some s \<Rightarrow> \<exists>tgt sch. written_as s tgt \<and> resolve_schema sys tgt = Inr sch \<and> target = Some sch"
    using target by (auto simp: and_then_eq_Inr read_spec written_as_def split: option.splits)
  moreover have "case pa_source_data args of
      Some l \<Rightarrow> location = l \<and> (pa_source_format args = None \<longrightarrow> told_by_name l format)
    | None \<Rightarrow> \<exists>f. own_data src = Some (location, f) \<and> (pa_source_format args = None \<longrightarrow> format = f)"
    using parts(3) form by (auto simp: located inferred [symmetric] split: option.splits)
  moreover have "\<forall>f. pa_source_format args = Some f \<longrightarrow> format = f" using form by auto
  ultimately show ?thesis
    using src parts(2) transform_read [OF parts(4)]
    by (cases "pa_target_schema args"; cases "pa_source_data args") (auto simp: asked_for_def spec)
qed

lemma spec_refused:
  assumes "pipeline_spec_of sys args = Inl e"
  shows "refused_for sys args e"
proof -
  have schema: "refused_for sys args d"
    if "parse_schema_spec s = Inl d \<or> (\<exists>spec. parse_schema_spec s = Inr spec \<and>
          map_err SchemaError (resolve_schema sys spec) = Inl d)"
      "s = pa_source_schema args \<or> pa_target_schema args = Some s" for s d
  proof (cases "parse_schema_spec s")
    case (Inl d')
    with read_spec_error [OF Inl] that show ?thesis by auto
  next
    case (Inr spec)
    with that obtain c where "resolve_schema sys spec = Inl c" "d = SchemaError c" by (auto simp: map_err_eq_Inl)
    moreover have "written_as s spec" using Inr by (simp add: read_spec written_as_def)
    ultimately show ?thesis using that(2) by auto
  qed
  from assms consider
      (source) "parse_schema_spec (pa_source_schema args) = Inl e \<or>
        (\<exists>spec. parse_schema_spec (pa_source_schema args) = Inr spec \<and>
           map_err SchemaError (resolve_schema sys spec) = Inl e)"
    | (target) s where "pa_target_schema args = Some s" "parse_schema_spec s = Inl e \<or>
        (\<exists>spec. parse_schema_spec s = Inr spec \<and> map_err SchemaError (resolve_schema sys spec) = Inl e)"
    | (data) src where "parse_schema_spec (pa_source_schema args) = Inr src"
        "resolve_source_data src (pa_source_data args) = Inl e"
    | (form) src location inferred_format where "parse_schema_spec (pa_source_schema args) = Inr src"
        "resolve_source_data src (pa_source_data args) = Inr (location, inferred_format)"
        "pa_source_format args = None" "inferred_format = None" "e = UnknownSourceFormat location"
    | (transform) "parse_transform (pa_transform_sql args) (pa_transform_df args) = Inl e"
    unfolding pipeline_spec_of_def and_then_eq_Inl
    by (auto simp: and_then_eq_Inl ok_or_eq_Inl split: option.splits prod.splits)
  then show ?thesis
  proof cases
    case source
    from schema [OF this] show ?thesis by simp
  next
    case target
    from schema [OF target(2)] target(1) show ?thesis by simp
  next
    case data
    from not_located [OF data(2)] data(1) show ?thesis by (auto simp: read_spec written_as_def)
  next
    case form
    then show ?thesis by (auto simp: located inferred [symmetric] split: option.splits)
  next
    case transform
    from transform_refused [OF this] show ?thesis by auto
  qed
qed

text \<open>
  C23. The pipeline command does what its arguments ask for: source and target schema are those
  that the specification texts name, location, format, transformation, name and sink those
  of their options or, where an option is missing, what the source schema says of itself.
  Where there is such a pipeline its rendering is what is written, and nothing is written
  where the rendering fails; where there is none the error reported is true of the arguments,
  which no pipeline can then answer to.
\<close>

theorem pipeline_command_exact:
  assumes "run_pipeline sys args w = Some (r, w')"
  shows "(\<exists>spec rendered. asked_for sys args spec \<and>
       pipeline_source_text (sy_is_ident sys) (sy_print_items sys) (sy_is_finite sys)
         (sy_print_main sys) (sy_header sys) spec = Some rendered \<and>
       (case rendered of
          Inr body \<Rightarrow> (r, w') = write_output sys (pa_out args) body w
        | Inl e \<Rightarrow> r = Inl (SchemaError e) \<and> w' = w)) \<or>
    (\<exists>e. r = Inl e \<and> w' = w \<and> refused_for sys args e \<and> (\<nexists>spec. asked_for sys args spec))"
proof (cases "pipeline_spec_of sys args")
  case (Inl e)
  with assms have "r = Inl e" "w' = w" by (auto simp: run_pipeline_def)
  with spec_refused [OF Inl] refused_not_asked [OF spec_refused [OF Inl]] show ?thesis by blast
next
  case (Inr spec)
  with assms obtain rendered where rendered: "pipeline_source_text (sy_is_ident sys) (sy_print_items sys)
      (sy_is_finite sys) (sy_print_main sys) (sy_header sys) spec = Some rendered"
    by (auto simp: run_pipeline_def split: option.splits)
  with assms Inr have "case rendered of
      Inr body \<Rightarrow> (r, w') = write_output sys (pa_out args) body w
    | Inl e \<Rightarrow> r = Inl (SchemaError e) \<and> w' = w"
    by (cases rendered) (auto simp: run_pipeline_def)
  with spec_read [OF Inr] rendered show ?thesis by blast
qed

definition sample_system :: "(string \<times> string) list system" where
  "sample_system =
     \<lparr>sy_open_file = Inr, sy_load_footer = (\<lambda>_. Inr [Field ''id'' Int64 False []]),
      sy_parse_url = Inr, sy_runtime = Inr (), sy_open_table = Inr,
      sy_table_provider = (\<lambda>_. Inr []), sy_read_file = (\<lambda>_. Inl ''missing''),
      sy_yaml = (\<lambda>_. Inr []), sy_xml = (\<lambda>_. Inr []), sy_is_ident = is_valid_rust_identifier,
      sy_print_items = (\<lambda>structs. Inr (concat (map rs_name structs))),
      sy_is_finite = (\<lambda>_. True), sy_print_main = (\<lambda>m. Inr (gm_target m)), sy_header = ''//!'',
      sy_write_file = (\<lambda>path body files. (Inr (), files @ [(path, body)])),
      sy_print = (\<lambda>body files. files @ [('''', body)])\<rparr>"

definition sample_args :: pipeline_args where
  "sample_args =
     \<lparr>pa_source_schema = ''parquet:in.parquet'', pa_source_data = None, pa_source_format = None,
      pa_target_schema = None, pa_transform_sql = None, pa_transform_df = [''select:id''],
      pa_sink_parquet = ''out.parquet'', pa_name = ''Orders'', pa_out = Some ''main.rs''\<rparr>"

definition sample_passthrough :: pipeline_spec where
  "sample_passthrough =
     \<lparr>ps_name = ''Orders'', ps_source_schema = [Field ''id'' Int64 False []], ps_target_schema = None,
      ps_source_data = \<lparr>sd_location = ''in.parquet'', sd_format = Parquet\<rparr>,
      ps_transform = Some (DataFrame [Select [''id'']]), ps_sink_parquet = ''out.parquet''\<rparr>"

lemma sample_run_written:
  "run_pipeline sample_system sample_args [] =
     Some (Inr (), [(''main.rs'', ''//!OrdersSource'' @ [CHR 0x0A] @ ''OrdersSource'')])"
proof -
  have "parse_schema_spec ''parquet:in.parquet'' = Inr (ParquetSpec ''in.parquet'')" by code_simp
  moreover have "parse_df_op ''select:id'' = Inr (Select [''id''])"
    using read_op [of "Select [''id'']"] by (simp add: free_of_def)
  ultimately have spec: "pipeline_spec_of sample_system sample_args = Inr sample_passthrough"
    by (simp add: pipeline_spec_of_def sample_system_def sample_args_def sample_passthrough_def
        read_parquet_schema_def resolve_source_data_def parse_transform_def)
  have "struct_items ''OrdersSource'' [Field ''id'' Int64 False []] =
      Inr [\<lparr>rs_name = ''OrdersSource'', rs_connector = True, rs_fields = [(''id'', PrimType ''i64'')]\<rparr>]"
    by code_simp
  moreover have "is_valid_rust_identifier ''OrdersSource''" by code_simp
  ultimately have structs: "pipeline_structs (sy_is_ident sample_system) (sy_print_items sample_system)
      sample_passthrough = Some (Inr (''OrdersSource'', None, ''OrdersSource''))"
    by (simp add: pipeline_structs_def struct_source_def sample_passthrough_def sample_system_def Let_def)
  obtain m where m: "pipeline_main (sy_is_finite sample_system) sample_passthrough
      (ps_name sample_passthrough @ ''Source'') ''OrdersSource'' = Some m" "gm_target m = ''OrdersSource''"
    by (simp add: pipeline_main_def transform_tokens_def chain_tokens_def sample_passthrough_def)
  have "pipeline_source_text (sy_is_ident sample_system) (sy_print_items sample_system)
      (sy_is_finite sample_system) (sy_print_main sample_system) (sy_header sample_system)
      sample_passthrough = Some (Inr (''//!OrdersSource'' @ [CHR 0x0A] @ ''OrdersSource''))"
    by (simp add: pipeline_source_text_def structs m) (simp add: sample_system_def m(2))
  then show ?thesis
    by (simp add: run_pipeline_def spec write_output_def) (simp add: sample_system_def sample_args_def)
qed

lemma pipeline_command_exact_witness:
  "\<exists>spec body. asked_for sample_system sample_args spec \<and>
     pipeline_source_text (sy_is_ident sample_system) (sy_print_items sample_system)
       (sy_is_finite sample_system) (sy_print_main sample_system) (sy_header sample_system) spec =
       Some (Inr body) \<and>
     (Inr (), [(''main.rs'', ''//!OrdersSource'' @ [CHR 0x0A] @ ''OrdersSource'')]) =
       write_output sample_system (pa_out sample_args) body []"
proof -
  from pipeline_command_exact [OF sample_run_written] obtain spec rendered where
    spec: "asked_for sample_system sample_args spec"
    and body: "pipeline_source_text (sy_is_ident sample_system) (sy_print_items sample_system)
       (sy_is_finite sample_system) (sy_print_main sample_system) (sy_header sample_system) spec = Some rendered"
    and out: "case rendered of
        Inr body \<Rightarrow> (Inr (), [(''main.rs'', ''//!OrdersSource'' @ [CHR 0x0A] @ ''OrdersSource'')]) =
          write_output sample_system (pa_out sample_args) body []
      | Inl e \<Rightarrow> (Inr () :: cli_error + unit) = Inl (SchemaError e) \<and>
          [(''main.rs'', ''//!OrdersSource'' @ [CHR 0x0A] @ ''OrdersSource'')] = []" by auto
  from out obtain b where "rendered = Inr b" by (cases rendered) auto
  with spec body out show ?thesis by (intro exI [of _ spec] exI [of _ b]) simp
qed

end
