(* ===== verification/CliTexts.thy ===== *)
theory CliTexts
  imports ScaffoldCli
begin

text \<open>
  The messages of the scaffolding command line: \<open>Display\<close> of \<open>SchemaCodegenError\<close>
  (src/crates/schema-codegen/src/lib.rs) and of \<open>CliError\<close>
  (src/crates/scaffold-cli/src/main.rs).  \<open>show_type\<close> is the \<open>Debug\<close> form of an Arrow type.
\<close>

definition ticked :: "string \<Rightarrow> string" where
  "ticked s = CHR 0x60 # s @ [CHR 0x60]"

definition quoted :: "string \<Rightarrow> string" where
  "quoted s = CHR 0x27 # s @ [CHR 0x27]"

fun codegen_text :: "(data_type \<Rightarrow> string) \<Rightarrow> codegen_error \<Rightarrow> string" where
  "codegen_text show_type (OpenFile path source) = ''failed to open parquet file '' @ path @ '': '' @ source"
| "codegen_text show_type (ReadSchema source) = ''failed to read parquet schema: '' @ source"
| "codegen_text show_type (UnsupportedArrowType name ty) =
     ''field '' @ ticked name @ '' has Arrow type '' @ show_type ty @ '', which has no Rust mapping''"
| "codegen_text show_type (InvalidFieldName name) = ''field '' @ ticked name @ '' is not a valid Rust identifier''"
| "codegen_text show_type (RenderStruct name source) = ''failed to render struct '' @ ticked name @ '': '' @ source"
| "codegen_text show_type (RenderMain source) = ''failed to render pipeline main(): '' @ source"
| "codegen_text show_type (UnsupportedDeclaredType name declared) =
     ''field '' @ ticked name @ '' declares type '' @ ticked declared @ '', which has no Rust mapping''"
| "codegen_text show_type (ModelNotFound model) = ''no model named '' @ ticked model @ '' in schema.yml''"
| "codegen_text show_type (ParseDbtYaml source) = ''failed to parse schema.yml: '' @ source"
| "codegen_text show_type (EntityNotFound entity) = ''no Entity named '' @ ticked entity @ '' in the Erwin export''"
| "codegen_text show_type (ParseErwinXml source) = ''failed to parse Erwin export: '' @ source"
| "codegen_text show_type (InvalidDeltaUri uri source) = ticked uri @ '' is not a valid Delta table URL: '' @ source"
| "codegen_text show_type (DeltaRuntime source) = ''failed to build Delta runtime: '' @ source"
| "codegen_text show_type (OpenDeltaTable source) = ''failed to open Delta table: '' @ source"
| "codegen_text show_type (DeltaTableProvider source) = ''failed to build Delta table provider: '' @ source"

fun cli_text :: "(data_type \<Rightarrow> string) \<Rightarrow> cli_error \<Rightarrow> string" where
  "cli_text show_type (SchemaError source) = codegen_text show_type source"
| "cli_text show_type (WriteOutput path source) = ''failed to write '' @ quoted path @ '': '' @ source"
| "cli_text show_type (InvalidSpec spec) = quoted spec @ '' is not a valid schema spec''"
| "cli_text show_type (MissingSourceData spec) =
     ''--source-data is required when --source-schema is '' @ quoted spec @
     '' (it only declares shape, not a data location)''"
| "cli_text show_type (UnknownSourceFormat location) =
     ''cannot infer a source format for '' @ quoted location @ ''; pass --source-format explicitly''"
| "cli_text show_type ConflictingTransform =
     ''--transform-sql and --transform-df are mutually exclusive; pass only one''"
| "cli_text show_type (InvalidTransformDf spec) = quoted spec @ '' is not a valid --transform-df op''"

text \<open>\<open>main\<close>: the exit status and what is printed on the error stream.\<close>

datatype command = StructCommand struct_args | PipelineCommand pipeline_args

definition scaffold_main ::
    "'w system \<Rightarrow> (data_type \<Rightarrow> string) \<Rightarrow> command \<Rightarrow> 'w \<Rightarrow> ((bool \<times> string) \<times> 'w) option" where
  "scaffold_main sys show_type cmd w =
     map_option (\<lambda>(r, w').
         (case r of
            Inr _ \<Rightarrow> (True, [])
          | Inl e \<Rightarrow> (False, ''scaffold-cli: '' @ cli_text show_type e @ [CHR 0x0A]), w'))
       (case cmd of
          StructCommand args \<Rightarrow> run_struct sys args w
        | PipelineCommand args \<Rightarrow> run_pipeline sys args w)"

text \<open>
  What a library reported is never swallowed: a message ends with the error it wraps, and
  the message of a schema error is that error's own.
\<close>

definition ends_in :: "string \<Rightarrow> string \<Rightarrow> bool" where
  "ends_in s t \<longleftrightarrow> (\<exists>before. t = before @ s)"

lemma ends_inI: "t = before @ s \<Longrightarrow> ends_in s t"
  by (auto simp: ends_in_def)

lemma ends_in_append [simp]: "ends_in s s" "ends_in s t \<Longrightarrow> ends_in s (u @ t)" "ends_in s t \<Longrightarrow> ends_in s (c # t)"
proof -
  show "ends_in s s" by (rule ends_inI [of _ "[]"]) simp
  show "ends_in s (u @ t)" if "ends_in s t"
    using that by (auto simp: ends_in_def intro: exI [of _ "u @ b" for b])
  show "ends_in s (c # t)" if "ends_in s t"
    using that by (auto simp: ends_in_def intro: exI [of _ "c # b" for b])
qed

lemma codegen_text_source:
  "codegen_source e = Some source \<Longrightarrow> ends_in source (codegen_text show_type e)"
  by (cases e) simp_all

lemma cli_text_source:
  "cli_source e = Some cause \<Longrightarrow>
     (case cause of Inl s \<Rightarrow> cli_text show_type e = codegen_text show_type s
      | Inr source \<Rightarrow> ends_in source (cli_text show_type e))"
  by (cases e) auto

end
