(* ===== verification/CsvSelect.thy ===== *)
theory CsvSelect
  imports Decimal "HOL-Library.Sublist"
begin

text \<open>
  Selecting a column of a CSV file (src/crates/csv-cli/src/bin/csv-select.rs).  The CSV reader
  is what it yields, headers first; the writer is a function that may fail and acts on a
  state \<open>'w\<close> that holds the output and what is buffered before it.
\<close>

subsection \<open>The program\<close>

datatype 'e select_error =
    OpenInput string 'e
  | ColumnOutOfRange nat nat
  | ReadRecord 'e
  | WriteOutput 'e

type_synonym string_record = "string list"

record 'e csv_reader =
  cr_headers :: "'e + string_record"
  cr_records :: "('e + string_record) list"

record ('e, 'w) csv_writer =
  cw_write :: "string \<Rightarrow> 'w \<Rightarrow> ('e + unit) \<times> 'w"
  cw_flush :: "'w \<Rightarrow> ('e + unit) \<times> 'w"

definition select_field :: "string_record \<Rightarrow> nat \<Rightarrow> 'e select_error + string" where
  "select_field csv_row column =
     ok_or (ColumnOutOfRange column (length csv_row))
       (if column < length csv_row then Some (csv_row ! column) else None)"

definition select_and_write ::
    "('e, 'w) csv_writer \<Rightarrow> string_record \<Rightarrow> nat \<Rightarrow> 'w \<Rightarrow> ('e select_error + unit) \<times> 'w" where
  "select_and_write writer csv_row column w =
     (case select_field csv_row column of
        Inl e \<Rightarrow> (Inl e, w)
      | Inr field \<Rightarrow> (case cw_write writer field w of (r, w') \<Rightarrow> (map_err WriteOutput r, w')))"

fun write_records ::
    "('e, 'w) csv_writer \<Rightarrow> nat \<Rightarrow> ('e + string_record) list \<Rightarrow> 'w \<Rightarrow>
     ('e select_error + unit) \<times> 'w" where
  "write_records writer column [] w = (Inr (), w)"
| "write_records writer column (Inl source # rest) w = (Inl (ReadRecord source), w)"
| "write_records writer column (Inr csv_row # rest) w =
     (case select_and_write writer csv_row column w of
        (Inl e, w') \<Rightarrow> (Inl e, w')
      | (Inr _, w') \<Rightarrow> write_records writer column rest w')"

definition write_selected_column ::
    "'e csv_reader \<Rightarrow> ('e, 'w) csv_writer \<Rightarrow> nat \<Rightarrow> bool \<Rightarrow> 'w \<Rightarrow> ('e select_error + unit) \<times> 'w" where
  "write_selected_column reader writer column has_headers w =
     (if has_headers then
        (case cr_headers reader of
           Inl source \<Rightarrow> (Inl (ReadRecord source), w)
         | Inr headers \<Rightarrow>
             (case select_and_write writer headers column w of
                (Inl e, w') \<Rightarrow> (Inl e, w')
              | (Inr _, w') \<Rightarrow> write_records writer column (cr_records reader) w'))
      else write_records writer column (cr_records reader) w)"

text \<open>
  \<open>run\<close>: opening is the parameter \<open>from_path\<close>, told whether there are headers.  However the
  rest ends, the writer is dropped at the end, which flushes it and ignores how that went.
\<close>

definition select_and_flush ::
    "'e csv_reader \<Rightarrow> ('e, 'w) csv_writer \<Rightarrow> nat \<Rightarrow> bool \<Rightarrow> 'w \<Rightarrow> ('e select_error + unit) \<times> 'w" where
  "select_and_flush reader writer column has_headers w =
     (case write_selected_column reader writer column has_headers w of
        (Inl e, w') \<Rightarrow> (Inl e, w')
      | (Inr _, w') \<Rightarrow> (case cw_flush writer w' of (r, w'') \<Rightarrow> (map_err WriteOutput r, w'')))"

definition run_select ::
    "(bool \<Rightarrow> string \<Rightarrow> 'e + 'e csv_reader) \<Rightarrow> ('e, 'w) csv_writer \<Rightarrow> string \<Rightarrow> nat \<Rightarrow> bool \<Rightarrow> 'w \<Rightarrow>
     ('e select_error + unit) \<times> 'w" where
  "run_select from_path writer input column no_headers w =
     (case from_path (\<not> no_headers) input of
        Inl source \<Rightarrow> (Inl (OpenInput input source), w)
      | Inr reader \<Rightarrow>
     (case select_and_flush reader writer column (\<not> no_headers) w of
        (r, w') \<Rightarrow> (r, snd (cw_flush writer w'))))"

fun select_source :: "'e select_error \<Rightarrow> 'e option" where
  "select_source (OpenInput path source) = Some source"
| "select_source (ReadRecord source) = Some source"
| "select_source (WriteOutput source) = Some source"
| "select_source (ColumnOutOfRange column available) = None"

text \<open>\<open>Display\<close>; \<open>show\<close> is that of a \<open>csv::Error\<close>.\<close>

fun select_text :: "('e \<Rightarrow> string) \<Rightarrow> 'e select_error \<Rightarrow> string" where
  "select_text show_error (OpenInput path source) =
     ''cannot read '' @ CHR 0x27 # path @ CHR 0x27 # '': '' @ show_error source"
| "select_text show_error (ColumnOutOfRange column available) =
     ''column '' @ digits column @ '' is out of range: only '' @ digits available @ '' column(s) present''"
| "select_text show_error (ReadRecord source) = ''malformed CSV: '' @ show_error source"
| "select_text show_error (WriteOutput source) = ''failed to write output: '' @ show_error source"

text \<open>\<open>main\<close>: the exit status and what is printed on the error stream.\<close>

definition select_main :: "('e \<Rightarrow> string) \<Rightarrow> 'e select_error + unit \<Rightarrow> bool \<times> string" where
  "select_main show_error r =
     (case r of
        Inr _ \<Rightarrow> (True, [])
      | Inl e \<Rightarrow> (False, ''csv-select: '' @ select_text show_error e @ [CHR 0x0A]))"

subsection \<open>What has been written\<close>

text \<open>
  What a buffering writer documents.  \<open>sent\<close> is what the output has been handed, \<open>held\<close> what is
  still in the buffer, \<open>enc\<close> the record of one field as text.  A write that succeeds takes its
  record, some of it or of what was held being sent on as the writer sees fit; a flush that
  succeeds sends all that is held, one that fails sends some first part of it; a write that
  fails promises nothing but that the output is only added to.
\<close>

definition buffered ::
    "(string \<Rightarrow> string) \<Rightarrow> ('e, 'w) csv_writer \<Rightarrow> ('w \<Rightarrow> string) \<Rightarrow> ('w \<Rightarrow> string) \<Rightarrow> bool" where
  "buffered enc writer sent held \<longleftrightarrow>
     (\<forall>field w r w'. cw_write writer field w = (r, w') \<longrightarrow> prefix (sent w) (sent w') \<and>
        (r = Inr () \<longrightarrow> sent w' @ held w' = sent w @ held w @ enc field)) \<and>
     (\<forall>w r w'. cw_flush writer w = (r, w') \<longrightarrow> prefix (sent w) (sent w') \<and>
        prefix (sent w') (sent w @ held w) \<and>
        (r = Inr () \<longrightarrow> sent w' = sent w @ held w \<and> held w' = []))"

lemma buffered_write:
  assumes "buffered enc writer sent held" and "cw_write writer field w = (r, w')"
  shows "prefix (sent w) (sent w')" and "r = Inr () \<Longrightarrow> sent w' @ held w' = sent w @ held w @ enc field"
  using assms unfolding buffered_def by blast+

lemma buffered_flush:
  assumes "buffered enc writer sent held" and "cw_flush writer w = (r, w')"
  shows "prefix (sent w) (sent w')" and "prefix (sent w') (sent w @ held w)"
    and "r = Inr () \<Longrightarrow> sent w' = sent w @ held w \<and> held w' = []"
  using assms unfolding buffered_def by blast+

text \<open>The rows that are selected from, and where and why a run that does not reach the end stops.\<close>

definition selectable :: "nat \<Rightarrow> 'e + string_record \<Rightarrow> bool" where
  "selectable column item \<longleftrightarrow> (case item of Inr csv_row \<Rightarrow> column < length csv_row | Inl _ \<Rightarrow> False)"

lemma selectable_record [simp]: "selectable column (Inr csv_row) \<longleftrightarrow> column < length csv_row"
  by (simp add: selectable_def)

definition selected :: "(string \<Rightarrow> string) \<Rightarrow> nat \<Rightarrow> ('e + string_record) list \<Rightarrow> string" where
  "selected enc column items = concat (map (\<lambda>item. enc (projr item ! column)) items)"

definition stops_at :: "nat \<Rightarrow> ('e + string_record) list \<Rightarrow> nat \<Rightarrow> 'e select_error \<Rightarrow> bool" where
  "stops_at column items n e \<longleftrightarrow> n < length items \<and>
     (case items ! n of
        Inl source \<Rightarrow> e = ReadRecord source
      | Inr csv_row \<Rightarrow>
          if column < length csv_row then (\<exists>source. e = WriteOutput source)
          else e = ColumnOutOfRange column (length csv_row))"

fun write_failed :: "'e select_error \<Rightarrow> bool" where
  "write_failed (WriteOutput source) \<longleftrightarrow> True"
| "write_failed _ \<longleftrightarrow> False"

text \<open>The records before \<open>n\<close>, and no more, have been taken by the writer.\<close>

definition taken ::
    "(string \<Rightarrow> string) \<Rightarrow> ('w \<Rightarrow> string) \<Rightarrow> ('w \<Rightarrow> string) \<Rightarrow> nat \<Rightarrow> ('e + string_record) list \<Rightarrow> 'w \<Rightarrow> 'w \<Rightarrow> bool" where
  "taken enc sent held column items w w' \<longleftrightarrow>
     sent w' @ held w' = sent w @ held w @ selected enc column items"

lemma select_written:
  assumes "buffered enc writer sent held" and "select_and_write writer csv_row column w = (r, w')"
  shows "prefix (sent w) (sent w')"
    and "r = Inr () \<Longrightarrow> column < length csv_row \<and> sent w' @ held w' = sent w @ held w @ enc (csv_row ! column)"
    and "r = Inl e \<Longrightarrow> stops_at column (Inr csv_row # rest) 0 e \<and> (\<not> write_failed e \<longrightarrow> w' = w)"
proof -
  obtain r1 w1 where w1: "cw_write writer (csv_row ! column) w = (r1, w1)" by fastforce
  note writes = buffered_write [OF assms(1) w1]
  show "prefix (sent w) (sent w')"
    using assms(2) w1 writes by (auto simp: select_and_write_def select_field_def split: if_splits)
  show "column < length csv_row \<and> sent w' @ held w' = sent w @ held w @ enc (csv_row ! column)" if "r = Inr ()"
    using that assms(2) w1 writes
    by (cases r1) (auto simp: select_and_write_def select_field_def split: if_splits)
  show "stops_at column (Inr csv_row # rest) 0 e \<and> (\<not> write_failed e \<longrightarrow> w' = w)" if "r = Inl e"
    using that assms(2) w1
    by (auto simp: select_and_write_def select_field_def stops_at_def map_err_eq_Inl split: if_splits)
qed

lemma records_written:
  assumes "buffered enc writer sent held" and "write_records writer column items w = (r, w')"
  shows "\<exists>n \<le> length items. list_all (selectable column) (take n items) \<and> prefix (sent w) (sent w') \<and>
    (case r of
       Inr _ \<Rightarrow> n = length items \<and> taken enc sent held column (take n items) w w'
     | Inl e \<Rightarrow> stops_at column items n e \<and>
         (\<not> write_failed e \<longrightarrow> taken enc sent held column (take n items) w w'))"
  using assms(2)
proof (induction items arbitrary: w)
  case Nil
  then show ?case by (auto simp: selected_def taken_def)
next
  case (Cons item items)
  show ?case
  proof (cases item)
    case (Inl source)
    with Cons.prems show ?thesis by (intro exI [of _ 0]) (auto simp: selected_def stops_at_def taken_def)
  next
    case (Inr csv_row)
    obtain r1 w1 where w1: "select_and_write writer csv_row column w = (r1, w1)" by fastforce
    note wrote = select_written [OF assms(1) w1]
    show ?thesis
    proof (cases r1)
      case (Inl e)
      with Cons.prems Inr w1 have "r = Inl e" "w' = w1" by auto
      with wrote Inl Inr show ?thesis
        by (intro exI [of _ 0]) (auto simp: selected_def taken_def)
    next
      case ok: (Inr u)
      with Cons.prems Inr w1 have "write_records writer column items w1 = (r, w')" by auto
      from Cons.IH [OF this] obtain n where n: "n \<le> length items"
        "list_all (selectable column) (take n items)" "prefix (sent w1) (sent w')"
        "case r of
           Inr _ \<Rightarrow> n = length items \<and> taken enc sent held column (take n items) w1 w'
         | Inl e \<Rightarrow> stops_at column items n e \<and>
             (\<not> write_failed e \<longrightarrow> taken enc sent held column (take n items) w1 w')" by blast
      have one: "column < length csv_row" "sent w1 @ held w1 = sent w @ held w @ enc (csv_row ! column)"
        using wrote(2) ok by auto
      have "taken enc sent held column (take (Suc n) (item # items)) w w'"
        if "taken enc sent held column (take n items) w1 w'"
        using that one(2) Inr by (simp add: taken_def selected_def)
      moreover have "stops_at column (item # items) (Suc n) e = stops_at column items n e" for e
        by (simp add: stops_at_def)
      moreover have "prefix (sent w) (sent w')" using wrote(1) n(3) by (rule prefix_order.trans)
      ultimately show ?thesis using n one Inr
        by (intro exI [of _ "Suc n"]) (auto split: sum.splits)
    qed
  qed
qed

text \<open>What a file yields: its header record, where it has one, and its records.\<close>

definition file_items :: "'e csv_reader \<Rightarrow> bool \<Rightarrow> ('e + string_record) list" where
  "file_items reader has_headers = (if has_headers then [cr_headers reader] else []) @ cr_records reader"

lemma selected_as_records:
  "write_selected_column reader writer column has_headers w =
     write_records writer column (file_items reader has_headers) w"
  by (auto simp: write_selected_column_def file_items_def split: sum.split)

text \<open>
  C32. A run that succeeds has handed the output the selected column of the whole file, header
  first, and nothing else.  A run that fails reports the first row that is malformed or too
  short, or the writer's first failure.  Where the writer did not fail, what the output was
  handed is the selected column of the rows before that one: all of it if the flush when the
  writer is dropped succeeds, and otherwise some first part of it.  Where it did fail, the
  output has only been added to.
\<close>

theorem select_writes_prefix:
  assumes "buffered enc writer sent held" and "held w = []" and "from_path (\<not> no_headers) input = Inr reader"
    and "run_select from_path writer input column no_headers w = (r, w')"
  shows "\<exists>n \<le> length (file_items reader (\<not> no_headers)).
    \<exists>w1 dropped. cw_flush writer w1 = (dropped, w') \<and>
    list_all (selectable column) (take n (file_items reader (\<not> no_headers))) \<and>
    prefix (sent w) (sent w') \<and>
    (case r of
       Inr _ \<Rightarrow> n = length (file_items reader (\<not> no_headers)) \<and>
         sent w' = sent w @ selected enc column (file_items reader (\<not> no_headers))
     | Inl e \<Rightarrow>
         (stops_at column (file_items reader (\<not> no_headers)) n e \<or>
          n = length (file_items reader (\<not> no_headers)) \<and> write_failed e) \<and>
         (\<not> write_failed e \<longrightarrow>
            prefix (sent w') (sent w @ selected enc column (take n (file_items reader (\<not> no_headers)))) \<and>
            (dropped = Inr () \<longrightarrow>
               sent w' = sent w @ selected enc column (take n (file_items reader (\<not> no_headers))))))"
proof -
  let ?items = "file_items reader (\<not> no_headers)"
  obtain r1 w1 where w1: "write_records writer column ?items w = (r1, w1)" by fastforce
  from records_written [OF assms(1) w1] obtain n where n: "n \<le> length ?items"
    "list_all (selectable column) (take n ?items)" "prefix (sent w) (sent w1)"
    "case r1 of
       Inr _ \<Rightarrow> n = length ?items \<and> taken enc sent held column (take n ?items) w w1
     | Inl e \<Rightarrow> stops_at column ?items n e \<and>
         (\<not> write_failed e \<longrightarrow> taken enc sent held column (take n ?items) w w1)" by blast
  show ?thesis
  proof (cases r1)
    case (Inl e)
    have r: "r = Inl e" and drop: "cw_flush writer w1 = (fst (cw_flush writer w1), w')"
      using assms(3,4) w1 Inl
      by (auto simp: run_select_def select_and_flush_def selected_as_records split: prod.splits)
    note last = buffered_flush [OF assms(1) drop]
    have "prefix (sent w) (sent w')" using n(3) last(1) by (rule prefix_order.trans)
    with n r Inl last drop assms(2) show ?thesis
      by (intro exI [of _ n] conjI exI [of _ w1] exI [of _ "fst (cw_flush writer w1)"]) (auto simp: taken_def)
  next
    case (Inr u)
    obtain r2 w2 where w2: "cw_flush writer w1 = (r2, w2)" by fastforce
    note flushed = buffered_flush [OF assms(1) w2]
    have r: "r = map_err WriteOutput r2" and drop: "cw_flush writer w2 = (fst (cw_flush writer w2), w')"
      using assms(3,4) w1 w2 Inr
      by (auto simp: run_select_def select_and_flush_def selected_as_records split: prod.splits)
    note last = buffered_flush [OF assms(1) drop]
    have all: "n = length ?items" "sent w1 @ held w1 = sent w @ selected enc column ?items"
      using n(4) Inr assms(2) by (simp_all add: taken_def)
    have grown: "prefix (sent w) (sent w')"
      using n(3) flushed(1) last(1) by (blast intro: prefix_order.trans)
    show ?thesis
    proof (cases r2)
      case (Inl source)
      with n all r grown drop show ?thesis
        by (intro exI [of _ n] conjI exI [of _ w2] exI [of _ "fst (cw_flush writer w2)"]) auto
    next
      case (Inr v)
      with flushed(3) last(1,2) all have "sent w' = sent w @ selected enc column ?items"
        by (auto intro: prefix_order.antisym)
      with n all r Inr grown drop show ?thesis
        by (intro exI [of _ n] conjI exI [of _ w2] exI [of _ "fst (cw_flush writer w2)"]) auto
    qed
  qed
qed

text \<open>A writer that sends on what it holds once that is more than four characters.\<close>

definition line :: "string \<Rightarrow> string" where
  "line field = field @ [CHR 0x0A]"

definition small_writer :: "(string, string \<times> string) csv_writer" where
  "small_writer =
     \<lparr>cw_write = (\<lambda>field (out, buf). (Inr (),
          if length (buf @ line field) > 4 then (out @ buf @ line field, []) else (out, buf @ line field))),
      cw_flush = (\<lambda>(out, buf). (Inr (), (out @ buf, [])))\<rparr>"

lemma small_writer_buffered: "buffered line small_writer fst snd"
  by (auto simp: buffered_def small_writer_def split: if_splits)

lemma select_writes_prefix_witness:
  "\<exists>w'. run_select (\<lambda>_ _. Inr \<lparr>cr_headers = Inr [''id'', ''name''],
        cr_records = [Inr [''1'', ''a''], Inl ''bad'', Inr [''2'', ''b'']]\<rparr>) small_writer ''f'' 1 False ([], []) =
      (Inl (ReadRecord ''bad''), w') \<and> prefix (fst w') (line ''name'' @ line ''a'')"
proof -
  let ?reader = "\<lparr>cr_headers = Inr [''id'', ''name''],
    cr_records = [Inr [''1'', ''a''], Inl ''bad'', Inr [''2'', ''b'']]\<rparr> :: string csv_reader"
  let ?items = "[Inr [''id'', ''name''], Inr [''1'', ''a''], Inl ''bad'', Inr [''2'', ''b'']] :: (string + string list) list"
  have items: "file_items ?reader (\<not> False) = ?items" by (simp add: file_items_def)
  obtain w' where run: "run_select (\<lambda>_ _. Inr ?reader) small_writer ''f'' 1 False ([], []) =
      (Inl (ReadRecord ''bad''), w')"
    by (simp add: run_select_def select_and_flush_def selected_as_records file_items_def select_and_write_def
        select_field_def small_writer_def line_def)
  have start: "snd ([] :: string, [] :: string) = []" by simp
  from select_writes_prefix [OF small_writer_buffered start refl run, unfolded items] obtain n where
    n: "stops_at 1 ?items n (ReadRecord ''bad'')" "prefix (fst w') (selected line 1 (take n ?items))"
    by (simp del: One_nat_def take_Suc_Cons) blast
  from n(1) have "n = 2" by (auto simp: stops_at_def nth_Cons split: nat.splits)
  with n(2) run show ?thesis by (simp add: selected_def)
qed

end
