(* ===== verification/DeriveMacros.thy ===== *)
theory DeriveMacros
  imports StructSource
begin

text \<open>
  The derive macros (src/crates/contracts-derive/src/lib.rs,
  src/crates/connectors-derive/src/lib.rs): which declarations they accept, the shape
  \<open>#[derive(Contract)]\<close> records, and the functions \<open>#[derive(Connector)]\<close> generates.

  The parsed item is what \<open>syn\<close> hands the macro.  DataFusion is a parameter of the generated
  functions: \<open>'t\<close> a table, \<open>'c\<close> a session.
\<close>

subsection \<open>Declarations\<close>

text \<open>
  One element of an attribute's argument list: its path, and whether it is followed by a value
  or arguments instead of a comma or the end.
\<close>

record meta_item =
  mi_path :: string
  mi_has_value :: bool

text \<open>\<open>None\<close>: an attribute without an argument list.\<close>

record attribute_decl =
  ad_path :: string
  ad_args :: "meta_item list option"

record field_decl =
  fd_ident :: string
  fd_type :: rust_type
  fd_attrs :: "attribute_decl list"

datatype item_data =
    NamedFields "field_decl list"
  | TupleFields
  | NoFields
  | EnumItem
  | UnionItem

record derive_input =
  di_ident :: string
  di_generics :: "string list"
  di_data :: item_data

datatype derive_error =
    GenericsNotSupported
  | NotNamedFields
  | DuplicateAttribute
  | ArgumentsExpected
  | ExpectedDefault
  | DuplicateDefault
  | DefaultTakesNoValue
  | ExpectedContractDefault

subsection \<open>The attribute\<close>

text \<open>The closure of \<open>parse_nested_meta\<close>, over the arguments from the left.\<close>

fun parse_metas :: "bool \<Rightarrow> meta_item list \<Rightarrow> derive_error + bool" where
  "parse_metas parsed_default [] = Inr parsed_default"
| "parse_metas parsed_default (meta # metas) =
     (if mi_path meta \<noteq> ''default'' then Inl ExpectedDefault
      else if parsed_default then Inl DuplicateDefault
      else if mi_has_value meta then Inl DefaultTakesNoValue
      else parse_metas True metas)"

fun default_attr_from :: "bool \<Rightarrow> attribute_decl list \<Rightarrow> derive_error + bool" where
  "default_attr_from found [] = Inr found"
| "default_attr_from found (attr # attrs) =
     (if ad_path attr \<noteq> ''contract'' then default_attr_from found attrs
      else if found then Inl DuplicateAttribute
      else (case ad_args attr of
              None \<Rightarrow> Inl ArgumentsExpected
            | Some metas \<Rightarrow>
                and_then (parse_metas False metas) (\<lambda>parsed_default.
                  if \<not> parsed_default then Inl ExpectedContractDefault
                  else default_attr_from True attrs)))"

definition has_default_attr :: "field_decl \<Rightarrow> derive_error + bool" where
  "has_default_attr field = default_attr_from False (fd_attrs field)"

subsection \<open>The macros\<close>

text \<open>What both macros check first.\<close>

definition named_fields :: "derive_input \<Rightarrow> derive_error + field_decl list" where
  "named_fields input =
     (if di_generics input \<noteq> [] then Inl GenericsNotSupported
      else (case di_data input of NamedFields fs \<Rightarrow> Inr fs | _ \<Rightarrow> Inl NotNamedFields))"

text \<open>\<open>derive_contract\<close>: the entries of \<open>SHAPE\<close>, a field's shape being that of its type.\<close>

definition derive_contract :: "derive_input \<Rightarrow> derive_error + (string \<times> rust_type \<times> bool) list" where
  "derive_contract input =
     and_then (named_fields input) (\<lambda>fs.
       try_map (\<lambda>f. and_then (has_default_attr f) (\<lambda>d. Inr (fd_ident f, fd_type f, d))) fs)"

record ('t, 'c, 'e) table_engine =
  te_mem_table :: "arrow_schema \<Rightarrow> 'e + 't"
  te_parse_url :: "string \<Rightarrow> 'e + string"
  te_listing_table :: "string \<Rightarrow> string \<Rightarrow> arrow_schema \<Rightarrow> 'e + 't"
  te_register :: "string \<Rightarrow> 't \<Rightarrow> 'c \<Rightarrow> ('e + unit) \<times> 'c"
  te_external :: "mapping_error \<Rightarrow> 'e"

definition connector_schema :: "type_shape \<Rightarrow> mapping_error + arrow_schema" where
  "connector_schema shape = schema shape"

definition register_table ::
    "('t, 'c, 'e) table_engine \<Rightarrow> string \<Rightarrow> 'e + 't \<Rightarrow> 'c \<Rightarrow> ('e + unit) \<times> 'c" where
  "register_table engine name table ctx =
     (case table of Inl e \<Rightarrow> (Inl e, ctx) | Inr t \<Rightarrow> te_register engine name t ctx)"

text \<open>The batches are the table engine's: \<open>te_mem_table\<close> is \<open>MemTable::try_new\<close> on them.\<close>

definition register_memory ::
    "('t, 'c, 'e) table_engine \<Rightarrow> type_shape \<Rightarrow> string \<Rightarrow> 'c \<Rightarrow> ('e + unit) \<times> 'c" where
  "register_memory engine shape name ctx =
     register_table engine name
       (and_then (map_err (te_external engine) (connector_schema shape)) (te_mem_table engine)) ctx"

text \<open>\<open>register_parquet\<close> and \<open>register_csv\<close> differ in the file format alone.\<close>

definition register_listing ::
    "string \<Rightarrow> ('t, 'c, 'e) table_engine \<Rightarrow> type_shape \<Rightarrow> string \<Rightarrow> string \<Rightarrow> 'c \<Rightarrow> ('e + unit) \<times> 'c" where
  "register_listing format engine shape name path ctx =
     register_table engine name
       (and_then (map_err (te_external engine) (connector_schema shape)) (\<lambda>sch.
        and_then (te_parse_url engine path) (\<lambda>table_path.
          te_listing_table engine format table_path sch))) ctx"

definition register_parquet ::
    "('t, 'c, 'e) table_engine \<Rightarrow> type_shape \<Rightarrow> string \<Rightarrow> string \<Rightarrow> 'c \<Rightarrow> ('e + unit) \<times> 'c" where
  "register_parquet = register_listing ''parquet''"

definition register_csv ::
    "('t, 'c, 'e) table_engine \<Rightarrow> type_shape \<Rightarrow> string \<Rightarrow> string \<Rightarrow> 'c \<Rightarrow> ('e + unit) \<times> 'c" where
  "register_csv = register_listing ''csv''"

text \<open>\<open>derive_connector\<close>: the accessors, by name and the column each reads.\<close>

definition derive_connector :: "derive_input \<Rightarrow> derive_error + (string \<times> string) list" where
  "derive_connector input =
     and_then (named_fields input) (\<lambda>fs. Inr (map (\<lambda>f. (''col_'' @ fd_ident f, fd_ident f)) fs))"

subsection \<open>What the macros guarantee\<close>

definition contract_attrs :: "attribute_decl list \<Rightarrow> attribute_decl list" where
  "contract_attrs attrs = filter (\<lambda>a. ad_path a = ''contract'') attrs"

text \<open>\<open>#[contract(default)]\<close>, and nothing else.\<close>

definition default_attr :: "attribute_decl \<Rightarrow> bool" where
  "default_attr a \<longleftrightarrow> ad_path a = ''contract'' \<and>
     (\<exists>m. ad_args a = Some [m] \<and> mi_path m = ''default'' \<and> \<not> mi_has_value m)"

lemma parse_metas_True: "parse_metas True metas = Inr d \<longleftrightarrow> metas = [] \<and> d"
  by (cases metas) auto

lemma parse_metas_False:
  "parse_metas False metas = Inr True \<longleftrightarrow>
     (\<exists>m. metas = [m] \<and> mi_path m = ''default'' \<and> \<not> mi_has_value m)"
  by (cases metas) (auto simp: parse_metas_True)

lemma attr_true: "default_attr_from True attrs = Inr d \<longleftrightarrow> d \<and> contract_attrs attrs = []"
  by (induction attrs) (auto simp: contract_attrs_def)

lemma attr_false:
  "default_attr_from False attrs = Inr d \<longleftrightarrow>
     (if d then \<exists>a. contract_attrs attrs = [a] \<and> default_attr a else contract_attrs attrs = [])"
proof (induction attrs)
  case (Cons a attrs)
  show ?case
  proof (cases "ad_path a = ''contract''")
    case True
    have "default_attr_from False (a # attrs) = Inr d \<longleftrightarrow>
        default_attr a \<and> d \<and> contract_attrs attrs = []"
      using True parse_metas_False
      by (auto simp: default_attr_def and_then_eq_Inr attr_true split: option.splits if_splits)
    with True show ?thesis by (auto simp: contract_attrs_def)
  next
    case False
    with Cons show ?thesis by (simp add: contract_attrs_def)
  qed
qed (simp add: contract_attrs_def)

text \<open>
  C40. The default marker is read exactly: a field is declared with a default precisely when it
  carries one \<open>contract\<close> attribute and that attribute is \<open>#[contract(default)]\<close>, without
  one precisely when it carries none, and any other form does not compile.
\<close>

theorem default_marker_exact:
  "has_default_attr field = Inr d \<longleftrightarrow>
     (if d then \<exists>a. contract_attrs (fd_attrs field) = [a] \<and> default_attr a
      else contract_attrs (fd_attrs field) = [])"
  by (simp add: has_default_attr_def attr_false)

text \<open>The item a generated struct is parsed as, and its contract: no field has a default.\<close>

definition item_of :: "rust_struct \<Rightarrow> derive_input" where
  "item_of s = \<lparr>di_ident = rs_name s, di_generics = [],
     di_data = NamedFields (map (\<lambda>(n, t). \<lparr>fd_ident = n, fd_type = t, fd_attrs = []\<rparr>) (rs_fields s))\<rparr>"

lemma generated_contract:
  "derive_contract (item_of s) = Inr (map (\<lambda>(n, t). (n, t, False)) (rs_fields s))"
proof -
  have "try_map (\<lambda>f. and_then (has_default_attr f) (\<lambda>d. Inr (fd_ident f, fd_type f, d)))
      (map (\<lambda>(n, t). \<lparr>fd_ident = n, fd_type = t, fd_attrs = []\<rparr>) fs) =
    (Inr (map (\<lambda>(n, t). (n, t, False)) fs) :: derive_error + _)" for fs
    by (induction fs) (auto simp: has_default_attr_def)
  then show ?thesis by (simp add: derive_contract_def named_fields_def item_of_def)
qed

end
