(* ===== verification/PolicyOrder.thy ===== *)
theory PolicyOrder
  imports ContractPolicy
begin

text \<open>
  The eight policies of src/crates/contracts/src/lib.rs ordered by what they accept.
  \<open>Exact\<close> and \<open>ExactUnorderedCI\<close> accept the same pairs, so the order is a preorder; it is
  given by a table and proved to be inclusion of the accepted pairs.
\<close>

subsection \<open>The order\<close>

instantiation schema_policy :: preorder
begin

fun less_eq_schema_policy :: "schema_policy \<Rightarrow> schema_policy \<Rightarrow> bool" where
  "less_eq_schema_policy _ Full \<longleftrightarrow> True"
| "less_eq_schema_policy Exact q \<longleftrightarrow> q = Exact \<or> q = ExactUnorderedCI"
| "less_eq_schema_policy ExactUnorderedCI q \<longleftrightarrow> q = Exact \<or> q = ExactUnorderedCI"
| "less_eq_schema_policy ExactOrdered q \<longleftrightarrow> q = ExactOrdered \<or> q = ExactOrderedCI \<or> q = ExactByPosition"
| "less_eq_schema_policy ExactOrderedCI q \<longleftrightarrow> q = ExactOrderedCI \<or> q = ExactByPosition"
| "less_eq_schema_policy p q \<longleftrightarrow> p = q"

definition less_schema_policy :: "schema_policy \<Rightarrow> schema_policy \<Rightarrow> bool" where
  "less_schema_policy p q \<longleftrightarrow> p \<le> q \<and> \<not> q \<le> p"

instance
proof
  fix p q r :: schema_policy
  show "p < q \<longleftrightarrow> p \<le> q \<and> \<not> q \<le> p" by (rule less_schema_policy_def)
  show "p \<le> p" by (cases p) simp_all
  show "p \<le> q \<Longrightarrow> q \<le> r \<Longrightarrow> p \<le> r" by (cases p; cases q; cases r; simp)
qed

end

definition accepted :: "schema_policy \<Rightarrow> (type_shape \<times> type_shape) set" where
  "accepted pol = {(p, c). conforms p c pol}"

subsection \<open>Larger policies accept more\<close>

lemma by_name_mono:
  assumes mode: "policy_mode pol' = policy_mode pol" "\<not> aligned pol"
    and missing: "\<And>c. tolerates_missing pol c \<Longrightarrow> tolerates_missing pol' c"
    and extra: "tolerates_extra pol \<Longrightarrow> tolerates_extra pol'"
  shows "shape_ok pol p c \<Longrightarrow> shape_ok pol' p c"
proof (induction c arbitrary: p rule: measure_induct_rule [of size])
  case (less c)
  show ?case
  proof (cases c)
    case (Struct cs)
    with less.prems obtain ps where p: "p = Struct ps" and ok: "fields_ok pol ps cs"
      by (cases p) auto
    have "matched pol' ps c'" if c': "c' \<in> set cs" for c'
    proof -
      from ok c' mode have "matched pol ps c'" by (simp add: fields_ok_by_name)
      moreover have "size (fs_shape c') < size c" using field_shape_smaller [OF c'] Struct by simp
      ultimately show ?thesis using less.IH missing
        by (auto simp: matched_def mode split: option.splits)
    qed
    with ok extra mode have "fields_ok pol' ps cs" by (auto simp: fields_ok_by_name)
    then show ?thesis using Struct p by simp
  qed (use less in \<open>cases p; simp\<close>)+
qed

lemma verdict_mono:
  assumes "pol' \<noteq> Full" and "\<And>p c. shape_ok pol p c \<Longrightarrow> shape_ok pol' p c" and "pol \<noteq> Full"
  shows "verdict pol p c \<Longrightarrow> verdict pol' p c"
  using assms by (auto simp: verdict_iff split: if_splits)

lemma weaker_shapes:
  assumes "p \<le> q" and "q \<noteq> Full" and "shape_ok p a b"
  shows "shape_ok q a b"
proof -
  have by_name: "shape_ok Exact a b \<longleftrightarrow> shape_ok ExactUnorderedCI a b"
    using by_name_mono [of Exact ExactUnorderedCI] by_name_mono [of ExactUnorderedCI Exact] by auto
  have chain: "shape_ok ExactOrdered a b \<Longrightarrow> shape_ok ExactOrderedCI a b"
    "shape_ok ExactOrderedCI a b \<Longrightarrow> shape_ok ExactByPosition a b"
    using aligned_mono [of ExactOrdered ExactOrderedCI] aligned_mono [of ExactOrderedCI ExactByPosition]
    by (simp_all add: name_key_def)
  from assms by_name chain show ?thesis by (cases p; cases q; simp)
qed

lemma larger_accepts_more:
  assumes "p \<le> q"
  shows "accepted p \<subseteq> accepted q"
proof (cases "q = Full")
  case True
  then show ?thesis by (auto simp: accepted_def conforms_def compare_full)
next
  case False
  moreover from this assms have "p \<noteq> Full" by (cases p; cases q) simp_all
  ultimately show ?thesis
    using verdict_mono [of q p] weaker_shapes [OF assms] by (auto simp: accepted_def conforms_iff)
qed

subsection \<open>Nothing else is included\<close>

text \<open>Pairs that tell the policies apart.\<close>

definition column :: "string \<Rightarrow> string \<Rightarrow> field_shape" where
  "column n ty = FieldShape n (Primitive ty) False"

definition telling_pairs :: "(type_shape \<times> type_shape) list" where
  "telling_pairs = map (\<lambda>(ps, cs). (Struct ps, Struct cs))
     [([column ''a'' ''i64'', column ''b'' ''bool''], [column ''b'' ''bool'', column ''a'' ''i64'']),
      ([column ''A'' ''i64''], [column ''a'' ''i64'']),
      ([column ''x'' ''i64''], [column ''y'' ''i64'']),
      ([column ''a'' ''i64'', column ''a'' ''i64''], [column ''a'' ''i64'', column ''a'' ''i64'']),
      ([column ''a'' ''i64''], []),
      ([], [column ''a'' ''i64'']),
      ([column ''a'' ''i64'', column ''A'' ''i64''], [column ''a'' ''i64'', column ''A'' ''i64'']),
      ([column ''a'' ''i64''], [column ''a'' ''bool''])]"

definition verdicts :: "schema_policy \<Rightarrow> bool list" where
  "verdicts pol = map (\<lambda>(p, c). conforms p c pol) telling_pairs"

lemma verdict_table:
  "verdicts Exact = [True, True, False, False, False, False, False, False]"
  "verdicts ExactUnorderedCI = [True, True, False, False, False, False, False, False]"
  "verdicts ExactOrdered = [False, False, False, True, False, False, True, False]"
  "verdicts ExactOrderedCI = [False, True, False, True, False, False, True, False]"
  "verdicts ExactByPosition = [False, True, True, True, False, False, True, False]"
  "verdicts Backward = [True, False, False, False, True, False, True, False]"
  "verdicts Forward = [True, False, False, False, False, True, True, False]"
  "verdicts Full = [True, True, True, True, True, True, True, True]"
  by code_simp+

lemma accepted_verdicts: "accepted p \<subseteq> accepted q \<Longrightarrow> list_all2 (\<longrightarrow>) (verdicts p) (verdicts q)"
  by (auto simp: accepted_def verdicts_def list.rel_map intro!: list.rel_refl_strong)

lemma full_accepts_all: "conforms p c Full"
  by (simp add: conforms_def compare_full)

text \<open>
  C25. The policies are ordered exactly by what they accept: ignoring case and then names
  weakens \<open>ExactOrdered\<close> step by step, \<open>Exact\<close> is \<open>ExactUnorderedCI\<close>, and no other policy but
  \<open>Full\<close> is implied by another - in particular neither \<open>Exact\<close> nor \<open>ExactOrdered\<close> implies
  \<open>Backward\<close> or \<open>Forward\<close>.  \<open>Full\<close>, and it alone, accepts every pair of shapes, structs or not.
\<close>

theorem policy_order_is_acceptance:
  "(p \<le> q \<longleftrightarrow> accepted p \<subseteq> accepted q) \<and> (accepted p = UNIV \<longleftrightarrow> p = Full)"
proof
  show "p \<le> q \<longleftrightarrow> accepted p \<subseteq> accepted q"
  proof
    assume "accepted p \<subseteq> accepted q"
    then have "list_all2 (\<longrightarrow>) (verdicts p) (verdicts q)" by (rule accepted_verdicts)
    then show "p \<le> q" by (cases p; cases q; simp add: verdict_table)
  qed (rule larger_accepts_more)
  show "accepted p = UNIV \<longleftrightarrow> p = Full"
  proof
    assume "accepted p = UNIV"
    then have "accepted Full \<subseteq> accepted p" by simp
    then have "list_all2 (\<longrightarrow>) (verdicts Full) (verdicts p)" by (rule accepted_verdicts)
    then show "p = Full" by (cases p; simp add: verdict_table)
  qed (simp add: accepted_def full_accepts_all)
qed

end
