(* ===== verification/UdfValues.thy ===== *)
theory UdfValues
  imports Decimal ArrowTypes
begin

text \<open>
  The values DataFusion hands to a user-defined function: an Arrow array, of one of the
  representations the functions of src/crates/pipeline/src read, or a scalar.  \<open>SimdAdd\<close> and
  \<open>QueryFunctions\<close> share them.  An array of another representation is its data type only;
  nothing but the type is ever read of it.  An \<open>Execution\<close> error is its text.
\<close>

record int32_array =
  int32_values :: "32 word list"
  int32_nulls :: nat

datatype udf_array =
    Int32Column int32_array
  | Int64Column "i64 option list"
  | TimestampColumn "i64 option list"
  | OtherColumn data_type

datatype udf_scalar =
    Int32Scalar "32 word option"
  | Int64Scalar "i64 option"
  | TimestampScalar "i64 option"
  | OtherScalar data_type

datatype udf_value = ArrayValue udf_array | ScalarValue udf_scalar

fun udf_array_type :: "udf_array \<Rightarrow> data_type" where
  "udf_array_type (Int32Column _) = Int32"
| "udf_array_type (Int64Column _) = Int64"
| "udf_array_type (TimestampColumn _) = Timestamp Microsecond None"
| "udf_array_type (OtherColumn ty) = ty"

fun udf_scalar_type :: "udf_scalar \<Rightarrow> data_type" where
  "udf_scalar_type (Int32Scalar _) = Int32"
| "udf_scalar_type (Int64Scalar _) = Int64"
| "udf_scalar_type (TimestampScalar _) = Timestamp Microsecond None"
| "udf_scalar_type (OtherScalar ty) = ty"

fun udf_value_type :: "udf_value \<Rightarrow> data_type" where
  "udf_value_type (ArrayValue a) = udf_array_type a"
| "udf_value_type (ScalarValue v) = udf_scalar_type v"

end
