(* ===== verification/IngestBatch.thy ===== *)
theory IngestBatch
  imports PipelineErrors Decimal
begin

text \<open>
  The fixed ingest schema and its rows: \<open>crates/pipeline/src/batch_contract.rs\<close> and the
  row and batch construction of \<open>crates/pipeline/src/lib.rs\<close>.  An array of the two
  concrete representations is the list of its slots, each a value and its validity bit;
  a \<open>RecordBatch\<close> is its row count and one field and array per column, which is what
  Arrow's constructor guarantees of it.
\<close>

subsection \<open>Arrays and batches\<close>

type_synonym 'a slots = "('a \<times> bool) list"

datatype ingest_array =
    Int64Array "i64 slots"
  | StringArray "string slots"
  | OtherArray "bool list"

record ingest_batch =
  b_columns :: "(arrow_field \<times> ingest_array) list"
  b_rows :: nat

fun validity :: "ingest_array \<Rightarrow> bool list" where
  "validity (Int64Array xs) = map snd xs"
| "validity (StringArray xs) = map snd xs"
| "validity (OtherArray vs) = vs"

definition null_count :: "ingest_array \<Rightarrow> nat" where
  "null_count a = length (filter Not (validity a))"

definition value_at :: "'a slots \<Rightarrow> nat \<Rightarrow> 'a" where
  "value_at xs row = fst (xs ! row)"

definition null_at :: "'a slots \<Rightarrow> nat \<Rightarrow> bool" where
  "null_at xs row \<longleftrightarrow> \<not> snd (xs ! row)"

text \<open>Arrow's guarantee: every column has the batch's row count.\<close>

definition columns_aligned :: "ingest_batch \<Rightarrow> bool" where
  "columns_aligned b \<longleftrightarrow> (\<forall>(f, a) \<in> set (b_columns b). length (validity a) = b_rows b)"

subsection \<open>The contract\<close>

definition INGEST_FIELDS :: "(string \<times> data_type \<times> bool) list" where
  "INGEST_FIELDS = [(''id'', Int64, False), (''name'', Utf8, False), (''note'', Utf8, True)]"

text \<open>\<open>schema\<close> of \<open>lib.rs\<close>.\<close>

definition ingest_schema :: arrow_schema where
  "ingest_schema = map (\<lambda>(name, ty, nullable). field_new name ty nullable) INGEST_FIELDS"

definition invalid :: "batch_violation \<Rightarrow> pipeline_io_error" where
  "invalid violation = InvalidBatch violation"

text \<open>The \<open>for\<close> loop of \<open>validated_columns\<close>, \<open>index\<close> counting up beside the expected fields.\<close>

fun check_fields ::
  "nat \<Rightarrow> (string \<times> data_type \<times> bool) list \<Rightarrow> (arrow_field \<times> ingest_array) list \<Rightarrow>
   pipeline_io_error + unit" where
  "check_fields i ((name, ty, nullable) # expected) ((f, a) # columns) =
     (if f_name f \<noteq> name then Inl (invalid (FieldName i name (f_name f)))
      else if f_type f \<noteq> ty then Inl (invalid (DataTypeViolation i ty (f_type f)))
      else if f_nullable f \<noteq> nullable then Inl (invalid (Nullability i nullable (f_nullable f)))
      else if \<not> nullable \<and> null_count a \<noteq> 0 then Inl (invalid (NullValues i (null_count a)))
      else check_fields (i + 1) expected columns)"
| "check_fields i _ _ = Inr ()"

fun as_int64 :: "ingest_array \<Rightarrow> i64 slots option" where
  "as_int64 (Int64Array xs) = Some xs"
| "as_int64 _ = None"

fun as_string :: "ingest_array \<Rightarrow> string slots option" where
  "as_string (StringArray xs) = Some xs"
| "as_string _ = None"

definition validated_columns ::
  "ingest_batch \<Rightarrow> pipeline_io_error + (i64 slots \<times> string slots \<times> string slots)" where
  "validated_columns b =
     (if length (b_columns b) \<noteq> length INGEST_FIELDS
      then Inl (invalid (ColumnCount (length INGEST_FIELDS) (length (b_columns b))))
      else and_then (check_fields 0 INGEST_FIELDS (b_columns b)) (\<lambda>_.
        and_then (ok_or (invalid (ArrayRepresentation 0)) (as_int64 (snd (b_columns b ! 0)))) (\<lambda>ids.
        and_then (ok_or (invalid (ArrayRepresentation 1)) (as_string (snd (b_columns b ! 1)))) (\<lambda>names.
        and_then (ok_or (invalid (ArrayRepresentation 2)) (as_string (snd (b_columns b ! 2)))) (\<lambda>notes.
          Inr (ids, names, notes))))))"

definition validate_ingest_batch :: "ingest_batch \<Rightarrow> pipeline_io_error + unit" where
  "validate_ingest_batch b = and_then (validated_columns b) (\<lambda>_. Inr ())"

record checked_batch =
  cb_batch :: ingest_batch
  cb_ids :: "i64 slots"
  cb_names :: "string slots"
  cb_notes :: "string slots"

text \<open>\<open>CheckedIngestBatch::try_new\<close>.\<close>

definition checked_try_new :: "ingest_batch \<Rightarrow> pipeline_io_error + checked_batch" where
  "checked_try_new b =
     and_then (validated_columns b) (\<lambda>(ids, names, notes).
       Inr \<lparr>cb_batch = b, cb_ids = ids, cb_names = names, cb_notes = notes\<rparr>)"

subsection \<open>Rows\<close>

record row =
  r_id :: i64
  r_name :: string
  r_note :: "string option"

text \<open>\<open>record.get(i).unwrap_or_default()\<close>.\<close>

definition get_field :: "string list \<Rightarrow> nat \<Rightarrow> string" where
  "get_field record i = (if i < length record then record ! i else '''')"

definition parse_id :: "nat \<Rightarrow> string list \<Rightarrow> pipeline_io_error + i64" where
  "parse_id row record =
     (let id_field = get_field record 0 in ok_or (InvalidId row id_field) (parse_i64 id_field))"

definition parse_row :: "nat \<Rightarrow> string list \<Rightarrow> pipeline_io_error + row" where
  "parse_row row record =
     and_then (parse_id row record) (\<lambda>id.
       let name = get_field record 1;
           note = (if get_field record 2 = '''' then None else Some (get_field record 2))
       in Inr \<lparr>r_id = id, r_name = name, r_note = note\<rparr>)"

text \<open>
  \<open>read_csv_rows\<close> over what the file system and the CSV reader deliver: a failure to open,
  or one result per record.
\<close>

fun collect_rows ::
  "(nat \<Rightarrow> string list \<Rightarrow> pipeline_io_error + 'a) \<Rightarrow> nat \<Rightarrow> (foreign + string list) list \<Rightarrow>
   pipeline_io_error + 'a list" where
  "collect_rows parse row [] = Inr []"
| "collect_rows parse row (record # records) =
     and_then (map_err ReadRecord record) (\<lambda>record.
     and_then (parse row record) (\<lambda>x.
     and_then (collect_rows parse (row + 1) records) (\<lambda>xs. Inr (x # xs))))"

definition read_csv_rows ::
  "file_path \<Rightarrow> foreign + (foreign + string list) list \<Rightarrow>
   (nat \<Rightarrow> string list \<Rightarrow> pipeline_io_error + 'a) \<Rightarrow> pipeline_io_error + 'a list" where
  "read_csv_rows path opened parse =
     and_then (map_err (OpenInput path) opened) (\<lambda>records. collect_rows parse 0 records)"

text \<open>\<open>batch_from_rows\<close>, over Arrow's \<open>RecordBatch::try_new\<close>.\<close>

definition ids_of :: "row list \<Rightarrow> i64 slots" where
  "ids_of rows = map (\<lambda>r. (r_id r, True)) rows"

definition names_of :: "row list \<Rightarrow> string slots" where
  "names_of rows = map (\<lambda>r. (r_name r, True)) rows"

definition notes_of :: "row list \<Rightarrow> string slots" where
  "notes_of rows = map (\<lambda>r. case r_note r of Some n \<Rightarrow> (n, True) | None \<Rightarrow> ('''', False)) rows"

definition batch_from_rows ::
  "(arrow_schema \<Rightarrow> ingest_array list \<Rightarrow> foreign + ingest_batch) \<Rightarrow> row list \<Rightarrow>
   pipeline_io_error + ingest_batch" where
  "batch_from_rows try_new rows =
     map_err BuildBatch
       (try_new ingest_schema
          [Int64Array (ids_of rows), StringArray (names_of rows), StringArray (notes_of rows)])"

text \<open>\<open>fixture_to_record_batch\<close>, \<open>fixture_to_record_batches\<close> (\<open>chunks\<close> of at most \<open>n\<close> rows).\<close>

function chunks :: "nat \<Rightarrow> 'a list \<Rightarrow> 'a list list" where
  "chunks n xs = (if xs = [] \<or> n = 0 then [] else take n xs # chunks n (drop n xs))"
  by pat_completeness auto
termination by (relation "measure (\<lambda>(n, xs). length xs)") auto

declare chunks.simps [simp del]

definition fixture_to_record_batch ::
  "(arrow_schema \<Rightarrow> ingest_array list \<Rightarrow> foreign + ingest_batch) \<Rightarrow> file_path \<Rightarrow>
   foreign + (foreign + string list) list \<Rightarrow> pipeline_io_error + ingest_batch" where
  "fixture_to_record_batch try_new path opened =
     and_then (read_csv_rows path opened parse_row) (batch_from_rows try_new)"

text \<open>\<open>None\<close> is the panic of \<open>assert!(batch_size > 0)\<close>.\<close>

definition fixture_to_record_batches ::
  "(arrow_schema \<Rightarrow> ingest_array list \<Rightarrow> foreign + ingest_batch) \<Rightarrow> file_path \<Rightarrow>
   foreign + (foreign + string list) list \<Rightarrow> nat \<Rightarrow> (pipeline_io_error + ingest_batch list) option" where
  "fixture_to_record_batches try_new path opened batch_size =
     (if \<not> batch_size > 0 then None
      else Some (and_then (read_csv_rows path opened parse_row) (\<lambda>rows.
             try_map (batch_from_rows try_new) (chunks batch_size rows))))"

subsection \<open>The first violation\<close>

definition field_violations ::
  "nat \<Rightarrow> string \<times> data_type \<times> bool \<Rightarrow> arrow_field \<times> ingest_array \<Rightarrow> batch_violation list" where
  "field_violations i e c =
     (case (e, c) of ((name, ty, nullable), (f, a)) \<Rightarrow>
       [FieldName i name (f_name f). f_name f \<noteq> name] @
       [DataTypeViolation i ty (f_type f). f_type f \<noteq> ty] @
       [Nullability i nullable (f_nullable f). f_nullable f \<noteq> nullable] @
       [NullValues i (null_count a). \<not> nullable \<and> null_count a \<noteq> 0])"

fun column_violations ::
  "nat \<Rightarrow> (string \<times> data_type \<times> bool) list \<Rightarrow> (arrow_field \<times> ingest_array) list \<Rightarrow>
   batch_violation list" where
  "column_violations i (e # es) (c # cs) = field_violations i e c @ column_violations (i + 1) es cs"
| "column_violations i _ _ = []"

text \<open>Everything wrong with a batch, columns left to right and then the representations.\<close>

definition contract_violations :: "ingest_batch \<Rightarrow> batch_violation list" where
  "contract_violations b =
     (if length (b_columns b) \<noteq> 3 then [ColumnCount 3 (length (b_columns b))]
      else column_violations 0 INGEST_FIELDS (b_columns b) @
        [ArrayRepresentation 0. as_int64 (snd (b_columns b ! 0)) = None] @
        [ArrayRepresentation 1. as_string (snd (b_columns b ! 1)) = None] @
        [ArrayRepresentation 2. as_string (snd (b_columns b ! 2)) = None])"

definition first_violation :: "batch_violation list \<Rightarrow> pipeline_io_error + unit" where
  "first_violation vs = (case vs of [] \<Rightarrow> Inr () | v # _ \<Rightarrow> Inl (InvalidBatch v))"

lemma check_fields_first:
  "check_fields i es cs = first_violation (column_violations i es cs)"
  by (induction i es cs rule: check_fields.induct)
    (auto simp: field_violations_def first_violation_def invalid_def)

lemma first_violation_append:
  "first_violation (us @ vs) = and_then (first_violation us) (\<lambda>_. first_violation vs)"
  by (cases us) (simp_all add: first_violation_def)

text \<open>
  The runtime contract check reports exactly the first of the batch's violations in
  the documented order: column count, then per column name, type, nullability and nulls,
  then the array representations; it accepts exactly the batches that have none.
\<close>

theorem ingest_check_first_violation:
  "validate_ingest_batch b = first_violation (contract_violations b)"
proof (cases "length (b_columns b) = 3")
  case False
  then show ?thesis
    by (simp add: validate_ingest_batch_def validated_columns_def contract_violations_def
        first_violation_def invalid_def INGEST_FIELDS_def)
next
  case True
  have len: "length INGEST_FIELDS = 3" by (simp add: INGEST_FIELDS_def)
  have ok: "and_then (ok_or e x) f = (case x of None \<Rightarrow> Inl e | Some y \<Rightarrow> f y)"
    for e :: pipeline_io_error and x :: "'a option" and f :: "'a \<Rightarrow> pipeline_io_error + 'b"
    by (cases x) simp_all
  show ?thesis
    unfolding validate_ingest_batch_def validated_columns_def contract_violations_def len
      check_fields_first
    using True
    by (cases "column_violations 0 INGEST_FIELDS (b_columns b)")
      (auto simp: first_violation_append first_violation_def invalid_def ok split: option.split)
qed

subsection \<open>From rows to a checked batch and back\<close>

text \<open>What Arrow documents of \<open>RecordBatch::try_new\<close>, for the three ingest columns.\<close>

definition conforming_columns :: "arrow_schema \<Rightarrow> ingest_array list \<Rightarrow> bool" where
  "conforming_columns sch arrays \<longleftrightarrow> length sch = length arrays \<and>
     (\<forall>(f, a) \<in> set (zip sch arrays).
        (f_nullable f \<or> null_count a = 0) \<and>
        (case a of Int64Array _ \<Rightarrow> f_type f = Int64 | StringArray _ \<Rightarrow> f_type f = Utf8
         | OtherArray _ \<Rightarrow> f_type f \<noteq> Int64 \<and> f_type f \<noteq> Utf8)) \<and>
     (\<exists>n. \<forall>a \<in> set arrays. length (validity a) = n)"

definition try_new_documented ::
  "(arrow_schema \<Rightarrow> ingest_array list \<Rightarrow> foreign + ingest_batch) \<Rightarrow> bool" where
  "try_new_documented try_new \<longleftrightarrow>
     (\<forall>sch arrays. conforming_columns sch arrays \<longrightarrow> arrays \<noteq> [] \<longrightarrow>
        try_new sch arrays =
          Inr \<lparr>b_columns = zip sch arrays, b_rows = length (validity (hd arrays))\<rparr>)"

text \<open>The rows a checked batch holds, as the digest reads them.\<close>

definition checked_row :: "checked_batch \<Rightarrow> nat \<Rightarrow> row" where
  "checked_row cb i =
     \<lparr>r_id = value_at (cb_ids cb) i, r_name = value_at (cb_names cb) i,
      r_note = (if null_at (cb_notes cb) i then None else Some (value_at (cb_notes cb) i))\<rparr>"

definition checked_rows :: "checked_batch \<Rightarrow> row list" where
  "checked_rows cb = map (checked_row cb) [0..<b_rows (cb_batch cb)]"

definition checked_of_rows :: "row list \<Rightarrow> checked_batch" where
  "checked_of_rows rows =
     \<lparr>cb_batch = \<lparr>b_columns = zip ingest_schema
          [Int64Array (ids_of rows), StringArray (names_of rows), StringArray (notes_of rows)],
        b_rows = length rows\<rparr>,
      cb_ids = ids_of rows, cb_names = names_of rows, cb_notes = notes_of rows\<rparr>"

lemma no_nulls: "filter Not (map snd (ids_of rows)) = []" "filter Not (map snd (names_of rows)) = []"
  by (simp_all add: ids_of_def names_of_def comp_def)

lemma slot_lengths [simp]:
  "length (ids_of rows) = length rows" "length (names_of rows) = length rows"
  "length (notes_of rows) = length rows"
  by (simp_all add: ids_of_def names_of_def notes_of_def)

lemmas ingest_schema_simps = ingest_schema_def INGEST_FIELDS_def field_new_def

lemma batch_from_rows_ok:
  assumes "try_new_documented try_new"
  shows "batch_from_rows try_new rows = Inr (cb_batch (checked_of_rows rows))"
proof -
  let ?arrays = "[Int64Array (ids_of rows), StringArray (names_of rows), StringArray (notes_of rows)]"
  have "conforming_columns ingest_schema ?arrays"
    by (auto simp: conforming_columns_def ingest_schema_simps null_count_def no_nulls)
  with assms show ?thesis
    by (simp add: try_new_documented_def batch_from_rows_def checked_of_rows_def)
qed

lemma checked_of_rows_ok:
  "checked_try_new (cb_batch (checked_of_rows rows)) = Inr (checked_of_rows rows)"
  by (simp add: checked_try_new_def validated_columns_def checked_of_rows_def ingest_schema_simps
      null_count_def no_nulls)

lemma checked_rows_of_rows: "checked_rows (checked_of_rows rows) = rows"
proof (rule nth_equalityI)
  show "length (checked_rows (checked_of_rows rows)) = length rows"
    by (simp add: checked_rows_def checked_of_rows_def)
next
  fix i
  assume "i < length (checked_rows (checked_of_rows rows))"
  then have i: "i < length rows" by (simp add: checked_rows_def checked_of_rows_def)
  then show "checked_rows (checked_of_rows rows) ! i = rows ! i"
    by (cases "rows ! i")
      (simp add: checked_rows_def checked_row_def checked_of_rows_def value_at_def null_at_def
        ids_of_def names_of_def notes_of_def split: option.split)
qed

text \<open>An executable instance of Arrow's constructor.\<close>

definition arrow_try_new :: "arrow_schema \<Rightarrow> ingest_array list \<Rightarrow> foreign + ingest_batch" where
  "arrow_try_new sch arrays =
     (if arrays = [] then Inl ''must either specify a row count or at least one column''
      else if conforming_columns sch arrays
      then Inr \<lparr>b_columns = zip sch arrays, b_rows = length (validity (hd arrays))\<rparr>
      else Inl ''column types must match schema types'')"

lemma arrow_try_new_documented: "try_new_documented arrow_try_new"
  by (simp add: try_new_documented_def arrow_try_new_def)

text \<open>
  The batch built from parsed rows always passes the runtime contract, and the
  checked batch holds exactly those rows in order: ids and names are never null, and a
  note is null exactly where the row has none.
\<close>

theorem rows_survive_checking:
  assumes "try_new_documented try_new" and "batch_from_rows try_new rows = Inr b"
  shows "\<exists>cb. checked_try_new b = Inr cb \<and> checked_rows cb = rows"
  using assms checked_of_rows_ok checked_rows_of_rows batch_from_rows_ok by fastforce

lemma rows_survive_checking_witness:
  "\<exists>b cb. batch_from_rows arrow_try_new [\<lparr>r_id = 7, r_name = ''a'', r_note = None\<rparr>] = Inr b \<and>
     checked_try_new b = Inr cb \<and> checked_rows cb = [\<lparr>r_id = 7, r_name = ''a'', r_note = None\<rparr>]"
  using rows_survive_checking [OF arrow_try_new_documented batch_from_rows_ok [OF arrow_try_new_documented]]
    batch_from_rows_ok [OF arrow_try_new_documented] by blast

subsection \<open>Chunks\<close>

lemma chunks_concat: "n > 0 \<Longrightarrow> concat (chunks n xs) = xs"
  by (induction n xs rule: chunks.induct) (simp add: chunks.simps)

lemma chunks_bounds: "c \<in> set (chunks n xs) \<Longrightarrow> c \<noteq> [] \<and> length c \<le> n"
proof (induction n xs rule: chunks.induct)
  case (1 n xs)
  then show ?case by (subst (asm) chunks.simps) (auto split: if_splits)
qed

lemma try_map_Inr: "(\<And>x. x \<in> set xs \<Longrightarrow> f x = Inr (g x)) \<Longrightarrow> try_map f xs = Inr (map g xs)"
  by (induction xs) auto

text \<open>
  Splitting a fixture into batches loses and reorders nothing: with a positive batch
  size every batch is non-empty, holds at most that many rows and passes the runtime
  contract, and the rows of all batches in order are the rows of the single batch.
\<close>

theorem batches_partition_rows:
  assumes "try_new_documented try_new" and "n > 0"
    and "read_csv_rows path opened parse_row = Inr rows"
  shows "\<exists>cbs. fixture_to_record_batches try_new path opened n = Some (Inr (map cb_batch cbs)) \<and>
    fixture_to_record_batch try_new path opened = Inr (cb_batch (checked_of_rows rows)) \<and>
    (\<forall>cb \<in> set cbs. checked_try_new (cb_batch cb) = Inr cb \<and>
       checked_rows cb \<noteq> [] \<and> length (checked_rows cb) \<le> n) \<and>
    concat (map checked_rows cbs) = rows"
proof (intro exI conjI ballI)
  let ?cbs = "map checked_of_rows (chunks n rows)"
  show "fixture_to_record_batches try_new path opened n = Some (Inr (map cb_batch ?cbs))"
    using assms(2,3) batch_from_rows_ok [OF assms(1)]
    by (simp add: fixture_to_record_batches_def try_map_Inr)
  show "fixture_to_record_batch try_new path opened = Inr (cb_batch (checked_of_rows rows))"
    using assms(3) batch_from_rows_ok [OF assms(1)] by (simp add: fixture_to_record_batch_def)
  show "concat (map checked_rows ?cbs) = rows"
    using chunks_concat [OF assms(2)] by (simp add: checked_rows_of_rows comp_def)
  fix cb
  assume "cb \<in> set ?cbs"
  then obtain c where c: "cb = checked_of_rows c" "c \<in> set (chunks n rows)" by auto
  then show "checked_try_new (cb_batch cb) = Inr cb" by (simp add: checked_of_rows_ok)
  show "checked_rows cb \<noteq> []" and "length (checked_rows cb) \<le> n"
    using c chunks_bounds [OF c(2)] by (simp_all add: checked_rows_of_rows)
qed

lemma batches_partition_rows_witness:
  "\<exists>cbs. fixture_to_record_batches arrow_try_new ''f.csv''
      (Inr [Inr [''1'', ''a'', ''''], Inr [''2'', ''b'', ''x''], Inr [''3'', ''c'', '''']]) 2 =
      Some (Inr (map cb_batch cbs)) \<and>
    map r_id (concat (map checked_rows cbs)) = [1, 2, 3]"
proof -
  let ?opened = "Inr [Inr [''1'', ''a'', ''''], Inr [''2'', ''b'', ''x''], Inr [''3'', ''c'', '''']]"
  have "read_csv_rows ''f.csv'' ?opened parse_row =
      Inr [\<lparr>r_id = 1, r_name = ''a'', r_note = None\<rparr>, \<lparr>r_id = 2, r_name = ''b'', r_note = Some ''x''\<rparr>,
           \<lparr>r_id = 3, r_name = ''c'', r_note = None\<rparr>]"
    by (simp add: read_csv_rows_def parse_row_def parse_id_def get_field_def parse_i64_def parse_signed_def
        is_ascii_digit_def in_i64_def Let_def)
  from batches_partition_rows [OF arrow_try_new_documented _ this, of 2] show ?thesis
    by fastforce
qed

subsection \<open>Reading ids\<close>

text \<open>
  A row whose first field is the decimal rendering of an integer parses to that id
  exactly when the integer fits in 64 signed bits, otherwise to \<open>InvalidId\<close> with the
  row index and the offending text; an empty note field becomes a null, any other is kept.
\<close>

theorem parse_row_reads_back:
  "parse_row i [show_int n, name, note] =
     (if in_i64 n
      then Inr \<lparr>r_id = word_of_int n, r_name = name,
                r_note = (if note = '''' then None else Some note)\<rparr>
      else Inl (InvalidId i (show_int n)))"
  by (simp add: parse_row_def parse_id_def get_field_def parse_i64_show)

end
