(* ===== verification/OrderRows.thy ===== *)
theory OrderRows
  imports IngestBatch RustStr
begin

text \<open>
  The order and shipment fixtures of src/crates/pipeline/src/datafusion_query.rs: their
  schemas, the parsing of one CSV record, and the batch built from the rows.

  An \<open>i128\<close> is an integer with the range test of each checked operation written out.
  The \<open>chrono\<close> parser is the parameter \<open>naive\<close> (a text to its microseconds since the epoch,
  \<open>None\<close> if it is not of the required form); Arrow's two constructors are the parameters
  \<open>with_scale\<close> and \<open>try_new\<close>.
\<close>

subsection \<open>Schemas\<close>

definition orders_schema :: arrow_schema where
  "orders_schema =
     [field_new ''id'' Int64 False,
      field_new ''amount'' (Decimal128 10 2) False,
      field_new ''placed_at'' (Timestamp Microsecond None) False,
      field_new ''note'' Utf8 True]"

definition shipments_schema :: arrow_schema where
  "shipments_schema =
     [field_new ''order_id'' Int64 False,
      field_new ''carrier'' Utf8 False,
      field_new ''shipped_at'' (Timestamp Microsecond None) False]"

subsection \<open>Amounts\<close>

definition in_i128 :: "int \<Rightarrow> bool" where
  "in_i128 n \<longleftrightarrow> - (2 ^ 127) \<le> n \<and> n < 2 ^ 127"

definition i128 :: "int \<Rightarrow> int option" where
  "i128 n = (if in_i128 n then Some n else None)"

definition parse_i128 :: "string \<Rightarrow> int option" where
  "parse_i128 s = Option.bind (parse_signed s) i128"

definition strip_sign :: "string \<Rightarrow> string" where
  "strip_sign whole =
     (case whole of
        c # rest \<Rightarrow> if c = CHR ''-'' then rest else if c = CHR ''+'' then rest else whole
      | [] \<Rightarrow> whole)"

definition parse_amount :: "nat \<Rightarrow> string \<Rightarrow> pipeline_io_error + int" where
  "parse_amount row value =
     (let invalid = InvalidAmount row value in
      and_then (ok_or invalid (split_once CHR ''.'' value)) (\<lambda>(whole, frac).
        let ds = strip_sign whole in
        if ds = [] \<or> \<not> list_all is_ascii_digit ds \<or> length frac \<noteq> 2 \<or>
           \<not> list_all is_ascii_digit frac
        then Inl invalid
        else
          and_then (ok_or invalid (parse_i128 whole)) (\<lambda>whole.
          and_then (ok_or invalid (parse_i128 frac)) (\<lambda>frac.
            let sign = (if value \<noteq> [] \<and> hd value = CHR ''-'' then - 1 else 1) in
            ok_or invalid
              (Option.bind (i128 (whole * 100)) (\<lambda>scaled.
               Option.bind (i128 (scaled + sign * frac)) (\<lambda>amount.
                 if - 9999999999 \<le> amount \<and> amount \<le> 9999999999 then Some amount else None)))))))"

definition parse_timestamp ::
    "(string \<Rightarrow> i64 option) \<Rightarrow> nat \<Rightarrow> string \<Rightarrow> pipeline_io_error + i64" where
  "parse_timestamp naive row value = ok_or (InvalidTimestamp row value) (naive value)"

subsection \<open>Rows\<close>

record order_row =
  order_id :: i64
  order_amount :: int
  order_placed_at :: i64
  order_note :: "string option"

record shipment_row =
  shipment_order_id :: i64
  shipment_carrier :: string
  shipment_shipped_at :: i64

definition parse_order_row ::
    "(string \<Rightarrow> i64 option) \<Rightarrow> nat \<Rightarrow> string list \<Rightarrow> pipeline_io_error + order_row" where
  "parse_order_row naive row record =
     and_then (parse_id row record) (\<lambda>id.
     and_then (parse_amount row (get_field record 1)) (\<lambda>amount.
     and_then (parse_timestamp naive row (get_field record 2)) (\<lambda>placed_at.
       let note = (if get_field record 3 = '''' then None else Some (get_field record 3)) in
       Inr \<lparr>order_id = id, order_amount = amount, order_placed_at = placed_at,
            order_note = note\<rparr>)))"

definition parse_shipment_row ::
    "(string \<Rightarrow> i64 option) \<Rightarrow> nat \<Rightarrow> string list \<Rightarrow> pipeline_io_error + shipment_row" where
  "parse_shipment_row naive row record =
     and_then (parse_id row record) (\<lambda>id.
     let carrier = get_field record 1 in
     and_then (parse_timestamp naive row (get_field record 2)) (\<lambda>shipped_at.
       Inr \<lparr>shipment_order_id = id, shipment_carrier = carrier,
            shipment_shipped_at = shipped_at\<rparr>))"

subsection \<open>Batches\<close>

datatype fixture_array =
    Ids "i64 option list"
  | Decimals "int option list"
  | Timestamps "i64 option list"
  | Texts "string option list"

definition rows_to_orders_batch ::
    "(int list \<Rightarrow> int \<Rightarrow> int \<Rightarrow> foreign + fixture_array) \<Rightarrow>
     (arrow_schema \<Rightarrow> fixture_array list \<Rightarrow> foreign + 'batch) \<Rightarrow>
     order_row list \<Rightarrow> pipeline_io_error + 'batch" where
  "rows_to_orders_batch with_scale try_new rows =
     (let ids = Ids (map (Some \<circ> order_id) rows) in
      and_then (map_err BuildBatch (with_scale (map order_amount rows) 10 2)) (\<lambda>amounts.
        let placed_ats = Timestamps (map (Some \<circ> order_placed_at) rows);
            notes = Texts (map order_note rows)
        in map_err BuildBatch (try_new orders_schema [ids, amounts, placed_ats, notes])))"

definition rows_to_shipments_batch ::
    "(arrow_schema \<Rightarrow> fixture_array list \<Rightarrow> foreign + 'batch) \<Rightarrow>
     shipment_row list \<Rightarrow> pipeline_io_error + 'batch" where
  "rows_to_shipments_batch try_new rows =
     (let order_ids = Ids (map (Some \<circ> shipment_order_id) rows);
          carriers = Texts (map (Some \<circ> shipment_carrier) rows);
          shipped_ats = Timestamps (map (Some \<circ> shipment_shipped_at) rows)
      in map_err BuildBatch (try_new shipments_schema [order_ids, carriers, shipped_ats]))"

definition fixture_to_orders_batch ::
    "(string \<Rightarrow> i64 option) \<Rightarrow>
     (int list \<Rightarrow> int \<Rightarrow> int \<Rightarrow> foreign + fixture_array) \<Rightarrow>
     (arrow_schema \<Rightarrow> fixture_array list \<Rightarrow> foreign + 'batch) \<Rightarrow>
     file_path \<Rightarrow> foreign + (foreign + string list) list \<Rightarrow> pipeline_io_error + 'batch" where
  "fixture_to_orders_batch naive with_scale try_new path opened =
     and_then (read_csv_rows path opened (parse_order_row naive))
       (rows_to_orders_batch with_scale try_new)"

definition fixture_to_shipments_batch ::
    "(string \<Rightarrow> i64 option) \<Rightarrow>
     (arrow_schema \<Rightarrow> fixture_array list \<Rightarrow> foreign + 'batch) \<Rightarrow>
     file_path \<Rightarrow> foreign + (foreign + string list) list \<Rightarrow> pipeline_io_error + 'batch" where
  "fixture_to_shipments_batch naive try_new path opened =
     and_then (read_csv_rows path opened (parse_shipment_row naive))
       (rows_to_shipments_batch try_new)"

subsection \<open>What an amount is\<close>

text \<open>A sign, digits, a point and two digits; the value is in hundredths.\<close>

definition amount_text :: "string \<Rightarrow> int \<Rightarrow> bool" where
  "amount_text v a \<longleftrightarrow>
     (\<exists>sg ds cs. v = sg @ ds @ CHR ''.'' # cs \<and> sg \<in> set sign_texts \<and>
        ds \<noteq> [] \<and> list_all is_ascii_digit ds \<and> length cs = 2 \<and> list_all is_ascii_digit cs \<and>
        a = sign_factor sg * (digits_value ds * 100 + digits_value cs))"

lemma strip_sign_form:
  assumes "ds = strip_sign whole"
  obtains sg where "sg \<in> set sign_texts" and "whole = sg @ ds"
    and "sg = ''-'' \<longleftrightarrow> whole \<noteq> [] \<and> hd whole = CHR ''-''"
proof (cases whole)
  case Nil
  then show thesis using assms that [of "''''"] by (simp add: strip_sign_def sign_texts_def)
next
  case (Cons c rest)
  then show thesis
    using assms that [of "''''"] that [of "''-''"] that [of "''+''"]
    by (auto simp: strip_sign_def sign_texts_def split: if_splits)
qed

text \<open>A point-separated text with well-formed halves parses to its value, bounds permitting.\<close>

lemma parse_amount_form:
  assumes sg: "sg \<in> set sign_texts" and ds: "ds \<noteq> []" "list_all is_ascii_digit ds"
    and cs: "length cs = 2" "list_all is_ascii_digit cs"
    and v: "v = sg @ ds @ CHR ''.'' # cs"
    and a: "a = sign_factor sg * (digits_value ds * 100 + digits_value cs)"
  shows "parse_amount row v = (if \<bar>a\<bar> \<le> 9999999999 then Inr a else Inl (InvalidAmount row v))"
proof -
  obtain d ds' where dd: "ds = d # ds'" using ds(1) by (cases ds) auto
  have d: "d \<noteq> CHR ''-''" "d \<noteq> CHR ''+''" "d \<noteq> CHR ''.''"
    using ds(2) dd ascii_digit_no_sign [of d] by auto
  have "CHR ''.'' \<notin> set ds" using ds(2) ascii_digit_no_sign by (auto simp: list_all_iff)
  then have "CHR ''.'' \<notin> set (sg @ ds)" using sg by (auto simp: sign_texts_def)
  from split_once_at [OF this, of cs] have split: "split_once CHR ''.'' v = Some (sg @ ds, cs)"
    by (simp add: v)
  have strip: "strip_sign (sg @ ds) = ds"
    using sg d dd by (auto simp: strip_sign_def sign_texts_def)
  have whole: "parse_signed (sg @ ds) = Some (sign_factor sg * digits_value ds)"
    by (rule parse_signed_value [OF sg ds(2,1)])
  have "cs \<noteq> []" using cs(1) by auto
  from parse_signed_value [of "''''", OF _ cs(2) this]
  have frac: "parse_signed cs = Some (digits_value cs)"
    by (simp add: sign_texts_def sign_factor_def)
  have sign: "(if v \<noteq> [] \<and> hd v = CHR ''-'' then - 1 else 1) = sign_factor sg"
    using sg d dd v by (auto simp: sign_texts_def sign_factor_def)
  obtain c1 c2 where "cs = [c1, c2]" using cs(1) by (auto simp: length_Suc_conv numeral_2_eq_2)
  then have small: "0 \<le> digits_value cs" "digits_value cs \<le> 99"
    using cs(2) by (auto simp: digits_value_def is_ascii_digit_def)
  have nonneg: "0 \<le> digits_value ds" by (rule digits_value_nonneg [OF ds(2)])
  let ?w = "sign_factor sg * digits_value ds"
  have sum_a: "?w * 100 + sign_factor sg * digits_value cs = a" by (simp add: a algebra_simps)
  have abs: "\<bar>a\<bar> = digits_value ds * 100 + digits_value cs"
    using small nonneg by (auto simp: a sign_factor_def)
  have fits: "in_i128 ?w \<and> in_i128 (?w * 100) \<and> in_i128 a" if "\<bar>a\<bar> \<le> 9999999999"
    using that abs small nonneg by (auto simp: in_i128_def sign_factor_def)
  have frac_fits: "in_i128 (digits_value cs)" using small by (simp add: in_i128_def)
  have step: "parse_amount row v =
      and_then (ok_or (InvalidAmount row v) (i128 ?w)) (\<lambda>whole.
        ok_or (InvalidAmount row v)
          (Option.bind (i128 (whole * 100)) (\<lambda>scaled.
           Option.bind (i128 (scaled + sign_factor sg * digits_value cs)) (\<lambda>amount.
             if - 9999999999 \<le> amount \<and> amount \<le> 9999999999 then Some amount else None))))"
    using ds cs frac_fits
    by (simp add: parse_amount_def Let_def split strip parse_i128_def whole frac sign result_simps
        i128_def)
  show ?thesis
  proof (cases "\<bar>a\<bar> \<le> 9999999999")
    case True
    with fits [OF True] sum_a True show ?thesis
      by (simp add: step i128_def result_simps abs_le_iff)
  next
    case False
    with sum_a show ?thesis
      by (auto simp: step i128_def result_simps)
  qed
qed

lemma parse_amount_eq:
  "parse_amount row v = Inr a \<longleftrightarrow> amount_text v a \<and> \<bar>a\<bar> \<le> 9999999999"
  "parse_amount row v = Inl e \<longleftrightarrow>
     e = InvalidAmount row v \<and> (\<forall>a. amount_text v a \<longrightarrow> 9999999999 < \<bar>a\<bar>)"
proof -
  show ok: "parse_amount row v = Inr a \<longleftrightarrow> amount_text v a \<and> \<bar>a\<bar> \<le> 9999999999" for a
  proof
    assume r: "parse_amount row v = Inr a"
    then obtain whole cs where split: "split_once CHR ''.'' v = Some (whole, cs)"
      and check: "strip_sign whole \<noteq> []" "list_all is_ascii_digit (strip_sign whole)"
        "length cs = 2" "list_all is_ascii_digit cs"
      by (auto simp: parse_amount_def Let_def and_then_eq_Inr split: if_splits)
    obtain sg where sg: "sg \<in> set sign_texts" "whole = sg @ strip_sign whole"
      using strip_sign_form [OF refl] by blast
    have v: "v = sg @ strip_sign whole @ CHR ''.'' # cs"
      using split_once_eq [OF split] sg(2) by (metis append.assoc)
    let ?a = "sign_factor sg * (digits_value (strip_sign whole) * 100 + digits_value cs)"
    have "parse_amount row v = (if \<bar>?a\<bar> \<le> 9999999999 then Inr ?a else Inl (InvalidAmount row v))"
      by (rule parse_amount_form [OF sg(1) check v refl])
    with r have "a = ?a" "\<bar>a\<bar> \<le> 9999999999" by (auto split: if_splits)
    with sg(1) check v show "amount_text v a \<and> \<bar>a\<bar> \<le> 9999999999"
      unfolding amount_text_def by blast
  next
    assume h: "amount_text v a \<and> \<bar>a\<bar> \<le> 9999999999"
    then obtain sg ds cs where "v = sg @ ds @ CHR ''.'' # cs" "sg \<in> set sign_texts"
      "ds \<noteq> []" "list_all is_ascii_digit ds" "length cs = 2" "list_all is_ascii_digit cs"
      "a = sign_factor sg * (digits_value ds * 100 + digits_value cs)"
      unfolding amount_text_def by blast
    from parse_amount_form [OF this(2-6,1,7), of row] h show "parse_amount row v = Inr a"
      by simp
  qed
  have error: "parse_amount row v = Inl e \<Longrightarrow> e = InvalidAmount row v" for e
    by (auto simp: parse_amount_def Let_def and_then_eq_Inl ok_or_eq_Inl split: if_splits)
  show "parse_amount row v = Inl e \<longleftrightarrow>
     e = InvalidAmount row v \<and> (\<forall>a. amount_text v a \<longrightarrow> 9999999999 < \<bar>a\<bar>)"
    using ok error by (cases "parse_amount row v") (auto simp: not_le [symmetric] dest: error)
qed

text \<open>
  C37. An amount is accepted exactly when it is an optional sign, at least one digit, a
  point and exactly two digits and its value has at most ten digits; the result is that
  value in hundredths, the sign applying to the fraction too. Every other text is refused
  with its row and the text itself, never a panic or an overflow.
\<close>

theorem parse_amount_exact:
  "(parse_amount row v = Inr a \<longleftrightarrow> amount_text v a \<and> \<bar>a\<bar> \<le> 9999999999) \<and>
   (parse_amount row v = Inl e \<longleftrightarrow>
      e = InvalidAmount row v \<and> \<not> (\<exists>a. amount_text v a \<and> \<bar>a\<bar> \<le> 9999999999))"
  by (auto simp: parse_amount_eq not_le)

definition two_digits :: "nat \<Rightarrow> string" where
  "two_digits n = [char_of (48 + n div 10), char_of (48 + n mod 10)]"

text \<open>The fixed-scale rendering of an amount in hundredths.\<close>

definition show_amount :: "int \<Rightarrow> string" where
  "show_amount a =
     (let n = nat \<bar>a\<bar> in
      (if a < 0 then ''-'' else '''') @ digits (n div 100) @ CHR ''.'' # two_digits (n mod 100))"

lemma two_digits_value:
  assumes "n < 100"
  shows "digits_value (two_digits n) = int n" "list_all is_ascii_digit (two_digits n)"
proof -
  have "n div 10 < 10" "n mod 10 < 10" using assms by auto
  then show "list_all is_ascii_digit (two_digits n)" by (simp add: two_digits_def digit_char)
  have "int (n div 10) * 10 + int (n mod 10) = int n"
    by (metis div_mult_mod_eq of_nat_add of_nat_mult of_nat_numeral)
  then show "digits_value (two_digits n) = int n"
    using \<open>n div 10 < 10\<close> \<open>n mod 10 < 10\<close>
    by (simp add: two_digits_def digits_value_def digit_char)
qed

lemma show_amount_text: "amount_text (show_amount a) a"
proof -
  let ?n = "nat \<bar>a\<bar>" and ?sg = "if a < 0 then ''-'' else ''''"
  have "int (?n div 100) * 100 + int (?n mod 100) = \<bar>a\<bar>"
    by (metis div_mult_mod_eq nat_0_le of_nat_add of_nat_mult of_nat_numeral abs_ge_zero)
  then have "a = sign_factor ?sg * (digits_value (digits (?n div 100)) * 100 +
      digits_value (two_digits (?n mod 100)))"
    by (simp add: two_digits_value sign_factor_def)
  moreover have "?sg \<in> set sign_texts" by (simp add: sign_texts_def)
  moreover have "length (two_digits (?n mod 100)) = 2" by (simp add: two_digits_def)
  moreover have "show_amount a = ?sg @ digits (?n div 100) @ CHR ''.'' # two_digits (?n mod 100)"
    by (simp only: show_amount_def Let_def)
  ultimately show ?thesis
    unfolding amount_text_def
    using digits_nonempty [of "?n div 100"] digits_ascii [of "?n div 100"]
      two_digits_value(2) [of "?n mod 100"]
    by (intro exI [of _ ?sg] exI [of _ "digits (?n div 100)"] exI [of _ "two_digits (?n mod 100)"])
       auto
qed

lemma parse_amount_show:
  "\<bar>a\<bar> \<le> 9999999999 \<Longrightarrow> parse_amount row (show_amount a) = Inr a"
  by (simp add: parse_amount_eq show_amount_text)

subsection \<open>Reading a fixture\<close>

text \<open>
  A record that renders an order; \<open>stamp\<close> is the text of its time, an absent note the empty field.
\<close>

definition order_record :: "(i64 \<Rightarrow> string) \<Rightarrow> order_row \<Rightarrow> string list" where
  "order_record stamp r =
     [show_int (sint (order_id r)), show_amount (order_amount r), stamp (order_placed_at r),
      case order_note r of None \<Rightarrow> '''' | Some note \<Rightarrow> note]"

definition order_ok :: "order_row \<Rightarrow> bool" where
  "order_ok r \<longleftrightarrow> \<bar>order_amount r\<bar> \<le> 9999999999 \<and> order_note r \<noteq> Some ''''"

lemma in_i64_sint: "in_i64 (sint (w :: i64))"
  using sint_range_size [of w] by (simp add: in_i64_def word_size)

lemma parse_order_record:
  assumes "order_ok r" and "naive (stamp (order_placed_at r)) = Some (order_placed_at r)"
  shows "parse_order_row naive i (order_record stamp r) = Inr r"
  using assms
  by (auto simp: parse_order_row_def order_record_def parse_id_def get_field_def parse_i64_show
      in_i64_sint parse_amount_show order_ok_def parse_timestamp_def result_simps
      split: option.split)

lemma collect_records:
  assumes "\<And>i r. r \<in> set rows \<Longrightarrow> parse i (text_of r) = Inr r"
  shows "collect_rows parse i (map (Inr \<circ> text_of) rows) = Inr rows"
  using assms by (induction rows arbitrary: i) auto

text \<open>
  Reading back what was written: a fixture whose records render orders, with amounts
  of at most ten digits and no empty note, becomes one batch over \<open>orders_schema\<close>
  whose four columns hold the orders' fields in row order, a missing note as a null, if
  the time parser reads the times back and Arrow accepts the arrays it is given.
\<close>

theorem orders_read_back:
  assumes "\<forall>r \<in> set rows. order_ok r"
    and "\<forall>r \<in> set rows. naive (stamp (order_placed_at r)) = Some (order_placed_at r)"
    and "\<forall>xs. with_scale xs 10 2 = Inr (Decimals (map Some xs))"
  shows "fixture_to_orders_batch naive with_scale try_new path
      (Inr (map (Inr \<circ> order_record stamp) rows)) =
    map_err BuildBatch (try_new orders_schema
      [Ids (map (Some \<circ> order_id) rows), Decimals (map (Some \<circ> order_amount) rows),
       Timestamps (map (Some \<circ> order_placed_at) rows), Texts (map order_note rows)])"
proof -
  have "collect_rows (parse_order_row naive) 0 (map (Inr \<circ> order_record stamp) rows) = Inr rows"
    using assms(1,2) by (intro collect_records parse_order_record) auto
  with assms(3) show ?thesis
    by (simp add: fixture_to_orders_batch_def read_csv_rows_def rows_to_orders_batch_def Let_def
        comp_def)
qed

lemma orders_read_back_witness:
  "fixture_to_orders_batch (parse_i64 \<circ> id) (\<lambda>xs _ _. Inr (Decimals (map Some xs)))
      (\<lambda>schema columns. Inr columns) ''f.csv''
      (Inr [Inr (order_record (show_int \<circ> sint)
        \<lparr>order_id = 7, order_amount = - 5, order_placed_at = 0, order_note = None\<rparr>)]) =
    Inr [Ids [Some 7], Decimals [Some (- 5)], Timestamps [Some 0], Texts [None]]"
proof -
  let ?r = "\<lparr>order_id = 7, order_amount = - 5, order_placed_at = 0, order_note = None\<rparr>"
  have "\<forall>r \<in> set [?r]. order_ok r" by (simp add: order_ok_def)
  moreover have "\<forall>r \<in> set [?r]. (parse_i64 \<circ> id) ((show_int \<circ> sint) (order_placed_at r)) =
      Some (order_placed_at r)"
    by (simp add: parse_i64_show in_i64_def)
  ultimately show ?thesis
    using orders_read_back [of "[?r]" "parse_i64 \<circ> id" "show_int \<circ> sint"
        "\<lambda>xs _ _. Inr (Decimals (map Some xs))" "\<lambda>schema columns. Inr columns" "''f.csv''"]
    by simp
qed

text \<open>Shipments likewise; a carrier is any text.\<close>

definition shipment_record :: "(i64 \<Rightarrow> string) \<Rightarrow> shipment_row \<Rightarrow> string list" where
  "shipment_record stamp r =
     [show_int (sint (shipment_order_id r)), shipment_carrier r, stamp (shipment_shipped_at r)]"

lemma shipments_read_back:
  assumes "\<forall>r \<in> set rows. naive (stamp (shipment_shipped_at r)) = Some (shipment_shipped_at r)"
  shows "fixture_to_shipments_batch naive try_new path
      (Inr (map (Inr \<circ> shipment_record stamp) rows)) =
    map_err BuildBatch (try_new shipments_schema
      [Ids (map (Some \<circ> shipment_order_id) rows), Texts (map (Some \<circ> shipment_carrier) rows),
       Timestamps (map (Some \<circ> shipment_shipped_at) rows)])"
proof -
  have "collect_rows (parse_shipment_row naive) 0 (map (Inr \<circ> shipment_record stamp) rows) =
      Inr rows"
    using assms
    by (intro collect_records)
       (simp add: parse_shipment_row_def shipment_record_def parse_id_def get_field_def
          parse_i64_show in_i64_sint parse_timestamp_def Let_def)
  then show ?thesis
    by (simp add: fixture_to_shipments_batch_def read_csv_rows_def rows_to_shipments_batch_def
        Let_def)
qed

end
