(* ===== verification/QueryFunctions.thy ===== *)
theory QueryFunctions
  imports Complex_Main UdfValues OrderRows
begin

text \<open>
  The functions, the table and the optimizer rule that
  src/crates/pipeline/src/datafusion_query.rs adds to DataFusion: \<open>days_since_epoch\<close>,
  \<open>amount_range\<close>, \<open>percent_of_total\<close>, \<open>region_multiplier\<close>, \<open>OrdersMemoryTableProvider\<close> and
  \<open>MaxRowsGuardrail\<close>.

  \<open>None\<close> is a panic.  An \<open>i128\<close> is an integer, a result outside its range \<open>None\<close>.  The
  arithmetic of \<open>f64\<close> is a parameter.
\<close>

subsection \<open>Days since the epoch\<close>

definition MICROS_PER_DAY :: int where
  "MICROS_PER_DAY = 86400000000"

text \<open>\<open>value.div_euclid(MICROS_PER_DAY)\<close>, the divisor being positive.\<close>

definition day_of :: "i64 \<Rightarrow> i64" where
  "day_of micros = word_of_int (sint micros div MICROS_PER_DAY)"

text \<open>\<open>show_type\<close> is the \<open>Display\<close> of Arrow's \<open>DataType\<close>.\<close>

definition invoke_days_since_epoch ::
    "(data_type \<Rightarrow> string) \<Rightarrow> udf_value list \<Rightarrow> string + udf_value" where
  "invoke_days_since_epoch show_type args =
     (case args of
        [input] \<Rightarrow>
          (let expected = Timestamp Microsecond None in
           if udf_value_type input \<noteq> expected
           then Inl (''days_since_epoch expects '' @ show_type expected @ '', got '' @
                     show_type (udf_value_type input))
           else
             (case input of
                ScalarValue (TimestampScalar micros) \<Rightarrow>
                  Inr (ScalarValue (Int64Scalar (map_option day_of micros)))
              | ArrayValue array \<Rightarrow>
                  (case array of
                     TimestampColumn timestamps \<Rightarrow>
                       Inr (ArrayValue (Int64Column (map (map_option day_of) timestamps)))
                   | _ \<Rightarrow> Inl ''days_since_epoch requires a timestamp microsecond array'')
              | _ \<Rightarrow> Inl ''days_since_epoch requires a timestamp microsecond scalar''))
      | _ \<Rightarrow> Inl (''days_since_epoch expects one argument, got '' @ digits (length args)))"

subsection \<open>The range of amounts\<close>

text \<open>
  A column handed to an aggregate: decimal slots, or another representation, on which the
  downcast panics.
\<close>

datatype amount_column = Amounts "int option list" | NotAmounts data_type

fun as_amounts :: "amount_column \<Rightarrow> int option list option" where
  "as_amounts (Amounts xs) = Some xs"
| "as_amounts (NotAmounts _) = None"

text \<open>\<open>iter().flatten()\<close>.\<close>

definition present :: "'a option list \<Rightarrow> 'a list" where
  "present xs = List.map_filter id xs"

record amount_range_accumulator =
  range_min :: "int option"
  range_max :: "int option"

definition amount_range_default :: amount_range_accumulator where
  "amount_range_default = \<lparr>range_min = None, range_max = None\<rparr>"

definition fold_min :: "int option \<Rightarrow> int \<Rightarrow> int option" where
  "fold_min current x = Some (case current of None \<Rightarrow> x | Some m \<Rightarrow> min m x)"

definition fold_max :: "int option \<Rightarrow> int \<Rightarrow> int option" where
  "fold_max current x = Some (case current of None \<Rightarrow> x | Some m \<Rightarrow> max m x)"

fun range_loop :: "amount_range_accumulator \<Rightarrow> int list \<Rightarrow> amount_range_accumulator" where
  "range_loop acc [] = acc"
| "range_loop acc (x # xs) =
     range_loop (acc\<lparr>range_min := fold_min (range_min acc) x,
                     range_max := fold_max (range_max acc) x\<rparr>) xs"

definition update_batch ::
    "amount_range_accumulator \<Rightarrow> amount_column list \<Rightarrow> amount_range_accumulator option" where
  "update_batch acc columns =
     (case columns of
        [] \<Rightarrow> None
      | column # _ \<Rightarrow> map_option (\<lambda>xs. range_loop acc (present xs)) (as_amounts column))"

text \<open>A decimal value with its precision and scale.\<close>

record decimal_value =
  unscaled :: "int option"
  precision :: nat
  scale :: nat

definition i128_sub :: "int \<Rightarrow> int \<Rightarrow> int option" where
  "i128_sub a b = (if - (2 ^ 127) \<le> a - b \<and> a - b < 2 ^ 127 then Some (a - b) else None)"

definition range_evaluate :: "amount_range_accumulator \<Rightarrow> decimal_value option" where
  "range_evaluate acc =
     (case (range_min acc, range_max acc) of
        (Some lo, Some hi) \<Rightarrow>
          map_option (\<lambda>r. \<lparr>unscaled = Some r, precision = 11, scale = 2\<rparr>) (i128_sub hi lo)
      | _ \<Rightarrow> Some \<lparr>unscaled = None, precision = 11, scale = 2\<rparr>)"

definition range_state :: "amount_range_accumulator \<Rightarrow> decimal_value list" where
  "range_state acc =
     [\<lparr>unscaled = range_min acc, precision = 10, scale = 2\<rparr>,
      \<lparr>unscaled = range_max acc, precision = 10, scale = 2\<rparr>]"

definition merge_batch ::
    "amount_range_accumulator \<Rightarrow> amount_column list \<Rightarrow> amount_range_accumulator option" where
  "merge_batch acc states =
     (case states of
        mins # maxes # _ \<Rightarrow>
          (case (as_amounts mins, as_amounts maxes) of
             (Some mins, Some maxes) \<Rightarrow>
               Some (acc\<lparr>range_min := foldl fold_min (range_min acc) (present mins),
                         range_max := foldl fold_max (range_max acc) (present maxes)\<rparr>)
           | _ \<Rightarrow> None)
      | _ \<Rightarrow> None)"

subsection \<open>Percentages of a partition\<close>

record 'f float_ops =
  as_f64 :: "int \<Rightarrow> 'f"
  f64_div :: "'f \<Rightarrow> 'f \<Rightarrow> 'f"
  f64_mul :: "'f \<Rightarrow> 'f \<Rightarrow> 'f"

text \<open>\<open>is_valid(row)\<close> and \<open>value(row)\<close> panic past the end of the array.\<close>

definition percent_of_row ::
    "'f float_ops \<Rightarrow> int \<Rightarrow> int option list \<Rightarrow> nat \<Rightarrow> 'f option option" where
  "percent_of_row f whole amounts row =
     (case index amounts row of
        None \<Rightarrow> None
      | Some None \<Rightarrow> Some None
      | Some (Some a) \<Rightarrow>
          Some (Some (f64_mul f (f64_div f (as_f64 f a) (as_f64 f whole)) (as_f64 f 100))))"

fun percent_rows ::
    "'f float_ops \<Rightarrow> int \<Rightarrow> int option list \<Rightarrow> nat list \<Rightarrow> 'f option list option" where
  "percent_rows f whole amounts [] = Some []"
| "percent_rows f whole amounts (row # rows) =
     (case percent_of_row f whole amounts row of
        None \<Rightarrow> None
      | Some p \<Rightarrow> map_option ((#) p) (percent_rows f whole amounts rows))"

definition evaluate_all ::
    "'f float_ops \<Rightarrow> amount_column list \<Rightarrow> nat \<Rightarrow> 'f option list option" where
  "evaluate_all f columns num_rows =
     (case columns of
        [] \<Rightarrow> None
      | column # _ \<Rightarrow>
          (case as_amounts column of
             None \<Rightarrow> None
           | Some amounts \<Rightarrow>
               (let whole = sum_list (present amounts) in
                percent_rows f whole amounts [0..<num_rows])))"

subsection \<open>Multipliers\<close>

text \<open>A literal of \<open>f64\<close> is the number nearest to the tenths written.\<close>

definition region_lookup :: "(int \<Rightarrow> 'f) \<Rightarrow> i64 \<Rightarrow> 'f" where
  "region_lookup tenths order =
     (if order \<in> {1, 4, 8} then tenths 15 else if order \<in> {5, 6} then tenths 8 else tenths 10)"

text \<open>\<open>to_array_of_size(1)\<close> of a scalar, then the downcast.\<close>

fun ids_of_value :: "udf_value \<Rightarrow> i64 option list option" where
  "ids_of_value (ArrayValue (Int64Column ids)) = Some ids"
| "ids_of_value (ScalarValue (Int64Scalar x)) = Some [x]"
| "ids_of_value _ = None"

definition invoke_async_with_args ::
    "(int \<Rightarrow> 'f) \<Rightarrow> udf_value list \<Rightarrow> 'f option list option" where
  "invoke_async_with_args tenths args =
     (case args of
        [] \<Rightarrow> None
      | arg # _ \<Rightarrow> map_option (map (map_option (region_lookup tenths))) (ids_of_value arg))"

subsection \<open>The cap on result rows\<close>

datatype 'e limit_expr = Int64Literal "i64 option" | OtherExpr 'e

datatype ('e, 'p) logical_plan =
    Limit (limit_skip: "'e limit_expr option") (limit_fetch: "'e limit_expr option")
      (limit_input: "('e, 'p) logical_plan")
  | OtherPlan 'p

record max_rows_guardrail =
  guard_max_rows :: i64

definition guardrail_new :: "i64 \<Rightarrow> string + max_rows_guardrail" where
  "guardrail_new max_rows =
     (if sint max_rows < 0 then Inl ''result cap must be nonnegative''
      else Inr \<lparr>guard_max_rows = max_rows\<rparr>)"

text \<open>The flag of \<open>Transformed\<close> is the first component.\<close>

definition already_capped :: "max_rows_guardrail \<Rightarrow> 'e limit_expr option \<Rightarrow> bool" where
  "already_capped g fetch =
     (case fetch of
        Some (Int64Literal (Some n)) \<Rightarrow> sint n \<le> sint (guard_max_rows g)
      | _ \<Rightarrow> False)"

definition guardrail_rewrite ::
    "max_rows_guardrail \<Rightarrow> ('e, 'p) logical_plan \<Rightarrow> bool \<times> ('e, 'p) logical_plan" where
  "guardrail_rewrite g plan =
     (case plan of
        Limit skip fetch input \<Rightarrow>
          if already_capped g fetch then (False, plan)
          else (True, Limit skip (Some (Int64Literal (Some (guard_max_rows g)))) input)
      | _ \<Rightarrow> (True, Limit None (Some (Int64Literal (Some (guard_max_rows g)))) plan))"

subsection \<open>The in-memory orders table\<close>

text \<open>Arrow's \<open>Schema::project\<close>: the fields at the indices, or an error past the end.\<close>

definition schema_project :: "arrow_schema \<Rightarrow> nat list \<Rightarrow> string + arrow_schema" where
  "schema_project schema indices =
     try_map (\<lambda>i. if i < length schema then Inr (schema ! i) else Inl ''project index out of bounds'') indices"

record 'b orders_table =
  table_schema :: arrow_schema
  table_batches :: "'b list"

record 'b orders_exec =
  exec_batches :: "'b list"
  exec_schema :: arrow_schema
  exec_projection :: "nat list option"

definition orders_table_new :: "'b list \<Rightarrow> 'b orders_table" where
  "orders_table_new batches =
     \<lparr>table_schema = orders_schema, table_batches = batches\<rparr>"

definition orders_exec_new ::
    "'b list \<Rightarrow> arrow_schema \<Rightarrow> nat list option \<Rightarrow> 'b orders_exec" where
  "orders_exec_new batches schema projection =
     \<lparr>exec_batches = batches, exec_schema = schema, exec_projection = projection\<rparr>"

definition orders_scan :: "'b orders_table \<Rightarrow> nat list option \<Rightarrow> string + 'b orders_exec" where
  "orders_scan table projection =
     and_then
       (case projection of
          Some indices \<Rightarrow> schema_project (table_schema table) indices
        | None \<Rightarrow> Inr (table_schema table))
       (\<lambda>projected. Inr (orders_exec_new (table_batches table) projected projection))"

subsection \<open>Days\<close>

lemma sint_i64: "- (2 ^ 63) \<le> sint (w :: i64)" "sint (w :: i64) < 2 ^ 63"
  using sint_range_size [of w] by (auto simp: word_size)

lemma sint_word_of_int_i64:
  assumes "- (2 ^ 63) \<le> n" and "n < 2 ^ 63"
  shows "sint (word_of_int n :: i64) = n"
  using assms by (simp add: signed_of_int signed_take_bit_int_eq_self)

lemma day_of_exact: "sint (day_of micros) = sint micros div MICROS_PER_DAY"
proof -
  have "- (2 ^ 63) div MICROS_PER_DAY \<le> sint micros div MICROS_PER_DAY"
    "sint micros div MICROS_PER_DAY \<le> (2 ^ 63 - 1) div MICROS_PER_DAY"
    using sint_i64 [of micros] by (auto simp: MICROS_PER_DAY_def intro!: zdiv_mono1)
  then have "- (2 ^ 63) \<le> sint micros div MICROS_PER_DAY" "sint micros div MICROS_PER_DAY < 2 ^ 63"
    by (auto simp: MICROS_PER_DAY_def)
  then show ?thesis by (simp add: day_of_def sint_word_of_int_i64)
qed

lemma day_of_bounds:
  "sint (day_of t) * MICROS_PER_DAY \<le> sint t \<and> sint t < (sint (day_of t) + 1) * MICROS_PER_DAY"
proof -
  have "sint t div MICROS_PER_DAY * MICROS_PER_DAY + sint t mod MICROS_PER_DAY = sint t"
    by (rule div_mult_mod_eq)
  moreover have "0 \<le> sint t mod MICROS_PER_DAY" "sint t mod MICROS_PER_DAY < MICROS_PER_DAY"
    by (auto simp: MICROS_PER_DAY_def)
  ultimately show ?thesis unfolding day_of_exact distrib_right mult_1 by linarith
qed

text \<open>
  \<open>days_since_epoch\<close> rounds towards the past, so an instant before the epoch falls in
  the day that contains it; a scalar stays a scalar, an array keeps its length and its
  nulls, and any other list of arguments is an error.
\<close>

theorem days_since_epoch_exact:
  "(\<forall>t d. day_of t = d \<longrightarrow>
      sint d * MICROS_PER_DAY \<le> sint t \<and> sint t < (sint d + 1) * MICROS_PER_DAY) \<and>
   (invoke_days_since_epoch show_type args = Inr v \<longleftrightarrow>
      (\<exists>t. args = [ScalarValue (TimestampScalar t)] \<and>
         v = ScalarValue (Int64Scalar (map_option day_of t))) \<or>
      (\<exists>ts. args = [ArrayValue (TimestampColumn ts)] \<and>
         v = ArrayValue (Int64Column (map (map_option day_of) ts))))"
proof
  show "\<forall>t d. day_of t = d \<longrightarrow>
      sint d * MICROS_PER_DAY \<le> sint t \<and> sint t < (sint d + 1) * MICROS_PER_DAY"
    using day_of_bounds by blast
  show "invoke_days_since_epoch show_type args = Inr v \<longleftrightarrow>
      (\<exists>t. args = [ScalarValue (TimestampScalar t)] \<and>
         v = ScalarValue (Int64Scalar (map_option day_of t))) \<or>
      (\<exists>ts. args = [ArrayValue (TimestampColumn ts)] \<and>
         v = ArrayValue (Int64Column (map (map_option day_of) ts)))"
    by (auto simp: invoke_days_since_epoch_def Let_def
        split: list.split udf_value.split udf_array.split udf_scalar.split)
qed

subsection \<open>Ranges\<close>

text \<open>The specification: over all values that are present, wherever they came from.\<close>

definition range_spec :: "int list \<Rightarrow> int option" where
  "range_spec xs = (if xs = [] then None else Some (Max (set xs) - Min (set xs)))"

definition extremes_of :: "amount_range_accumulator \<Rightarrow> int list \<Rightarrow> bool" where
  "extremes_of acc xs \<longleftrightarrow>
     range_min acc = (if xs = [] then None else Some (Min (set xs))) \<and>
     range_max acc = (if xs = [] then None else Some (Max (set xs)))"

lemma extremes_default: "extremes_of amount_range_default []"
  by (simp add: extremes_of_def amount_range_default_def)

lemma fold_min_extreme:
  "m = (if xs = [] then None else Some (Min (set xs))) \<Longrightarrow>
   fold_min m x = Some (Min (set (x # xs)))"
  by (auto simp: fold_min_def min.commute)

lemma fold_max_extreme:
  "m = (if xs = [] then None else Some (Max (set xs))) \<Longrightarrow>
   fold_max m x = Some (Max (set (x # xs)))"
  by (auto simp: fold_max_def max.commute)

lemma range_loop_extremes:
  "extremes_of acc ys \<Longrightarrow> extremes_of (range_loop acc xs) (ys @ xs)"
proof (induction xs arbitrary: acc ys)
  case (Cons x xs)
  let ?acc = "acc\<lparr>range_min := fold_min (range_min acc) x, range_max := fold_max (range_max acc) x\<rparr>"
  have "extremes_of ?acc (ys @ [x])"
    using Cons.prems fold_min_extreme [of "range_min acc" ys x]
      fold_max_extreme [of "range_max acc" ys x]
    by (simp add: extremes_of_def)
  from Cons.IH [OF this] show ?case by simp
qed simp

text \<open>Merging minima and maxima of parts is taking them over the whole.\<close>

lemma foldl_fold_min:
  assumes "m = (if ys = [] then None else Some (Min (set ys)))"
  shows "foldl fold_min m (map (\<lambda>xs. Min (set xs)) (filter (\<lambda>xs. xs \<noteq> []) parts)) =
    (if ys @ concat parts = [] then None else Some (Min (set (ys @ concat parts))))"
  using assms
proof (induction parts arbitrary: m ys)
  case (Cons xs parts)
  show ?case
  proof (cases "xs = []")
    case False
    have "fold_min m (Min (set xs)) = (if ys @ xs = [] then None else Some (Min (set (ys @ xs))))"
      using False Cons.prems by (auto simp: fold_min_def Min_Un min.commute)
    from Cons.IH [OF this] False show ?thesis by simp
  qed (use Cons in simp)
qed simp

lemma foldl_fold_max:
  assumes "m = (if ys = [] then None else Some (Max (set ys)))"
  shows "foldl fold_max m (map (\<lambda>xs. Max (set xs)) (filter (\<lambda>xs. xs \<noteq> []) parts)) =
    (if ys @ concat parts = [] then None else Some (Max (set (ys @ concat parts))))"
  using assms
proof (induction parts arbitrary: m ys)
  case (Cons xs parts)
  show ?case
  proof (cases "xs = []")
    case False
    have "fold_max m (Max (set xs)) = (if ys @ xs = [] then None else Some (Max (set (ys @ xs))))"
      using False Cons.prems by (auto simp: fold_max_def Max_Un max.commute)
    from Cons.IH [OF this] False show ?thesis by simp
  qed (use Cons in simp)
qed simp

text \<open>One partial accumulator: the batches of one partition, one after the other.\<close>

fun update_batches ::
    "amount_range_accumulator \<Rightarrow> int option list list \<Rightarrow> amount_range_accumulator option" where
  "update_batches acc [] = Some acc"
| "update_batches acc (xs # xss) =
     Option.bind (update_batch acc [Amounts xs]) (\<lambda>acc'. update_batches acc' xss)"

lemma update_batches_extremes:
  assumes "extremes_of acc ys"
  shows "\<exists>acc'. update_batches acc xss = Some acc' \<and>
    extremes_of acc' (ys @ concat (map present xss))"
  using assms
proof (induction xss arbitrary: acc ys)
  case (Cons xs xss)
  from range_loop_extremes [OF Cons.prems, of "present xs"]
  obtain acc' where "update_batches (range_loop acc (present xs)) xss = Some acc'"
    "extremes_of acc' ((ys @ present xs) @ concat (map present xss))"
    using Cons.IH by blast
  then show ?case by (simp add: update_batch_def)
qed simp

text \<open>The two state columns that the partial accumulators hand to the final one.\<close>

definition state_columns :: "amount_range_accumulator list \<Rightarrow> amount_column list" where
  "state_columns parts =
     [Amounts (map (\<lambda>p. unscaled (range_state p ! 0)) parts),
      Amounts (map (\<lambda>p. unscaled (range_state p ! 1)) parts)]"

lemma present_extremes:
  assumes "list_all2 extremes_of parts groups"
  shows "present (map (\<lambda>p. unscaled (range_state p ! 0)) parts) =
      map (\<lambda>xs. Min (set xs)) (filter (\<lambda>xs. xs \<noteq> []) groups)"
    and "present (map (\<lambda>p. unscaled (range_state p ! Suc 0)) parts) =
      map (\<lambda>xs. Max (set xs)) (filter (\<lambda>xs. xs \<noteq> []) groups)"
  using assms by (induction rule: list_all2_induct)
    (auto simp: present_def range_state_def extremes_of_def List.map_filter_simps)

lemma partial_accumulators:
  "\<exists>parts. list_all2 (\<lambda>g p. update_batches amount_range_default g = Some p) groups parts \<and>
     list_all2 extremes_of parts (map (\<lambda>g. concat (map present g)) groups)"
proof (induction groups)
  case (Cons g groups)
  from update_batches_extremes [OF extremes_default, of g]
  obtain p where "update_batches amount_range_default g = Some p"
    "extremes_of p (concat (map present g))" by auto
  moreover from Cons obtain parts where
    "list_all2 (\<lambda>g p. update_batches amount_range_default g = Some p) groups parts"
    "list_all2 extremes_of parts (map (\<lambda>g. concat (map present g)) groups)" by blast
  ultimately show ?case by (intro exI [of _ "p # parts"]) simp
qed simp

lemma merged_extremes:
  assumes "list_all2 extremes_of parts groups"
  shows "\<exists>acc. merge_batch amount_range_default (state_columns parts) = Some acc \<and>
    extremes_of acc (concat groups)"
  using foldl_fold_min [of None "[]" groups] foldl_fold_max [of None "[]" groups]
  by (simp add: merge_batch_def state_columns_def present_extremes [OF assms]
      amount_range_default_def extremes_of_def)

lemma evaluate_extremes:
  assumes "extremes_of acc xs" and "\<forall>x \<in> set xs. \<bar>x\<bar> \<le> 9999999999"
  shows "range_evaluate acc = Some \<lparr>unscaled = range_spec xs, precision = 11, scale = 2\<rparr> \<and>
    (\<forall>r. range_spec xs = Some r \<longrightarrow> 0 \<le> r \<and> r \<le> 99999999999)"
proof (cases "xs = []")
  case False
  let ?lo = "Min (set xs)" and ?hi = "Max (set xs)"
  have "\<bar>?lo\<bar> \<le> 9999999999" "\<bar>?hi\<bar> \<le> 9999999999" using assms(2) False by auto
  moreover have "?lo \<le> ?hi" using False by simp
  ultimately have "0 \<le> ?hi - ?lo" "?hi - ?lo \<le> 19999999998" by linarith+
  moreover from this have "i128_sub ?hi ?lo = Some (?hi - ?lo)"
    by (simp add: i128_sub_def)
  ultimately show ?thesis using assms(1) False
    by (simp add: range_evaluate_def extremes_of_def range_spec_def)
qed (use assms(1) in \<open>simp add: range_evaluate_def extremes_of_def range_spec_def\<close>)

text \<open>
  C35. However the rows of a group are spread over partitions and batches, merging the
  partial states gives the difference of the largest and the smallest amount present, or
  null when none is, and amounts of ten digits give a range the declared eleven digits hold.
\<close>

theorem amount_range_partitioned:
  assumes "\<forall>x \<in> set (concat (map present (concat groups))). \<bar>x\<bar> \<le> 9999999999"
  shows "\<exists>parts acc.
    list_all2 (\<lambda>g p. update_batches amount_range_default g = Some p) groups parts \<and>
    merge_batch amount_range_default (state_columns parts) = Some acc \<and>
    range_evaluate acc =
      Some \<lparr>unscaled = range_spec (concat (map present (concat groups))),
            precision = 11, scale = 2\<rparr> \<and>
    (\<forall>r. range_spec (concat (map present (concat groups))) = Some r \<longrightarrow>
       0 \<le> r \<and> r \<le> 99999999999)"
proof -
  obtain parts where parts:
    "list_all2 (\<lambda>g p. update_batches amount_range_default g = Some p) groups parts"
    "list_all2 extremes_of parts (map (\<lambda>g. concat (map present g)) groups)"
    using partial_accumulators by blast
  have flat: "concat (map (\<lambda>g. concat (map present g)) groups) =
      concat (map present (concat groups))"
    by (induction groups) auto
  from merged_extremes [OF parts(2)] obtain acc where
    "merge_batch amount_range_default (state_columns parts) = Some acc"
    "extremes_of acc (concat (map present (concat groups)))" by (auto simp: flat)
  with parts(1) evaluate_extremes [OF _ assms] show ?thesis by blast
qed

lemma amount_range_partitioned_witness:
  "\<exists>parts acc.
    list_all2 (\<lambda>g p. update_batches amount_range_default g = Some p)
      [[[Some 5, None], [Some (- 2)]], [], [[Some 9]]] parts \<and>
    merge_batch amount_range_default (state_columns parts) = Some acc \<and>
    range_evaluate acc = Some \<lparr>unscaled = Some 11, precision = 11, scale = 2\<rparr>"
  using amount_range_partitioned [of "[[[Some 5, None], [Some (- 2)]], [], [[Some 9]]]"]
  by (simp add: present_def List.map_filter_simps range_spec_def)

subsection \<open>Percentages\<close>

lemma percent_rows_spec:
  assumes "\<forall>i \<in> set rows. i < length amounts"
  shows "percent_rows f whole amounts rows =
    Some (map (\<lambda>i. map_option (\<lambda>a. f64_mul f (f64_div f (as_f64 f a) (as_f64 f whole)) (as_f64 f 100))
      (amounts ! i)) rows)"
  using assms by (induction rows) (auto simp: percent_of_row_def index_def split: option.split)

lemma percent_of_total_spec:
  "evaluate_all f [Amounts amounts] (length amounts) =
    Some (map (map_option (\<lambda>a. f64_mul f
      (f64_div f (as_f64 f a) (as_f64 f (sum_list (present amounts)))) (as_f64 f 100))) amounts)"
  by (simp add: evaluate_all_def percent_rows_spec Let_def)
    (rule nth_equalityI, auto)

text \<open>Over an exact arithmetic the percentages present add up to a hundred.\<close>

lemma percentages_add_up:
  fixes f :: "rat float_ops"
  assumes "f = \<lparr>as_f64 = of_int, f64_div = (/), f64_mul = (*)\<rparr>" and "sum_list (present amounts) \<noteq> 0"
  shows "\<exists>ps. evaluate_all f [Amounts amounts] (length amounts) = Some ps \<and>
    sum_list (present ps) = 100"
proof -
  let ?t = "sum_list (present amounts)"
  have present_map: "present (map (map_option g) xs) = map g (present xs)" for g :: "int \<Rightarrow> rat" and xs
    by (induction xs) (auto simp: present_def List.map_filter_simps split: option.split)
  have "sum_list (map (\<lambda>a. of_int a / of_int ?t * 100) xs) = of_int (sum_list xs) / of_int ?t * (100::rat)"
    for xs :: "int list"
    by (induction xs) (auto simp: add_divide_distrib distrib_right)
  then show ?thesis using assms(2)
    by (simp add: percent_of_total_spec present_map assms(1) comp_def)
qed

subsection \<open>The cap\<close>

text \<open>
  The rows of a plan: a limit skips and then takes; a null fetch is no limit.  What other
  expressions and plans evaluate to is a parameter.
\<close>

fun count_of :: "('e \<Rightarrow> nat option) \<Rightarrow> 'e limit_expr \<Rightarrow> nat option" where
  "count_of ev (Int64Literal v) = map_option (\<lambda>n. nat (sint n)) v"
| "count_of ev (OtherExpr e) = ev e"

definition skipped :: "('e \<Rightarrow> nat option) \<Rightarrow> 'e limit_expr option \<Rightarrow> 'r list \<Rightarrow> 'r list" where
  "skipped ev e rows = (case Option.bind e (count_of ev) of None \<Rightarrow> rows | Some n \<Rightarrow> drop n rows)"

definition fetched :: "('e \<Rightarrow> nat option) \<Rightarrow> 'e limit_expr option \<Rightarrow> 'r list \<Rightarrow> 'r list" where
  "fetched ev e rows = (case Option.bind e (count_of ev) of None \<Rightarrow> rows | Some n \<Rightarrow> take n rows)"

fun plan_rows ::
    "('e \<Rightarrow> nat option) \<Rightarrow> ('p \<Rightarrow> 'r list) \<Rightarrow> ('e, 'p) logical_plan \<Rightarrow> 'r list" where
  "plan_rows ev source (Limit skip fetch input) =
     fetched ev fetch (skipped ev skip (plan_rows ev source input))"
| "plan_rows ev source (OtherPlan p) = source p"

text \<open>The limit of the top node, if it has one, is an integer literal.\<close>

fun literal_limit :: "('e, 'p) logical_plan \<Rightarrow> bool" where
  "literal_limit (Limit skip (Some (OtherExpr e)) input) = False"
| "literal_limit _ = True"

text \<open>
  The rule caps every plan it accepts: the rewritten plan yields at most \<open>max_rows\<close>
  rows, and rewriting it again changes nothing. If the limit at the top, if any, is an
  integer literal, the rows are exactly the first \<open>max_rows\<close> of the plan's own.
\<close>

theorem guardrail_caps:
  assumes "guardrail_new m = Inr g"
  shows "length (plan_rows ev source (snd (guardrail_rewrite g plan))) \<le> nat (sint m) \<and>
    guardrail_rewrite g (snd (guardrail_rewrite g plan)) = (False, snd (guardrail_rewrite g plan)) \<and>
    (literal_limit plan \<longrightarrow>
      plan_rows ev source (snd (guardrail_rewrite g plan)) =
        take (nat (sint m)) (plan_rows ev source plan))"
proof -
  have g: "guard_max_rows g = m" "0 \<le> sint m"
    using assms by (auto simp: guardrail_new_def split: if_splits)
  show ?thesis
  proof (cases plan)
    case (Limit skip fetch input)
    show ?thesis
    proof (cases "already_capped g fetch")
      case True
      then obtain n where n: "fetch = Some (Int64Literal (Some n))" "sint n \<le> sint m"
        by (auto simp: already_capped_def g split: option.splits limit_expr.splits)
      then have "nat (sint n) \<le> nat (sint m)" by simp
      with Limit True n show ?thesis
        by (simp add: guardrail_rewrite_def fetched_def min_def)
    next
      case False
      have "literal_limit plan \<Longrightarrow> take (nat (sint m)) (plan_rows ev source plan) =
          take (nat (sint m)) (skipped ev skip (plan_rows ev source input))"
        using False Limit
        by (auto simp: fetched_def already_capped_def g min_def
            split: option.splits limit_expr.splits)
      with Limit False show ?thesis
        by (simp add: guardrail_rewrite_def fetched_def already_capped_def g)
    qed
  qed (simp add: guardrail_rewrite_def fetched_def skipped_def already_capped_def g)
qed

lemma guardrail_caps_witness:
  "plan_rows (\<lambda>_. None) (\<lambda>_. [1::nat, 2, 3])
      (snd (guardrail_rewrite \<lparr>guard_max_rows = 2\<rparr> (OtherPlan () :: (unit, unit) logical_plan))) =
    [1, 2]"
proof -
  have "guardrail_new 2 = Inr \<lparr>guard_max_rows = 2\<rparr>" by (simp add: guardrail_new_def)
  from guardrail_caps [OF this, of "\<lambda>_. None" "\<lambda>_. [1::nat, 2, 3]" "OtherPlan () :: (unit, unit) logical_plan"]
  show ?thesis by simp
qed

text \<open>
  A limit that is not an integer literal is replaced, not tightened: a plan that would
  yield one row yields two under a cap of two.
\<close>

theorem guardrail_raises_limit:
  "\<exists>g (plan :: (nat, unit) logical_plan).
     guardrail_new 2 = Inr g \<and>
     plan_rows Some (\<lambda>_. [1::nat, 2, 3]) plan = [1] \<and>
     plan_rows Some (\<lambda>_. [1::nat, 2, 3]) (snd (guardrail_rewrite g plan)) = [1, 2]"
  by (intro exI [of _ "\<lparr>guard_max_rows = 2\<rparr>"]
        exI [of _ "Limit None (Some (OtherExpr 1)) (OtherPlan ())"])
     (simp add: guardrail_new_def guardrail_rewrite_def already_capped_def fetched_def skipped_def)

subsection \<open>The orders table\<close>

text \<open>
  A scan succeeds exactly when every projected index names a column, and hands over all
  batches with the projected schema.
\<close>

lemma orders_scan_spec:
  "orders_scan (orders_table_new batches) projection = Inr e \<longleftrightarrow>
    (case projection of
       None \<Rightarrow> e = orders_exec_new batches orders_schema None
     | Some is \<Rightarrow> list_all (\<lambda>i. i < 4) is \<and>
         e = orders_exec_new batches (map ((!) orders_schema) is) (Some is))"
proof (cases projection)
  case (Some idx)
  have four: "length orders_schema = 4" by (simp add: orders_schema_def)
  have "schema_project orders_schema idx = Inr s \<longleftrightarrow>
      list_all (\<lambda>i. i < 4) idx \<and> s = map ((!) orders_schema) idx" for s
    unfolding schema_project_def try_map_eq_Inr
    by (induction idx arbitrary: s) (auto simp: list_all2_Cons1 four split: if_splits)
  with Some show ?thesis
    by (auto simp: orders_scan_def orders_table_new_def and_then_eq_Inr)
qed (auto simp: orders_scan_def orders_table_new_def)

end
