(* ===== verification/UdfDeclarations.thy ===== *)
theory UdfDeclarations
  imports QueryFunctions
begin

text \<open>
  What src/crates/pipeline/src/datafusion_query.rs declares to DataFusion of its functions
  (names, argument and result types, volatility, state columns), the methods of its leaf
  plan node, and that the functions of \<open>QueryFunctions\<close> deliver the declared types.
  DataFusion's naming of state columns and its \<open>MemoryStream\<close> are parameters.
\<close>

subsection \<open>Declarations\<close>

datatype volatility = Immutable | Stable | Volatile

record udf_declaration =
  ud_name :: string
  ud_arguments :: "data_type list"
  ud_returns :: data_type
  ud_volatility :: volatility

definition days_since_epoch_udf :: udf_declaration where
  "days_since_epoch_udf =
     \<lparr>ud_name = ''days_since_epoch'', ud_arguments = [Timestamp Microsecond None],
      ud_returns = Int64, ud_volatility = Immutable\<rparr>"

definition amount_range_udf :: udf_declaration where
  "amount_range_udf =
     \<lparr>ud_name = ''amount_range'', ud_arguments = [Decimal128 10 2],
      ud_returns = Decimal128 11 2, ud_volatility = Immutable\<rparr>"

text \<open>\<open>accumulator\<close> and \<open>state_fields\<close> of \<open>AmountRangeUdf\<close>.\<close>

definition new_accumulator :: amount_range_accumulator where
  "new_accumulator = amount_range_default"

definition state_fields :: "(string \<Rightarrow> string \<Rightarrow> string) \<Rightarrow> string \<Rightarrow> arrow_field list" where
  "state_fields format_state_name name =
     (let decimal = Decimal128 10 2 in
      [field_new (format_state_name name ''min'') decimal True,
       field_new (format_state_name name ''max'') decimal True])"

definition percent_of_total_udf :: udf_declaration where
  "percent_of_total_udf =
     \<lparr>ud_name = ''percent_of_total'', ud_arguments = [Decimal128 10 2],
      ud_returns = Float64, ud_volatility = Immutable\<rparr>"

text \<open>\<open>field\<close> of \<open>PercentOfTotalUdf\<close>, by the name of the output column.\<close>

definition percent_field :: "string \<Rightarrow> arrow_field" where
  "percent_field name = field_new name Float64 True"

definition region_multiplier_udf :: udf_declaration where
  "region_multiplier_udf =
     \<lparr>ud_name = ''region_multiplier'', ud_arguments = [Int64],
      ud_returns = Float64, ud_volatility = Volatile\<rparr>"

text \<open>The synchronous entry of \<open>RegionMultiplierUdf\<close> always refuses.\<close>

definition region_invoke_with_args :: "udf_value list \<Rightarrow> string + udf_value" where
  "region_invoke_with_args args =
     Inl (''region_multiplier is async-only; the physical planner must route calls '' @
          ''through AsyncFuncExec, not invoke_with_args directly'')"

subsection \<open>The plan node\<close>

text \<open>\<open>properties\<close>: one partition of unknown distribution, produced incrementally and bounded.\<close>

record plan_properties =
  pp_schema :: arrow_schema
  pp_partitions :: nat
  pp_incremental :: bool
  pp_bounded :: bool

definition exec_properties :: "'b orders_exec \<Rightarrow> plan_properties" where
  "exec_properties exec =
     \<lparr>pp_schema = exec_schema exec, pp_partitions = 1, pp_incremental = True, pp_bounded = True\<rparr>"

definition exec_children :: "'b orders_exec \<Rightarrow> 'b orders_exec list" where
  "exec_children exec = []"

definition replace_children :: "'b orders_exec \<Rightarrow> 'c list \<Rightarrow> string + 'b orders_exec" where
  "replace_children exec children = Inr exec"

definition with_new_children :: "'b orders_exec \<Rightarrow> 'c list \<Rightarrow> string + 'b orders_exec" where
  "with_new_children exec children = replace_children exec children"

definition exec_execute ::
    "('b list \<Rightarrow> arrow_schema \<Rightarrow> nat list option \<Rightarrow> string + 's) \<Rightarrow> 'b orders_exec \<Rightarrow> nat \<Rightarrow> string + 's" where
  "exec_execute memory_stream exec _ =
     memory_stream (exec_batches exec) (exec_schema exec) (exec_projection exec)"

subsection \<open>What is declared is delivered\<close>

definition decimal_type :: "decimal_value \<Rightarrow> data_type" where
  "decimal_type v = Decimal128 (int (precision v)) (int (scale v))"

text \<open>
  The declared types hold: \<open>days_since_epoch\<close> accepts exactly its declared argument and
  returns the declared type, the range is a value of the declared decimal, and the state an
  accumulator hands on has the columns declared for it.
\<close>

theorem declared_types_delivered:
  "((\<exists>v. invoke_days_since_epoch show_type args = Inr v \<and> udf_value_type v = ud_returns days_since_epoch_udf) \<longleftrightarrow>
      (\<exists>v. invoke_days_since_epoch show_type args = Inr v)) \<and>
   (case range_evaluate acc of None \<Rightarrow> True | Some v \<Rightarrow> decimal_type v = ud_returns amount_range_udf) \<and>
   map decimal_type (range_state acc) = map f_type (state_fields format_state_name name) \<and>
   f_type (percent_field name) = ud_returns percent_of_total_udf"
proof -
  have "udf_value_type v = Int64" if "invoke_days_since_epoch show_type args = Inr v" for v
    using that by (auto simp: invoke_days_since_epoch_def Let_def
        split: list.splits udf_value.splits udf_array.splits udf_scalar.splits if_splits)
  then show ?thesis
    by (auto simp: days_since_epoch_udf_def amount_range_udf_def percent_of_total_udf_def percent_field_def
        range_evaluate_def range_state_def decimal_type_def state_fields_def field_new_def Let_def i128_sub_def
        split: option.splits if_splits)
qed

text \<open>A scan and the node it makes: every partition replays the batches as projected.\<close>

lemma scan_executes:
  assumes "orders_scan (orders_table_new batches) projection = Inr exec"
  shows "exec_execute memory_stream exec i = memory_stream batches (pp_schema (exec_properties exec)) projection"
    and "with_new_children exec children = Inr exec"
  using assms
  by (auto simp: exec_execute_def exec_properties_def with_new_children_def replace_children_def
      orders_scan_def orders_table_new_def orders_exec_new_def and_then_eq_Inr)

end
