(* ===== verification/ColumnarLayout.thy ===== *)
theory ColumnarLayout
  imports Decimal
begin

text \<open>
  Row-major and columnar batches (src/crates/pipeline/src/layout.rs).

  An Arrow \<open>Float64Array\<close> is its value buffer with an optional validity bitmap; the
  element type is a parameter, because the module only moves elements.  \<open>usize\<close> is here
  a \<open>64 word\<close>: the products and indices of the module are plain \<open>*\<close> and \<open>+\<close>, which panic
  in a build with overflow checks and wrap in the release profile of the workspace.  The
  flag \<open>checks\<close> is that build option, and \<open>None\<close> is a panic.
\<close>

type_synonym word_size = "64 word"

subsection \<open>Indices\<close>

definition times_usize :: "bool \<Rightarrow> word_size \<Rightarrow> word_size \<Rightarrow> word_size option" where
  "times_usize checks a b =
     (if checks \<and> 2 ^ 64 \<le> unat a * unat b then None else Some (a * b))"

definition plus_usize :: "bool \<Rightarrow> word_size \<Rightarrow> word_size \<Rightarrow> word_size option" where
  "plus_usize checks a b =
     (if checks \<and> 2 ^ 64 \<le> unat a + unat b then None else Some (a + b))"

text \<open>\<open>r * cols + c\<close>, the place of row \<open>r\<close> and column \<open>c\<close>.\<close>

definition place :: "bool \<Rightarrow> word_size \<Rightarrow> word_size \<Rightarrow> word_size \<Rightarrow> word_size option" where
  "place checks r cols c =
     (case times_usize checks r cols of
        None \<Rightarrow> None
      | Some base \<Rightarrow> plus_usize checks base c)"

text \<open>\<open>0..n\<close>.\<close>

definition range_to :: "word_size \<Rightarrow> word_size list" where
  "range_to n = map of_nat [0..<unat n]"

text \<open>\<open>buffer[i] = v\<close>.\<close>

definition store_at :: "'f list \<Rightarrow> word_size \<Rightarrow> 'f \<Rightarrow> 'f list option" where
  "store_at buffer i v =
     (if unat i < length buffer then Some (buffer[unat i := v]) else None)"

fun all_some :: "'a option list \<Rightarrow> 'a list option" where
  "all_some [] = Some []"
| "all_some (None # _) = None"
| "all_some (Some x # xs) = (case all_some xs of None \<Rightarrow> None | Some ys \<Rightarrow> Some (x # ys))"

subsection \<open>Batches\<close>

record 'f float_array =
  array_values :: "'f list"
  validity :: "bool list option"

definition array_len :: "'f float_array \<Rightarrow> word_size" where
  "array_len a = of_nat (length (array_values a))"

text \<open>\<open>value(i)\<close> reads the buffer whether or not the slot is null, and panics past the end.\<close>

definition array_value :: "'f float_array \<Rightarrow> word_size \<Rightarrow> 'f option" where
  "array_value a i = index (array_values a) (unat i)"

definition from_iter_values :: "'f list \<Rightarrow> 'f float_array" where
  "from_iter_values xs = \<lparr>array_values = xs, validity = None\<rparr>"

datatype layout_error =
    ColumnLengthMismatch (bad_column: word_size) (expected_len: word_size) (found_len: word_size)
  | BufferLengthMismatch (expected_len: word_size) (found_len: word_size)

fun layout_error_text :: "layout_error \<Rightarrow> string" where
  "layout_error_text (ColumnLengthMismatch column expected found) =
     ''column '' @ digits (unat column) @ '' has length '' @ digits (unat found) @ '', expected '' @
     digits (unat expected) @ '' to match the batch'' @ CHR 0x27 # ''s row count''"
| "layout_error_text (BufferLengthMismatch expected found) =
     ''row-major buffer has length '' @ digits (unat found) @ '', expected '' @ digits (unat expected) @
     '' (rows * cols)''"

record 'f columnar_batch =
  col_columns :: "'f float_array list"
  col_rows :: word_size

record 'f row_batch =
  row_buffer :: "'f list"
  row_rows :: word_size
  row_cols :: word_size

fun columns_fit :: "word_size \<Rightarrow> word_size \<Rightarrow> 'f float_array list \<Rightarrow> layout_error + unit" where
  "columns_fit rows column [] = Inr ()"
| "columns_fit rows column (a # as) =
     (if array_len a \<noteq> rows
      then Inl (ColumnLengthMismatch column rows (array_len a))
      else columns_fit rows (column + 1) as)"

definition columnar_try_new ::
    "'f float_array list \<Rightarrow> word_size \<Rightarrow> layout_error + 'f columnar_batch" where
  "columnar_try_new columns rows =
     and_then (columns_fit rows 0 columns)
       (\<lambda>_. Inr \<lparr>col_columns = columns, col_rows = rows\<rparr>)"

definition columnar_cols :: "'f columnar_batch \<Rightarrow> word_size" where
  "columnar_cols b = of_nat (length (col_columns b))"

definition row_try_new ::
    "bool \<Rightarrow> 'f list \<Rightarrow> word_size \<Rightarrow> word_size \<Rightarrow> (layout_error + 'f row_batch) option" where
  "row_try_new checks buffer rows cols =
     (case times_usize checks rows cols of
        None \<Rightarrow> None
      | Some expected \<Rightarrow>
          if of_nat (length buffer) \<noteq> expected
          then Some (Inl (BufferLengthMismatch expected (of_nat (length buffer))))
          else Some (Inr \<lparr>row_buffer = buffer, row_rows = rows, row_cols = cols\<rparr>))"

subsection \<open>Transposes\<close>

text \<open>The inner loop gathers one row, from column \<open>c\<close> on.\<close>

fun gather_row ::
    "bool \<Rightarrow> word_size \<Rightarrow> word_size \<Rightarrow> word_size \<Rightarrow> 'f float_array list \<Rightarrow> 'f list \<Rightarrow> 'f list option"
where
  "gather_row checks cols r c [] buffer = Some buffer"
| "gather_row checks cols r c (a # as) buffer =
     (case array_value a r of
        None \<Rightarrow> None
      | Some v \<Rightarrow>
          (case place checks r cols c of
             None \<Rightarrow> None
           | Some i \<Rightarrow>
               (case store_at buffer i v of
                  None \<Rightarrow> None
                | Some buffer' \<Rightarrow> gather_row checks cols r (c + 1) as buffer')))"

fun gather_rows ::
    "bool \<Rightarrow> word_size \<Rightarrow> 'f float_array list \<Rightarrow> word_size list \<Rightarrow> 'f list \<Rightarrow> 'f list option"
where
  "gather_rows checks cols columns [] buffer = Some buffer"
| "gather_rows checks cols columns (r # rs) buffer =
     (case gather_row checks cols r 0 columns buffer of
        None \<Rightarrow> None
      | Some buffer' \<Rightarrow> gather_rows checks cols columns rs buffer')"

text \<open>\<open>zero\<close> is \<open>0.0\<close>, the initial content of the buffer.\<close>

definition to_row_major :: "bool \<Rightarrow> 'f \<Rightarrow> 'f columnar_batch \<Rightarrow> 'f row_batch option" where
  "to_row_major checks zero b =
     (let cols = columnar_cols b; rows = col_rows b in
      case times_usize checks rows cols of
        None \<Rightarrow> None
      | Some n \<Rightarrow>
          (case gather_rows checks cols (col_columns b) (range_to rows) (replicate (unat n) zero) of
             None \<Rightarrow> None
           | Some buffer \<Rightarrow> Some \<lparr>row_buffer = buffer, row_rows = rows, row_cols = cols\<rparr>))"

definition row_cell :: "bool \<Rightarrow> 'f row_batch \<Rightarrow> word_size \<Rightarrow> word_size \<Rightarrow> 'f option" where
  "row_cell checks b r c =
     (case place checks r (row_cols b) c of
        None \<Rightarrow> None
      | Some i \<Rightarrow> index (row_buffer b) (unat i))"

definition to_columnar :: "bool \<Rightarrow> 'f row_batch \<Rightarrow> 'f columnar_batch option" where
  "to_columnar checks b =
     (let rows = row_rows b; cols = row_cols b in
      case all_some (map (\<lambda>c. all_some (map (\<lambda>r. row_cell checks b r c) (range_to rows)))
                         (range_to cols)) of
        None \<Rightarrow> None
      | Some columns \<Rightarrow>
          Some \<lparr>col_columns = map from_iter_values columns, col_rows = rows\<rparr>)"

subsection \<open>Exact indices\<close>

lemma times_usize_exact:
  assumes "unat a * unat b < 2 ^ 64"
  shows "times_usize checks a b = Some (a * b)" and "unat (a * b) = unat a * unat b"
  using assms by (auto simp: times_usize_def unat_word_ariths)

lemma plus_usize_exact:
  assumes "unat a + unat b < 2 ^ 64"
  shows "plus_usize checks a b = Some (a + b)" and "unat (a + b) = unat a + unat b"
  using assms by (auto simp: plus_usize_def unat_word_ariths)

lemma place_lt:
  fixes r R c C :: nat
  assumes "r < R" and "c < C"
  shows "r * C + c < R * C"
proof -
  have "r * C + c < Suc r * C" using assms(2) by simp
  also have "\<dots> \<le> R * C" using assms(1) by (intro mult_le_mono1) simp
  finally show ?thesis .
qed

lemma unat_range_to:
  fixes n :: word_size
  assumes "i < unat n"
  shows "unat (of_nat i :: word_size) = i"
proof -
  have "unat n < 2 ^ LENGTH(64)" by (rule unsigned_less)
  with assms have "i < 2 ^ LENGTH(64)" by (rule less_trans)
  then show ?thesis by (rule of_nat_inverse [OF refl])
qed

lemma unat_word_len:
  assumes "i < 2 ^ 64"
  shows "unat (of_nat i :: word_size) = i"
  using assms by (intro of_nat_inverse [OF refl]) simp

lemma place_exact:
  fixes rows cols :: word_size
  assumes "r < unat rows" and "c < unat cols" and "unat rows * unat cols < 2 ^ 64"
  shows "\<exists>p. place checks (of_nat r) cols (of_nat c) = Some p \<and> unat p = r * unat cols + c"
proof -
  have lt: "r * unat cols + c < 2 ^ 64"
    using place_lt [OF assms(1,2)] assms(3) by simp
  have r: "unat (of_nat r :: word_size) = r" and c: "unat (of_nat c :: word_size) = c"
    using assms(1,2) by (auto intro: unat_range_to)
  have m: "times_usize checks (of_nat r) cols = Some (of_nat r * cols)"
    "unat (of_nat r * cols) = r * unat cols"
    using times_usize_exact(1) [of "of_nat r" cols] times_usize_exact(2) [of "of_nat r" cols] lt r
    by auto
  have a: "plus_usize checks (of_nat r * cols) (of_nat c) = Some (of_nat r * cols + of_nat c)"
    "unat (of_nat r * cols + of_nat c) = r * unat cols + c"
    using plus_usize_exact(1) [of "of_nat r * cols" "of_nat c"]
      plus_usize_exact(2) [of "of_nat r * cols" "of_nat c"] lt c m(2) by auto
  show ?thesis using m(1) a by (simp add: place_def)
qed

lemma range_to_first: "n \<noteq> 0 \<Longrightarrow> \<exists>ns. range_to n = 0 # ns"
  by (simp add: range_to_def upt_conv_Cons unat_gt_0 del: upt_Suc)

lemma all_some_map:
  assumes "\<And>x. x \<in> set xs \<Longrightarrow> f x = Some (g x)"
  shows "all_some (map f xs) = Some (map g xs)"
  using assms by (induction xs) auto

lemma nth_concat_equal:
  assumes "\<And>x. x \<in> set xs \<Longrightarrow> length x = n" and "r < length xs" and "c < n"
  shows "concat xs ! (r * n + c) = xs ! r ! c"
  using assms
proof (induction xs arbitrary: r)
  case (Cons x xs)
  show ?case
  proof (cases r)
    case 0
    then show ?thesis using Cons.prems by (simp add: nth_append)
  next
    case (Suc q)
    have "length x = n" using Cons.prems by simp
    then have "concat (x # xs) ! (r * n + c) = concat xs ! (q * n + c)"
      by (simp add: Suc nth_append)
    then show ?thesis using Cons Suc by simp
  qed
qed simp

lemma concat_blocks:
  assumes "length xs = R * C"
  shows "concat (map (\<lambda>r. map (\<lambda>c. xs ! (r * C + c)) [0..<C]) [0..<R]) = xs"
  using assms
proof (induction R arbitrary: xs)
  case (Suc R)
  define ys where "ys = take (R * C) xs"
  have ys: "length ys = R * C" using Suc.prems by (simp add: ys_def)
  have "map (\<lambda>r. map (\<lambda>c. xs ! (r * C + c)) [0..<C]) [0..<R] =
      map (\<lambda>r. map (\<lambda>c. ys ! (r * C + c)) [0..<C]) [0..<R]"
    using place_lt [of _ R _ C] by (intro map_cong refl) (auto simp: ys_def)
  then have init: "concat (map (\<lambda>r. map (\<lambda>c. xs ! (r * C + c)) [0..<C]) [0..<R]) = ys"
    using Suc.IH [OF ys] by (rule trans [OF arg_cong [where f = concat]])
  have "map (\<lambda>c. xs ! (R * C + c)) [0..<C] = drop (R * C) xs"
    using Suc.prems by (intro nth_equalityI) auto
  with init show ?case by (simp add: ys_def)
qed simp

subsection \<open>Transposes against their specification\<close>

text \<open>Row after row, column after column.\<close>

definition row_order :: "'f float_array list \<Rightarrow> nat \<Rightarrow> 'f list" where
  "row_order columns rows =
     concat (map (\<lambda>r. map (\<lambda>a. array_values a ! r) columns) [0..<rows])"

text \<open>A batch \<open>try_new\<close> accepts, whose columns and buffer fit the address space.\<close>

definition columnar_wf :: "'f columnar_batch \<Rightarrow> bool" where
  "columnar_wf b \<longleftrightarrow>
     list_all (\<lambda>a. length (array_values a) = unat (col_rows b)) (col_columns b) \<and>
     length (col_columns b) < 2 ^ 64 \<and>
     unat (col_rows b) * length (col_columns b) < 2 ^ 64"

definition row_wf :: "'f row_batch \<Rightarrow> bool" where
  "row_wf b \<longleftrightarrow> length (row_buffer b) = unat (row_rows b) * unat (row_cols b) \<and>
     length (row_buffer b) < 2 ^ 64"

lemma gather_row_spec:
  fixes rows cols :: word_size
  assumes "unat rows * unat cols < 2 ^ 64" and "r < unat rows"
    and "length pre = r * unat cols + k" and "k + length as = unat cols"
    and "length zs = length as" and "\<forall>a \<in> set as. r < length (array_values a)"
  shows "gather_row checks cols (of_nat r) (of_nat k) as (pre @ zs @ post) =
    Some (pre @ map (\<lambda>a. array_values a ! r) as @ post)"
  using assms(3-)
proof (induction as arbitrary: pre zs k)
  case (Cons a as)
  obtain z zs' where zs: "zs = z # zs'" using Cons.prems(3) by (cases zs) auto
  have k: "k < unat cols" using Cons.prems(2) by simp
  obtain p where p: "place checks (of_nat r) cols (of_nat k) = Some p" "unat p = length pre"
    using place_exact [OF assms(2) k assms(1)] Cons.prems(1) by auto
  have v: "array_value a (of_nat r) = Some (array_values a ! r)"
    using Cons.prems(4) unat_range_to [OF assms(2)] by (simp add: array_value_def index_def)
  have s: "store_at (pre @ zs @ post) p (array_values a ! r) =
      Some ((pre @ [array_values a ! r]) @ zs' @ post)"
    by (simp add: store_at_def p(2) zs list_update_append)
  have "gather_row checks cols (of_nat r) (of_nat k) (a # as) (pre @ zs @ post) =
      gather_row checks cols (of_nat r) (of_nat (Suc k)) as
        ((pre @ [array_values a ! r]) @ zs' @ post)"
    by (simp add: v p(1) s add.commute)
  also have "\<dots> = Some ((pre @ [array_values a ! r]) @ map (\<lambda>a. array_values a ! r) as @ post)"
    using Cons.prems zs by (intro Cons.IH) auto
  finally show ?case by simp
qed simp

lemma gather_rows_spec:
  fixes rows cols :: word_size
  assumes "unat rows * unat cols < 2 ^ 64" and "length columns = unat cols"
    and "\<forall>a \<in> set columns. length (array_values a) = unat rows"
    and "length pre = i * unat cols" and "length zs = (unat rows - i) * unat cols"
    and "i \<le> unat rows"
  shows "gather_rows checks cols columns (map of_nat [i..<unat rows]) (pre @ zs) =
    Some (pre @ concat (map (\<lambda>r. map (\<lambda>a. array_values a ! r) columns) [i..<unat rows]))"
  using assms(4-)
proof (induction "unat rows - i" arbitrary: i pre zs)
  case (Suc d)
  then have lt: "i < unat rows" by simp
  define now where "now = map (\<lambda>a. array_values a ! i) columns"
  let ?z = "take (unat cols) zs" and ?zs = "drop (unat cols) zs"
  have le: "unat cols \<le> length zs" using Suc.prems(2) lt
    by (cases "unat rows - i") auto
  have "gather_row checks cols (of_nat i) (of_nat 0) columns (pre @ ?z @ ?zs) =
      Some (pre @ now @ ?zs)"
    unfolding now_def using assms(2,3) Suc.prems lt le
    by (intro gather_row_spec [OF assms(1)]) auto
  then have row: "gather_row checks cols (of_nat i) 0 columns (pre @ zs) = Some ((pre @ now) @ ?zs)"
    by simp
  have "gather_rows checks cols columns (map of_nat [Suc i..<unat rows]) ((pre @ now) @ ?zs) =
      Some ((pre @ now) @
        concat (map (\<lambda>r. map (\<lambda>a. array_values a ! r) columns) [Suc i..<unat rows]))"
    using Suc.prems Suc.hyps(2) lt assms(2)
    by (intro Suc.hyps(1)) (auto simp: now_def Suc_diff_Suc diff_mult_distrib)
  with row lt show ?case
    by (simp add: upt_conv_Cons now_def del: upt_Suc)
qed simp

lemma to_row_major_spec:
  assumes "columnar_wf b"
  shows "to_row_major checks zero b =
    Some \<lparr>row_buffer = row_order (col_columns b) (unat (col_rows b)),
          row_rows = col_rows b, row_cols = columnar_cols b\<rparr>"
proof -
  let ?cols = "columnar_cols b" and ?rows = "col_rows b"
  have cols: "unat ?cols = length (col_columns b)"
    using assms by (simp add: columnar_wf_def columnar_cols_def unat_word_len)
  have fits: "unat ?rows * unat ?cols < 2 ^ 64"
    using assms by (simp add: columnar_wf_def cols)
  have "gather_rows checks ?cols (col_columns b) (map of_nat [0..<unat ?rows])
      ([] @ replicate (unat ?rows * unat ?cols) zero) =
    Some ([] @ row_order (col_columns b) (unat ?rows))"
    unfolding row_order_def using assms cols
    by (intro gather_rows_spec [OF fits]) (auto simp: columnar_wf_def list_all_iff)
  then show ?thesis
    by (simp add: to_row_major_def times_usize_exact(1) [OF fits] times_usize_exact(2) [OF fits]
        range_to_def Let_def)
qed

lemma length_row_order:
  "length (row_order columns rows) = rows * length columns"
  by (simp add: row_order_def length_concat comp_def sum_list_triv)

lemma row_order_nth:
  assumes "r < rows" and "c < length columns"
  shows "row_order columns rows ! (r * length columns + c) = array_values (columns ! c) ! r"
proof -
  let ?f = "\<lambda>r. map (\<lambda>a. array_values a ! r) columns"
  have "concat (map ?f [0..<rows]) ! (r * length columns + c) = map ?f [0..<rows] ! r ! c"
    using assms by (intro nth_concat_equal) auto
  with assms show ?thesis by (simp add: row_order_def)
qed

lemma to_columnar_spec:
  assumes "row_wf b"
  shows "to_columnar checks b =
    Some \<lparr>col_columns = map (\<lambda>c. from_iter_values
            (map (\<lambda>r. row_buffer b ! (r * unat (row_cols b) + c)) [0..<unat (row_rows b)]))
          [0..<unat (row_cols b)],
          col_rows = row_rows b\<rparr>"
proof -
  let ?R = "unat (row_rows b)" and ?C = "unat (row_cols b)"
  have fits: "?R * ?C < 2 ^ 64" using assms by (simp add: row_wf_def)
  have cell: "row_cell checks b (of_nat r) (of_nat c) = Some (row_buffer b ! (r * ?C + c))"
    if rc: "r < ?R" "c < ?C" for r c
  proof -
    obtain p where "place checks (of_nat r) (row_cols b) (of_nat c) = Some p" "unat p = r * ?C + c"
      using place_exact [OF rc fits] by blast
    with place_lt [OF rc] assms show ?thesis
      by (simp add: row_cell_def index_def row_wf_def)
  qed
  have column: "all_some (map (\<lambda>r. row_cell checks b r (of_nat c)) (range_to (row_rows b))) =
      Some (map (\<lambda>r. row_buffer b ! (r * ?C + c)) [0..<?R])" if "c < ?C" for c
    using all_some_map [of "[0..<?R]" "\<lambda>r. row_cell checks b (of_nat r) (of_nat c)"
        "\<lambda>r. row_buffer b ! (r * ?C + c)"] cell that
    by (simp add: range_to_def comp_def)
  have "all_some (map (\<lambda>c. all_some (map (\<lambda>r. row_cell checks b r c) (range_to (row_rows b))))
      (range_to (row_cols b))) =
    Some (map (\<lambda>c. map (\<lambda>r. row_buffer b ! (r * ?C + c)) [0..<?R]) [0..<?C])"
    using all_some_map [of "[0..<?C]"
        "\<lambda>c. all_some (map (\<lambda>r. row_cell checks b r (of_nat c)) (range_to (row_rows b)))"
        "\<lambda>c. map (\<lambda>r. row_buffer b ! (r * ?C + c)) [0..<?R]"] column
    by (simp add: range_to_def comp_def)
  then show ?thesis by (simp add: to_columnar_def comp_def Let_def)
qed

subsection \<open>Properties\<close>

lemma columns_fit_ok:
  "columns_fit rows k columns = Inr u \<longleftrightarrow> (\<forall>a \<in> set columns. array_len a = rows)"
  by (induction columns arbitrary: k) auto

lemma columns_fit_error:
  "columns_fit rows k columns = Inl e \<longleftrightarrow>
    (\<exists>ps a qs. columns = ps @ a # qs \<and> (\<forall>p \<in> set ps. array_len p = rows) \<and>
       array_len a \<noteq> rows \<and>
       e = ColumnLengthMismatch (k + of_nat (length ps)) rows (array_len a))"
proof (induction columns arbitrary: k)
  case (Cons b columns)
  show ?case
  proof (cases "array_len b = rows")
    case True
    have "(\<exists>ps a qs. b # columns = ps @ a # qs \<and> (\<forall>p \<in> set ps. array_len p = rows) \<and>
         array_len a \<noteq> rows \<and>
         e = ColumnLengthMismatch (k + of_nat (length ps)) rows (array_len a)) \<longleftrightarrow>
       (\<exists>ps a qs. columns = ps @ a # qs \<and> (\<forall>p \<in> set ps. array_len p = rows) \<and>
         array_len a \<noteq> rows \<and>
         e = ColumnLengthMismatch (k + 1 + of_nat (length ps)) rows (array_len a))"
      (is "?L \<longleftrightarrow> ?R")
    proof
      assume ?L
      then obtain ps a qs where h: "b # columns = ps @ a # qs" "\<forall>p \<in> set ps. array_len p = rows"
        "array_len a \<noteq> rows" "e = ColumnLengthMismatch (k + of_nat (length ps)) rows (array_len a)"
        by blast
      with True obtain ps' where "ps = b # ps'" by (cases ps) auto
      with h show ?R by (intro exI [of _ ps'] exI [of _ a] exI [of _ qs]) (simp add: add.assoc)
    next
      assume ?R
      then obtain ps a qs where "columns = ps @ a # qs" "\<forall>p \<in> set ps. array_len p = rows"
        "array_len a \<noteq> rows"
        "e = ColumnLengthMismatch (k + 1 + of_nat (length ps)) rows (array_len a)" by blast
      with True show ?L
        by (intro exI [of _ "b # ps"] exI [of _ a] exI [of _ qs]) (simp add: add.assoc)
    qed
    with True Cons.IH [of "k + 1"] show ?thesis by simp
  next
    case False
    then show ?thesis
      by (auto simp: Cons_eq_append_conv intro: exI [of _ "[]"])
  qed
qed simp

text \<open>
  A columnar batch is built exactly when every column has the declared number of
  rows, and the error names the first column that has not; a row batch is built exactly
  when the buffer has \<open>rows * cols\<close> elements, as long as that product does not overflow.
\<close>

theorem layout_construction:
  fixes columns :: "'f float_array list" and buffer :: "'f list"
  shows "(columnar_try_new columns rows = Inr \<lparr>col_columns = columns, col_rows = rows\<rparr> \<longleftrightarrow>
      (\<forall>a \<in> set columns. array_len a = rows)) \<and>
    (columnar_try_new columns rows = Inl e \<longleftrightarrow>
      (\<exists>ps a qs. columns = ps @ a # qs \<and> (\<forall>p \<in> set ps. array_len p = rows) \<and>
         array_len a \<noteq> rows \<and>
         e = ColumnLengthMismatch (of_nat (length ps)) rows (array_len a))) \<and>
    (unat rows * unat cols < 2 ^ 64 \<longrightarrow> length buffer < 2 ^ 64 \<longrightarrow>
      row_try_new checks buffer rows cols =
        Some (if length buffer = unat rows * unat cols
              then Inr \<lparr>row_buffer = buffer, row_rows = rows, row_cols = cols\<rparr>
              else Inl (BufferLengthMismatch (rows * cols) (of_nat (length buffer)))))"
proof (intro conjI impI)
  show "columnar_try_new columns rows = Inr \<lparr>col_columns = columns, col_rows = rows\<rparr> \<longleftrightarrow>
      (\<forall>a \<in> set columns. array_len a = rows)"
    by (auto simp: columnar_try_new_def and_then_eq_Inr columns_fit_ok)
  show "columnar_try_new columns rows = Inl e \<longleftrightarrow>
      (\<exists>ps a qs. columns = ps @ a # qs \<and> (\<forall>p \<in> set ps. array_len p = rows) \<and>
         array_len a \<noteq> rows \<and>
         e = ColumnLengthMismatch (of_nat (length ps)) rows (array_len a))"
    by (simp add: columnar_try_new_def and_then_eq_Inl columns_fit_error)
next
  assume fits: "unat rows * unat cols < 2 ^ 64" and len: "length buffer < 2 ^ 64"
  have "of_nat (length buffer) = rows * cols \<longleftrightarrow> length buffer = unat rows * unat cols"
    using times_usize_exact(2) [OF fits] unat_word_len [OF len] by (metis word_unat_eq_iff)
  then show "row_try_new checks buffer rows cols =
      Some (if length buffer = unat rows * unat cols
            then Inr \<lparr>row_buffer = buffer, row_rows = rows, row_cols = cols\<rparr>
            else Inl (BufferLengthMismatch (rows * cols) (of_nat (length buffer))))"
    by (simp add: row_try_new_def times_usize_exact(1) [OF fits])
qed

lemma layout_construction_witness:
  "columnar_try_new [from_iter_values [1::nat, 2], from_iter_values [3]] 2 =
    Inl (ColumnLengthMismatch 1 2 1)"
  by (subst layout_construction [THEN conjunct2, THEN conjunct1])
    (intro exI [of _ "[from_iter_values [1, 2]]"] exI [of _ "from_iter_values [3]"] exI [of _ "[]"],
      simp add: array_len_def from_iter_values_def)

text \<open>
  Transposing a well-formed columnar batch never panics, with or without overflow
  checks: row \<open>r\<close> of column \<open>c\<close> lands at \<open>r * cols + c\<close> and the buffer holds nothing
  else, so the result is a well-formed row batch of the same shape.
\<close>

theorem transpose_places:
  assumes "columnar_wf b"
  shows "\<exists>b'. to_row_major checks zero b = Some b' \<and> row_wf b' \<and>
    row_rows b' = col_rows b \<and> unat (row_cols b') = length (col_columns b) \<and>
    (\<forall>r < unat (col_rows b). \<forall>c < length (col_columns b).
       row_buffer b' ! (r * length (col_columns b) + c) = array_values (col_columns b ! c) ! r)"
proof -
  have "unat (columnar_cols b) = length (col_columns b)"
    using assms by (simp add: columnar_wf_def columnar_cols_def unat_word_len)
  then show ?thesis using assms
    by (simp add: to_row_major_spec [OF assms] row_wf_def length_row_order row_order_nth
        columnar_wf_def)
qed

lemma transpose_places_witness:
  "\<exists>b'. to_row_major True 0
      \<lparr>col_columns = [from_iter_values [1::nat, 2], from_iter_values [3, 4]], col_rows = 2\<rparr> =
    Some b' \<and> row_buffer b' ! Suc 0 = 3 \<and> row_buffer b' ! Suc (Suc 0) = 2"
proof -
  let ?b = "\<lparr>col_columns = [from_iter_values [1::nat, 2], from_iter_values [3, 4]], col_rows = 2\<rparr>"
  have "columnar_wf ?b" by (simp add: columnar_wf_def from_iter_values_def)
  from transpose_places [OF this, of True 0] obtain b' where b': "to_row_major True 0 ?b = Some b'"
    "\<forall>r < unat (col_rows ?b). \<forall>c < length (col_columns ?b). row_buffer b' !
      (r * length (col_columns ?b) + c) = array_values (col_columns ?b ! c) ! r"
    by blast
  have "row_buffer b' ! Suc 0 = 3" "row_buffer b' ! Suc (Suc 0) = 2"
    using b'(2) [rule_format, of 0 1] b'(2) [rule_format, of 1 0]
    by (simp_all add: from_iter_values_def)
  with b'(1) show ?thesis by auto
qed

lemma row_columns_of_row_order:
  assumes "\<forall>a \<in> set columns. length (array_values a) = rows"
  shows "map (\<lambda>c. map (\<lambda>r. row_order columns rows ! (r * length columns + c)) [0..<rows])
      [0..<length columns] = map array_values columns"
  using assms by (auto simp: row_order_nth intro!: nth_equalityI)

text \<open>
  C36. The transposes are inverse to each other. From columnar to row-major and back
  every value returns to its column, and only the validity bitmaps are gone; from
  row-major to columnar and back the batch is the same.
\<close>

theorem layout_round_trip:
  assumes "columnar_wf b" and "row_wf d"
  shows "(\<exists>b'. to_row_major checks zero b = Some b' \<and>
      to_columnar checks b' =
        Some (b\<lparr>col_columns := map (\<lambda>a. a\<lparr>validity := None\<rparr>) (col_columns b)\<rparr>)) \<and>
    (\<exists>d'. to_columnar checks d = Some d' \<and> columnar_wf d' \<and>
      to_row_major checks zero d' = Some d)"
proof
  let ?R = "unat (col_rows b)" and ?n = "length (col_columns b)"
  have cols: "unat (columnar_cols b) = ?n"
    using assms(1) by (simp add: columnar_wf_def columnar_cols_def unat_word_len)
  let ?b' = "\<lparr>row_buffer = row_order (col_columns b) ?R, row_rows = col_rows b,
      row_cols = columnar_cols b\<rparr>"
  have wf: "row_wf ?b'" using assms(1) by (simp add: row_wf_def length_row_order cols columnar_wf_def)
  have "map from_iter_values (map (\<lambda>c. map (\<lambda>r. row_order (col_columns b) ?R ! (r * ?n + c)) [0..<?R])
      [0..<?n]) = map from_iter_values (map array_values (col_columns b))"
    using assms(1) by (subst row_columns_of_row_order) (auto simp: columnar_wf_def list_all_iff)
  then have "to_columnar checks ?b' =
      Some (b\<lparr>col_columns := map (\<lambda>a. a\<lparr>validity := None\<rparr>) (col_columns b)\<rparr>)"
    by (simp add: to_columnar_spec [OF wf] cols comp_def from_iter_values_def)
  with to_row_major_spec [OF assms(1)]
  show "\<exists>b'. to_row_major checks zero b = Some b' \<and>
      to_columnar checks b' =
        Some (b\<lparr>col_columns := map (\<lambda>a. a\<lparr>validity := None\<rparr>) (col_columns b)\<rparr>)" by blast
next
  let ?R = "unat (row_rows d)" and ?C = "unat (row_cols d)"
  let ?cols = "map (\<lambda>c. from_iter_values (map (\<lambda>r. row_buffer d ! (r * ?C + c)) [0..<?R])) [0..<?C]"
  let ?d' = "\<lparr>col_columns = ?cols, col_rows = row_rows d\<rparr>"
  have "?C < 2 ^ LENGTH(64)" by (rule unsigned_less)
  then have C: "?C < 2 ^ 64" by simp
  have wf: "columnar_wf ?d'"
    using assms(2) C by (simp add: columnar_wf_def row_wf_def list_all_iff from_iter_values_def)
  have "row_order ?cols ?R = concat (map (\<lambda>r. map (\<lambda>c. row_buffer d ! (r * ?C + c)) [0..<?C]) [0..<?R])"
    unfolding row_order_def by (intro arg_cong [where f = concat] map_cong refl)
      (simp add: from_iter_values_def comp_def)
  also have "\<dots> = row_buffer d" using assms(2) by (intro concat_blocks) (simp add: row_wf_def)
  finally have "to_row_major checks zero ?d' = Some d"
    using to_row_major_spec [OF wf, of checks zero] by (simp add: columnar_cols_def)
  with wf to_columnar_spec [OF assms(2), of checks]
  show "\<exists>d'. to_columnar checks d = Some d' \<and> columnar_wf d' \<and> to_row_major checks zero d' = Some d"
    by blast
qed

lemma layout_round_trip_witness:
  "\<exists>b'. to_row_major True 0
      \<lparr>col_columns = [\<lparr>array_values = [1::nat, 0], validity = Some [True, False]\<rparr>,
                       from_iter_values [3, 4]], col_rows = 2\<rparr> = Some b' \<and>
    to_columnar True b' =
      Some \<lparr>col_columns = [from_iter_values [1, 0], from_iter_values [3, 4]], col_rows = 2\<rparr>"
proof -
  let ?b = "\<lparr>col_columns = [\<lparr>array_values = [1::nat, 0], validity = Some [True, False]\<rparr>,
      from_iter_values [3, 4]], col_rows = 2\<rparr>"
  let ?d = "\<lparr>row_buffer = [1::nat, 2], row_rows = 1, row_cols = 2\<rparr>"
  have "columnar_wf ?b" and "row_wf ?d"
    by (simp_all add: columnar_wf_def row_wf_def from_iter_values_def)
  from layout_round_trip [OF this, of True 0, THEN conjunct1]
  show ?thesis by (simp add: from_iter_values_def)
qed

text \<open>
  Without overflow checks the guard of the row-major constructor can be passed by a
  shape whose product wraps: an empty buffer is accepted as \<open>2^32\<close> rows of \<open>2^32\<close>
  columns, and the transpose of that batch panics. With overflow checks the constructor
  itself panics.
\<close>

theorem wrapped_shape_accepted:
  "row_try_new False [] (2 ^ 32) (2 ^ 32) =
     Some (Inr \<lparr>row_buffer = [] :: 'f list, row_rows = 2 ^ 32, row_cols = 2 ^ 32\<rparr>) \<and>
   to_columnar False \<lparr>row_buffer = [] :: 'f list, row_rows = 2 ^ 32, row_cols = 2 ^ 32\<rparr> = None \<and>
   row_try_new True ([] :: 'f list) (2 ^ 32) (2 ^ 32) = None"
proof (intro conjI)
  show "row_try_new False [] (2 ^ 32) (2 ^ 32) =
     Some (Inr \<lparr>row_buffer = [] :: 'f list, row_rows = 2 ^ 32, row_cols = 2 ^ 32\<rparr>)"
    by (simp add: row_try_new_def times_usize_def)
  show "row_try_new True ([] :: 'f list) (2 ^ 32) (2 ^ 32) = None"
    by (simp add: row_try_new_def times_usize_def)
  obtain ns where some: "range_to (2 ^ 32) = 0 # ns"
    using range_to_first [of "2 ^ 32"] by auto
  have "row_cell False \<lparr>row_buffer = [] :: 'f list, row_rows = 2 ^ 32, row_cols = 2 ^ 32\<rparr> r c = None"
    for r c
    by (simp add: row_cell_def index_def split: option.split)
  then show "to_columnar False \<lparr>row_buffer = [] :: 'f list, row_rows = 2 ^ 32, row_cols = 2 ^ 32\<rparr> =
      None"
    by (simp add: to_columnar_def some [simplified] Let_def)
qed

end
