(* ===== verification/SimdAdd.thy ===== *)
theory SimdAdd
  imports UdfValues
begin

text \<open>
  Wrapping addition of a constant to an \<open>Int32Array\<close> (src/crates/pipeline/src/simd_add.rs)
  and the scalar function over it (simd_add_udf.rs).

  An \<open>i32\<close> is a \<open>32 word\<close>, whose \<open>+\<close> is \<open>wrapping_add\<close>.  The vector instructions are
  the loads, lane-wise sums and stores they are documented as; an access outside a slice
  is \<open>None\<close>.  The processor's answer to the \<open>avx2\<close> test is an argument, \<open>None\<close> on a target that
  is not x86-64.
\<close>

subsection \<open>The kernel\<close>

definition int32_from :: "32 word list \<Rightarrow> int32_array" where
  "int32_from xs = \<lparr>int32_values = xs, int32_nulls = 0\<rparr>"

datatype simd_add_error = Nullable

definition simd_add_error_text :: "simd_add_error \<Rightarrow> string" where
  "simd_add_error_text e = (case e of Nullable \<Rightarrow> ''nullable input is not supported by this kernel'')"

definition reject_nulls :: "int32_array \<Rightarrow> simd_add_error + unit" where
  "reject_nulls a = (if int32_nulls a > 0 then Inl Nullable else Inr ())"

definition wrapping_add_reference :: "int32_array \<Rightarrow> 32 word \<Rightarrow> simd_add_error + int32_array" where
  "wrapping_add_reference a k =
     and_then (reject_nulls a) (\<lambda>_. Inr (int32_from (map (\<lambda>x. x + k) (int32_values a))))"

text \<open>An empty vector with room for the result, extended by the iterator.\<close>

definition wrapping_add_scalar :: "int32_array \<Rightarrow> 32 word \<Rightarrow> simd_add_error + int32_array" where
  "wrapping_add_scalar a k =
     and_then (reject_nulls a)
       (\<lambda>_. let values = int32_values a; out = [] in
            Inr (int32_from (out @ map (\<lambda>x. x + k) values)))"

text \<open>\<open>loadu\<close>, lane-wise \<open>add_epi32\<close> and \<open>storeu\<close> at an element offset.\<close>

definition load_lanes :: "nat \<Rightarrow> 32 word list \<Rightarrow> nat \<Rightarrow> 32 word list option" where
  "load_lanes lanes src offset =
     (if offset + lanes \<le> length src then Some (take lanes (drop offset src)) else None)"

definition add_lanes :: "32 word list \<Rightarrow> 32 word list \<Rightarrow> 32 word list" where
  "add_lanes v w = map2 (+) v w"

definition store_lanes :: "32 word list \<Rightarrow> nat \<Rightarrow> 32 word list \<Rightarrow> 32 word list option" where
  "store_lanes dst offset v =
     (if offset + length v \<le> length dst
      then Some (take offset dst @ v @ drop (offset + length v) dst)
      else None)"

fun add_chunks ::
    "nat \<Rightarrow> 32 word list \<Rightarrow> 32 word list \<Rightarrow> 32 word list \<Rightarrow> nat list \<Rightarrow> 32 word list option" where
  "add_chunks lanes src k_vec dst [] = Some dst"
| "add_chunks lanes src k_vec dst (i # is) =
     (let offset = i * lanes in
      case load_lanes lanes src offset of
        None \<Rightarrow> None
      | Some v \<Rightarrow>
          (case store_lanes dst offset (add_lanes v k_vec) of
             None \<Rightarrow> None
           | Some dst' \<Rightarrow> add_chunks lanes src k_vec dst' is))"

text \<open>\<open>dst.iter_mut().zip(src.iter()).skip(n)\<close>.\<close>

fun add_tail :: "nat \<Rightarrow> 32 word list \<Rightarrow> 32 word list \<Rightarrow> 32 word \<Rightarrow> 32 word list" where
  "add_tail n (d # dst) (s # src) k =
     (case n of 0 \<Rightarrow> (s + k) # add_tail 0 dst src k | Suc m \<Rightarrow> d # add_tail m dst src k)"
| "add_tail n dst src k = dst"

definition add_vectors ::
    "nat \<Rightarrow> 32 word list \<Rightarrow> 32 word list \<Rightarrow> 32 word \<Rightarrow> 32 word list option" where
  "add_vectors lanes src dst k =
     (let len = length src;
          chunks = len div lanes;
          k_vec = replicate lanes k
      in case add_chunks lanes src k_vec dst [0..<chunks] of
           None \<Rightarrow> None
         | Some dst' \<Rightarrow> Some (add_tail (chunks * lanes) dst' src k))"

definition add_sse2 :: "32 word list \<Rightarrow> 32 word list \<Rightarrow> 32 word \<Rightarrow> 32 word list option" where
  "add_sse2 src dst k = add_vectors 4 src dst k"

definition add_avx2 :: "32 word list \<Rightarrow> 32 word list \<Rightarrow> 32 word \<Rightarrow> 32 word list option" where
  "add_avx2 src dst k = add_vectors 8 src dst k"

definition wrapping_add_simd ::
    "bool option \<Rightarrow> int32_array \<Rightarrow> 32 word \<Rightarrow> (simd_add_error + int32_array) option" where
  "wrapping_add_simd avx2 a k =
     (case reject_nulls a of
        Inl e \<Rightarrow> Some (Inl e)
      | Inr _ \<Rightarrow>
          (let values = int32_values a; out = replicate (length values) 0 in
           case (case avx2 of
                   Some True \<Rightarrow> add_avx2 values out k
                 | Some False \<Rightarrow> add_sse2 values out k
                 | None \<Rightarrow> Some (add_tail 0 out values k)) of
             None \<Rightarrow> None
           | Some out' \<Rightarrow> Some (Inr (int32_from out'))))"

subsection \<open>The scalar function\<close>

definition WRAPPING_ADD_SIMD_UDF_NAME :: string where
  "WRAPPING_ADD_SIMD_UDF_NAME = ''wrapping_add_simd''"

text \<open>
  \<open>debug\<close> is the derived rendering of Arrow's
  \<open>DataType\<close>.
\<close>

definition invoke_wrapping_add_simd ::
    "(data_type \<Rightarrow> string) \<Rightarrow> bool option \<Rightarrow> udf_value list \<Rightarrow> (string + udf_value) option" where
  "invoke_wrapping_add_simd debug avx2 args =
     (case args of
        [column, constant] \<Rightarrow>
          (case constant of
             ScalarValue (Int32Scalar (Some k)) \<Rightarrow>
               (case column of
                  ArrayValue array \<Rightarrow>
                    (case array of
                       Int32Column a \<Rightarrow>
                         map_option (\<lambda>r. and_then (map_err simd_add_error_text r)
                             (\<lambda>result. Inr (ArrayValue (Int32Column result))))
                           (wrapping_add_simd avx2 a k)
                     | _ \<Rightarrow>
                         Some (Inl (WRAPPING_ADD_SIMD_UDF_NAME @ '' requires an INT32 array, got '' @
                           debug (udf_array_type array))))
                | _ \<Rightarrow>
                    Some (Inl (WRAPPING_ADD_SIMD_UDF_NAME @
                      '''s first argument must be an INT32 array; a bare scalar column is outside this UDF's scope'')))
           | _ \<Rightarrow>
               Some (Inl (WRAPPING_ADD_SIMD_UDF_NAME @
                 '''s second argument must be a non-null INT32 literal'')))
      | _ \<Rightarrow>
          Some (Inl (WRAPPING_ADD_SIMD_UDF_NAME @
            '' expects exactly two arguments (array, constant), got '' @ digits (length args))))"

subsection \<open>The kernel against its reference\<close>

lemma add_tail_spec:
  "length dst = length src \<Longrightarrow>
   add_tail n dst src k = take n dst @ map (\<lambda>x. x + k) (drop n src)"
  by (induction n dst src k rule: add_tail.induct) (auto split: nat.split)

lemma add_lanes_constant: "add_lanes v (replicate (length v) k) = map (\<lambda>x. x + k) v"
  by (induction v) (auto simp: add_lanes_def)

lemma add_chunks_spec:
  assumes "n * lanes \<le> length src" and "i \<le> n" and "length zs = length src - i * lanes"
  shows "add_chunks lanes src (replicate lanes k)
      (map (\<lambda>x. x + k) (take (i * lanes) src) @ zs) [i..<n] =
    Some (map (\<lambda>x. x + k) (take (n * lanes) src) @ drop ((n - i) * lanes) zs)"
  using assms(2,3)
proof (induction "n - i" arbitrary: i zs)
  case (Suc d)
  then have lt: "i < n" by simp
  then have "(i + 1) * lanes \<le> n * lanes" by (intro mult_le_mono1) simp
  with assms(1) have le: "i * lanes + lanes \<le> length src" by simp
  let ?pre = "map (\<lambda>x. x + k) (take (i * lanes) src)"
  have v: "load_lanes lanes src (i * lanes) = Some (take lanes (drop (i * lanes) src))"
    using le by (simp add: load_lanes_def)
  have len: "length (take lanes (drop (i * lanes) src)) = lanes" using le by simp
  have s: "store_lanes (?pre @ zs) (i * lanes)
      (add_lanes (take lanes (drop (i * lanes) src)) (replicate lanes k)) =
    Some (map (\<lambda>x. x + k) (take (Suc i * lanes) src) @ drop lanes zs)"
    using le Suc.prems(2) add_lanes_constant [of "take lanes (drop (i * lanes) src)" k]
    by (simp add: store_lanes_def len take_add add.commute [of lanes])
  have "add_chunks lanes src (replicate lanes k)
      (map (\<lambda>x. x + k) (take (Suc i * lanes) src) @ drop lanes zs) [Suc i..<n] =
    Some (map (\<lambda>x. x + k) (take (n * lanes) src) @ drop ((n - Suc i) * lanes) (drop lanes zs))"
    using Suc.hyps(2) Suc.prems lt by (intro Suc.hyps(1)) auto
  moreover have "(n - Suc i) * lanes + lanes = (n - i) * lanes"
    using lt by (simp add: Suc_diff_Suc [symmetric])
  ultimately show ?case
    using lt by (simp add: upt_conv_Cons v s Let_def del: upt_Suc mult_Suc)
qed simp

lemma add_vectors_spec:
  assumes "length dst = length src"
  shows "add_vectors lanes src dst k = Some (map (\<lambda>x. x + k) src)"
proof -
  let ?n = "length src div lanes"
  have le: "?n * lanes \<le> length src" by simp
  have "add_chunks lanes src (replicate lanes k) dst [0..<?n] =
      Some (map (\<lambda>x. x + k) (take (?n * lanes) src) @ drop (?n * lanes) dst)"
    using add_chunks_spec [OF le, of 0 dst k] assms by simp
  then show ?thesis
    using assms le
    by (simp add: add_vectors_def Let_def add_tail_spec map_append [symmetric] del: map_append)
qed

lemma wrapping_add_simd_eq:
  "wrapping_add_simd avx2 a k = Some (wrapping_add_reference a k)"
  by (auto simp: wrapping_add_simd_def wrapping_add_reference_def
      add_avx2_def add_sse2_def add_vectors_spec add_tail_spec Let_def
      split: sum.split option.split bool.split)

text \<open>
  C27. On every processor, every length and every constant the vector kernel returns what
  the reference loop returns, its error included, the plain iterator does too, and no load
  or store leaves its slice.
\<close>

theorem simd_is_reference:
  "wrapping_add_simd avx2 a k = Some (wrapping_add_reference a k) \<and>
   wrapping_add_scalar a k = wrapping_add_reference a k"
  by (simp add: wrapping_add_simd_eq wrapping_add_reference_def wrapping_add_scalar_def)

text \<open>
  The scalar function answers with the wrapped sums of an \<open>Int32\<close> array without nulls
  and a non-null \<open>Int32\<close> constant, element for element and of the same length, and with an
  error for every other list of arguments; it never panics.
\<close>

theorem invoke_wrapping_add:
  "(\<exists>r. invoke_wrapping_add_simd debug avx2 args = Some r) \<and>
   (invoke_wrapping_add_simd debug avx2 args = Some (Inr v) \<longleftrightarrow>
     (\<exists>a k. args = [ArrayValue (Int32Column a), ScalarValue (Int32Scalar (Some k))] \<and>
        int32_nulls a = 0 \<and>
        v = ArrayValue (Int32Column (int32_from (map (\<lambda>x. x + k) (int32_values a))))))"
  by (auto simp: invoke_wrapping_add_simd_def wrapping_add_simd_eq wrapping_add_reference_def
      reject_nulls_def
      split: list.split udf_value.split udf_array.split udf_scalar.split option.split)

end
