(* ===== verification/Transport.thy ===== *)
theory Transport
  imports PipelineErrors
begin

text \<open>
  The budgeted channel between reader and writer (\<open>pipeline/src/bounded/transport.rs\<close>).
  Every access to the shared state happens under one mutex, so each operation is a
  sequence of critical sections: this theory gives one function per critical section, and
  \<open>TransportSystem\<close> interleaves them.  A section that ends in \<open>Condvar::wait\<close> returns
  \<open>Wait\<close>; plain arithmetic that would leave \<open>usize\<close> is the outer \<open>None\<close>.
\<close>

subsection \<open>Leases, the shared state and its owner\<close>

text \<open>
  A reservation holds \<open>Some n\<close> bytes of the budget, or nothing (\<open>uncharged\<close>).  A batch is
  Arrow data and stays a type parameter; its column sizes come from the Arrow crate.
\<close>

type_synonym reservation = "nat option"

record 'b batch_lease =
  bl_batch :: 'b
  bl_reservation :: reservation

type_synonym 'b message = "pipeline_io_error + 'b batch_lease"

record 'b transport_state =
  st_queue :: "'b message list"
  st_bytes :: nat
  st_peak :: nat
  st_receiver_waiting :: bool
  st_receiver_alive :: bool
  st_sender_alive :: bool
  st_cancelled :: bool

record control =
  ct_capacity :: nat
  ct_limit :: nat

definition channel_state :: "'b transport_state" where
  "channel_state = \<lparr>st_queue = [], st_bytes = 0, st_peak = 0, st_receiver_waiting = False,
     st_receiver_alive = True, st_sender_alive = True, st_cancelled = False\<rparr>"

definition metrics :: "'b transport_state \<Rightarrow> nat \<times> nat" where
  "metrics st = (st_bytes st, st_peak st)"

text \<open>What a message keeps reserved, and the leases a queue gives up when it is taken.\<close>

fun reserved :: "reservation \<Rightarrow> nat" where
  "reserved None = 0"
| "reserved (Some n) = n"

fun message_reservations :: "'b message \<Rightarrow> reservation list" where
  "message_reservations (Inl _) = []"
| "message_reservations (Inr lease) = [bl_reservation lease]"

definition queue_reservations :: "'b message list \<Rightarrow> reservation list" where
  "queue_reservations q = concat (map message_reservations q)"

subsection \<open>Charging a batch\<close>

fun checked_charge_from :: "nat \<Rightarrow> nat list \<Rightarrow> pipeline_error + nat" where
  "checked_charge_from acc [] = Inr acc"
| "checked_charge_from acc (n # sizes) =
     (case checked_add acc n of
        None \<Rightarrow> Inl ByteChargeOverflow
      | Some acc' \<Rightarrow> checked_charge_from acc' sizes)"

definition checked_charge :: "nat list \<Rightarrow> pipeline_error + nat" where
  "checked_charge sizes = checked_charge_from 0 sizes"

definition charge :: "('b \<Rightarrow> nat list) \<Rightarrow> 'b \<Rightarrow> pipeline_error + nat" where
  "charge sizes batch = checked_charge (sizes batch)"

text \<open>The part of \<open>send\<close> before the lock: the charge of the batch, refused if over the limit.\<close>

definition send_charge ::
  "('b \<Rightarrow> nat list) \<Rightarrow> control \<Rightarrow> pipeline_io_error + 'b \<Rightarrow> pipeline_error + nat" where
  "send_charge sizes ctl item =
     and_then (case item of Inl _ \<Rightarrow> Inr 0 | Inr batch \<Rightarrow> charge sizes batch)
       (\<lambda>n. if ct_limit ctl < n then Inl (BatchTooLarge n (ct_limit ctl)) else Inr n)"

definition message_of :: "nat \<Rightarrow> pipeline_io_error + 'b \<Rightarrow> 'b message" where
  "message_of n item =
     (case item of
        Inl e \<Rightarrow> Inl e
      | Inr batch \<Rightarrow> Inr \<lparr>bl_batch = batch, bl_reservation = Some n\<rparr>)"

subsection \<open>Critical sections of the sender\<close>

datatype 'r attempt = Wait | Return 'r

definition count_available :: "control \<Rightarrow> 'b transport_state \<Rightarrow> bool" where
  "count_available ctl st \<longleftrightarrow>
     (if ct_capacity ctl = 0 then st_receiver_waiting st \<and> st_queue st = []
      else length (st_queue st) < ct_capacity ctl)"

text \<open>
  One pass of the admission loop.  \<open>Return (Inl e)\<close> refuses, \<open>Return (Inr ())\<close> has pushed
  the message and notified; the same critical section then looks at the acknowledgment.
\<close>

definition try_admit ::
  "control \<Rightarrow> 'b message \<Rightarrow> nat \<Rightarrow> 'b transport_state \<Rightarrow>
   ((pipeline_error + unit) attempt \<times> 'b transport_state) option" where
  "try_admit ctl m n st =
     (if st_cancelled st \<or> \<not> st_receiver_alive st then Some (Return (Inl Cancelled), st)
      else if \<not> count_available ctl st then Some (Wait, st)
      else (case plain_sub (ct_limit ctl) (st_bytes st) of
              None \<Rightarrow> None
            | Some free \<Rightarrow>
                if n \<le> free then
                  (case plain_add (st_bytes st) n of
                     None \<Rightarrow> None
                   | Some bytes' \<Rightarrow>
                       Some (Return (Inr ()),
                         st\<lparr>st_bytes := bytes', st_peak := max (st_peak st) bytes',
                            st_queue := st_queue st @ [m]\<rparr>))
                else Some (Wait, st)))"

text \<open>One pass of the rendezvous loop, and the verdict after it.\<close>

definition await_ack :: "control \<Rightarrow> 'b transport_state \<Rightarrow> (pipeline_error + unit) attempt" where
  "await_ack ctl st =
     (if ct_capacity ctl = 0 \<and> st_queue st \<noteq> [] \<and> \<not> st_cancelled st \<and> st_receiver_alive st
      then Wait
      else if st_cancelled st \<or> \<not> st_receiver_alive st then Return (Inl Cancelled)
      else Return (Inr ()))"

definition drop_sender :: "'b transport_state \<Rightarrow> 'b transport_state" where
  "drop_sender st = st\<lparr>st_sender_alive := False\<rparr>"

subsection \<open>Critical sections of the receiver\<close>

definition try_recv ::
  "'b transport_state \<Rightarrow> (pipeline_error + 'b batch_lease option) attempt \<times> 'b transport_state" where
  "try_recv st =
     (if st_cancelled st then (Return (Inl Cancelled), st)
      else (case st_queue st of
              message # rest \<Rightarrow>
                (Return (map_err Io (case message of Inl e \<Rightarrow> Inl e | Inr lease \<Rightarrow> Inr (Some lease))),
                 st\<lparr>st_queue := rest, st_receiver_waiting := False\<rparr>)
            | [] \<Rightarrow>
                (if \<not> st_sender_alive st then (Return (Inr None), st)
                 else (Wait, st\<lparr>st_receiver_waiting := True\<rparr>))))"

definition drop_receiver :: "'b transport_state \<Rightarrow> reservation list \<times> 'b transport_state" where
  "drop_receiver st =
     (queue_reservations (st_queue st),
      st\<lparr>st_receiver_alive := False, st_receiver_waiting := False, st_queue := []\<rparr>)"

subsection \<open>Cancellation and reservations\<close>

definition cancel :: "'b transport_state \<Rightarrow> reservation list \<times> 'b transport_state" where
  "cancel st = (queue_reservations (st_queue st), st\<lparr>st_cancelled := True, st_queue := []\<rparr>)"

text \<open>\<open>Drop for Reservation\<close>.\<close>

definition release :: "reservation \<Rightarrow> 'b transport_state \<Rightarrow> 'b transport_state option" where
  "release r st =
     (case r of
        None \<Rightarrow> Some st
      | Some n \<Rightarrow>
          (case plain_sub (st_bytes st) n of
             None \<Rightarrow> None
           | Some left \<Rightarrow> Some (st\<lparr>st_bytes := left\<rparr>)))"

text \<open>
  The critical section of \<open>transform\<close>: the lease retains \<open>retained\<close> bytes and its new batch
  needs \<open>needed > retained\<close>.
\<close>

definition grow ::
  "control \<Rightarrow> nat \<Rightarrow> nat \<Rightarrow> 'b transport_state \<Rightarrow>
   (pipeline_error + 'b transport_state) option" where
  "grow ctl retained needed st =
     (case plain_sub needed retained of
        None \<Rightarrow> None
      | Some growth \<Rightarrow>
     (case plain_sub (ct_limit ctl) (st_bytes st) of
        None \<Rightarrow> None
      | Some available \<Rightarrow>
          if available < growth then
            (case plain_add retained available of
               None \<Rightarrow> None
             | Some room \<Rightarrow> Some (Inl (BatchGrowthExceedsBudget needed room)))
          else
            (case plain_add (st_bytes st) growth of
               None \<Rightarrow> None
             | Some bytes' \<Rightarrow>
                 Some (Inr (st\<lparr>st_bytes := bytes', st_peak := max (st_peak st) bytes'\<rparr>)))))"

definition uncharged :: "'b \<Rightarrow> 'b batch_lease" where
  "uncharged batch = \<lparr>bl_batch = batch, bl_reservation = None\<rparr>"

definition into_parts :: "'b batch_lease \<Rightarrow> 'b \<times> reservation" where
  "into_parts lease = (bl_batch lease, bl_reservation lease)"

text \<open>
  \<open>BatchLease::transform\<close>, run without interference between its critical sections: every
  early return drops the reservation it took out of the lease.
\<close>

definition transform ::
  "('b \<Rightarrow> nat list) \<Rightarrow> control \<Rightarrow> ('b \<Rightarrow> pipeline_io_error + 'b) \<Rightarrow> 'b batch_lease \<Rightarrow>
   'b transport_state \<Rightarrow> ((pipeline_error + 'b batch_lease) \<times> 'b transport_state) option" where
  "transform sizes ctl f lease st =
     (let r = bl_reservation lease;
          give_up = (\<lambda>e. map_option (\<lambda>st'. (Inl e, st')) (release r st))
      in case f (bl_batch lease) of
           Inl source \<Rightarrow> give_up (Io source)
         | Inr batch \<Rightarrow>
             (case r of
                None \<Rightarrow> Some (Inr \<lparr>bl_batch = batch, bl_reservation = None\<rparr>, st)
              | Some retained \<Rightarrow>
                  (case charge sizes batch of
                     Inl e \<Rightarrow> give_up e
                   | Inr needed \<Rightarrow>
                       if retained < needed then
                         (case grow ctl retained needed st of
                            None \<Rightarrow> None
                          | Some (Inl e) \<Rightarrow> give_up e
                          | Some (Inr st') \<Rightarrow>
                              Some (Inr \<lparr>bl_batch = batch, bl_reservation = Some needed\<rparr>, st'))
                       else Some (Inr \<lparr>bl_batch = batch, bl_reservation = Some retained\<rparr>, st))))"

subsection \<open>What the sections do\<close>

lemma checked_charge_from_sum:
  "acc \<le> usize_max \<Longrightarrow>
   checked_charge_from acc sizes =
     (if acc + sum_list sizes \<le> usize_max then Inr (acc + sum_list sizes) else Inl ByteChargeOverflow)"
  by (induction sizes arbitrary: acc) (auto simp: arith_guards split: option.split)

lemma checked_charge_sum:
  "checked_charge sizes =
     (if sum_list sizes \<le> usize_max then Inr (sum_list sizes) else Inl ByteChargeOverflow)"
  by (simp add: checked_charge_def checked_charge_from_sum)

definition total_reserved :: "reservation list \<Rightarrow> nat" where
  "total_reserved rs = sum_list (map reserved rs)"

lemma total_reserved_simps [simp]:
  "total_reserved [] = 0"
  "total_reserved (r # rs) = reserved r + total_reserved rs"
  "total_reserved (rs @ ss) = total_reserved rs + total_reserved ss"
  by (simp_all add: total_reserved_def)

lemma queue_reservations_simps [simp]:
  "queue_reservations [] = []"
  "queue_reservations (m # q) = message_reservations m @ queue_reservations q"
  "queue_reservations (q @ p) = queue_reservations q @ queue_reservations p"
  by (simp_all add: queue_reservations_def)

text \<open>Within the budget every section runs without arithmetic panics.\<close>

lemma try_admit_cases:
  assumes "st_bytes st \<le> ct_limit ctl" and "ct_limit ctl \<le> usize_max"
  shows "try_admit ctl m n st =
    (if st_cancelled st \<or> \<not> st_receiver_alive st then Some (Return (Inl Cancelled), st)
     else if count_available ctl st \<and> st_bytes st + n \<le> ct_limit ctl then
       Some (Return (Inr ()),
         st\<lparr>st_bytes := st_bytes st + n, st_peak := max (st_peak st) (st_bytes st + n),
            st_queue := st_queue st @ [m]\<rparr>)
     else Some (Wait, st))"
  using assms by (auto simp: try_admit_def plain_sub_def plain_add_def)

lemma release_within:
  "reserved r \<le> st_bytes st \<Longrightarrow> release r st = Some (st\<lparr>st_bytes := st_bytes st - reserved r\<rparr>)"
  by (cases r) (simp_all add: release_def plain_sub_def)

lemma grow_within:
  assumes "st_bytes st \<le> ct_limit ctl" "ct_limit ctl \<le> usize_max" "retained \<le> st_bytes st" "retained < needed"
  shows "grow ctl retained needed st =
    (if ct_limit ctl < st_bytes st + (needed - retained)
     then Some (Inl (BatchGrowthExceedsBudget needed (retained + (ct_limit ctl - st_bytes st))))
     else Some (Inr (st\<lparr>st_bytes := st_bytes st + (needed - retained),
            st_peak := max (st_peak st) (st_bytes st + (needed - retained))\<rparr>)))"
  using assms by (auto simp: grow_def plain_sub_def plain_add_def)

text \<open>
  A charge is the exact sum of the column sizes, and is refused as an overflow exactly
  when the sum leaves \<open>usize\<close>; a batch is admitted to waiting exactly when its charge fits
  the whole budget, whatever is queued.
\<close>

theorem send_charge_exact:
  "send_charge sizes ctl (Inr batch) =
     (let n = sum_list (sizes batch)
      in if usize_max < n then Inl ByteChargeOverflow
         else if ct_limit ctl < n then Inl (BatchTooLarge n (ct_limit ctl))
         else Inr n) \<and>
   send_charge sizes ctl (Inl e) = Inr 0"
  by (simp add: send_charge_def charge_def checked_charge_sum Let_def)

text \<open>
  A transformation keeps the books: whatever the callback does (fail, shrink, grow
  within the budget or beyond it), the bytes accounted to others are untouched, the lease
  that comes back reserves what is accounted for it, and a failed one reserves nothing.
\<close>

theorem transform_keeps_accounts:
  assumes "st_bytes st \<le> ct_limit ctl" and "ct_limit ctl \<le> usize_max"
    and "reserved (bl_reservation lease) \<le> st_bytes st"
  shows "\<exists>result st'. transform sizes ctl f lease st = Some (result, st') \<and>
    st_bytes st' \<le> ct_limit ctl \<and> st_queue st' = st_queue st \<and>
    st_bytes st - reserved (bl_reservation lease) =
      st_bytes st' - (case result of Inl _ \<Rightarrow> 0 | Inr lease' \<Rightarrow> reserved (bl_reservation lease')) \<and>
    (\<forall>lease'. result = Inr lease' \<longrightarrow>
       f (bl_batch lease) = Inr (bl_batch lease') \<and>
       reserved (bl_reservation lease') \<le> st_bytes st' \<and>
       (bl_reservation lease \<noteq> None \<longrightarrow>
          sum_list (sizes (bl_batch lease')) \<le> reserved (bl_reservation lease')))"
proof -
  have drop: "release (bl_reservation lease) st =
      Some (st\<lparr>st_bytes := st_bytes st - reserved (bl_reservation lease)\<rparr>)"
    using assms(3) by (rule release_within)
  show ?thesis
  proof (cases "bl_reservation lease")
    case None
    with assms drop show ?thesis by (cases "f (bl_batch lease)") (auto simp: transform_def)
  next
    case (Some n)
    with assms drop grow_within [OF assms(1,2), of n] show ?thesis
      by (cases "f (bl_batch lease)")
        (auto simp: transform_def charge_def checked_charge_sum)
  qed
qed

lemma transform_keeps_accounts_witness:
  "\<exists>result st'. transform (\<lambda>b. [b]) \<lparr>ct_capacity = 1, ct_limit = 10\<rparr> (\<lambda>b. Inr (b + 5))
     \<lparr>bl_batch = 3, bl_reservation = Some 3\<rparr> (channel_state\<lparr>st_bytes := 4\<rparr>) = Some (result, st') \<and>
   st_bytes st' \<le> 10"
  using transform_keeps_accounts [of "channel_state\<lparr>st_bytes := 4\<rparr>" "\<lparr>ct_capacity = 1, ct_limit = 10\<rparr>"
      "\<lparr>bl_batch = 3, bl_reservation = Some 3\<rparr>" "\<lambda>b. [b]" "\<lambda>b. Inr (b + 5)"]
  by (auto simp: usize_max_def)

end
