(* ===== verification/TransportSystem.thy ===== *)
theory TransportSystem
  imports Transport StepInvariant "HOL-Library.Sublist"
begin

text \<open>
  The budgeted channel in use: one sender thread, one receiver thread, any number of
  cancellations and the destruction of leases, interleaved at the critical sections of
  \<open>Transport\<close>.  A thread inside \<open>Condvar::wait\<close> is parked; \<open>notify_all\<close> unparks both, and
  a parked thread may also wake spuriously.  The logs (\<open>sy_offered\<close>, \<open>sy_accepted\<close>,
  \<open>sy_delivered\<close>, \<open>sy_acked\<close>, \<open>sy_closed\<close>) are ghosts that no step reads.
\<close>

subsection \<open>Threads and steps\<close>

text \<open>
  A \<open>send\<close> whose charge is refused before the lock touches nothing, so it is no step; a
  failed transformation drops its lease (\<open>drop_held\<close>), a successful one grows it.
\<close>

datatype 'b sender_pc = SIdle | SAdmit "'b message" nat | SAck | SGone
datatype receiver_pc = RIdle | RWait | RGone

record 'b system =
  sy_state :: "'b transport_state"
  sy_sender :: "'b sender_pc"
  sy_sender_parked :: bool
  sy_receiver :: receiver_pc
  sy_receiver_parked :: bool
  sy_held :: "reservation list"
  sy_taken :: "reservation list"
  sy_offered :: "'b message list"
  sy_accepted :: "'b message list"
  sy_delivered :: "'b message list"
  sy_acked :: nat
  sy_closed :: bool

definition channel :: "'b system" where
  "channel = \<lparr>sy_state = channel_state, sy_sender = SIdle, sy_sender_parked = False,
     sy_receiver = RIdle, sy_receiver_parked = False, sy_held = [], sy_taken = [],
     sy_offered = [], sy_accepted = [], sy_delivered = [], sy_acked = 0, sy_closed = False\<rparr>"

definition wake :: "'b system \<Rightarrow> 'b system" where
  "wake s = s\<lparr>sy_sender_parked := False, sy_receiver_parked := False\<rparr>"

text \<open>The end of \<open>send\<close>: wait for the acknowledgment or return.\<close>

definition finish_send :: "control \<Rightarrow> 'b system \<Rightarrow> 'b system" where
  "finish_send ctl s =
     (case await_ack ctl (sy_state s) of
        Wait \<Rightarrow> s\<lparr>sy_sender := SAck, sy_sender_parked := True\<rparr>
      | Return (Inl _) \<Rightarrow> s\<lparr>sy_sender := SIdle\<rparr>
      | Return (Inr _) \<Rightarrow> s\<lparr>sy_sender := SIdle, sy_acked := Suc (sy_acked s)\<rparr>)"

definition take_message :: "'b transport_state \<Rightarrow> 'b system \<Rightarrow> 'b system" where
  "take_message st s =
     (let m = hd (st_queue (sy_state s))
      in wake (s\<lparr>sy_state := st, sy_receiver := RIdle,
           sy_held := sy_held s @ message_reservations m, sy_delivered := sy_delivered s @ [m]\<rparr>))"

definition after_release :: "reservation \<Rightarrow> 'b system \<Rightarrow> 'b system" where
  "after_release r s = (case r of None \<Rightarrow> s | Some _ \<Rightarrow> wake s)"

inductive step ::
  "('b \<Rightarrow> nat list) \<Rightarrow> control \<Rightarrow> 'b system \<Rightarrow> 'b system \<Rightarrow> bool" for sizes ctl where
  send_begin: "sy_sender s = SIdle \<Longrightarrow> send_charge sizes ctl item = Inr n \<Longrightarrow>
    step sizes ctl s (s\<lparr>sy_sender := SAdmit (message_of n item) n,
      sy_offered := sy_offered s @ [message_of n item]\<rparr>)"
| send_wait: "sy_sender s = SAdmit m n \<Longrightarrow> \<not> sy_sender_parked s \<Longrightarrow>
    try_admit ctl m n (sy_state s) = Some (Wait, st) \<Longrightarrow>
    step sizes ctl s (s\<lparr>sy_state := st, sy_sender_parked := True\<rparr>)"
| send_refused: "sy_sender s = SAdmit m n \<Longrightarrow> \<not> sy_sender_parked s \<Longrightarrow>
    try_admit ctl m n (sy_state s) = Some (Return (Inl e), st) \<Longrightarrow>
    step sizes ctl s (s\<lparr>sy_state := st, sy_sender := SIdle\<rparr>)"
| send_push: "sy_sender s = SAdmit m n \<Longrightarrow> \<not> sy_sender_parked s \<Longrightarrow>
    try_admit ctl m n (sy_state s) = Some (Return (Inr u), st) \<Longrightarrow>
    step sizes ctl s
      (finish_send ctl (wake (s\<lparr>sy_state := st, sy_accepted := sy_accepted s @ [m]\<rparr>)))"
| send_ack: "sy_sender s = SAck \<Longrightarrow> \<not> sy_sender_parked s \<Longrightarrow> step sizes ctl s (finish_send ctl s)"
| sender_drop: "sy_sender s = SIdle \<Longrightarrow>
    step sizes ctl s (wake (s\<lparr>sy_sender := SGone, sy_state := drop_sender (sy_state s)\<rparr>))"
| recv_begin: "sy_receiver s = RIdle \<Longrightarrow> step sizes ctl s (s\<lparr>sy_receiver := RWait\<rparr>)"
| recv_wait: "sy_receiver s = RWait \<Longrightarrow> \<not> sy_receiver_parked s \<Longrightarrow>
    try_recv (sy_state s) = (Wait, st) \<Longrightarrow>
    step sizes ctl s ((wake (s\<lparr>sy_state := st\<rparr>))\<lparr>sy_receiver_parked := True\<rparr>)"
| recv_message: "sy_receiver s = RWait \<Longrightarrow> \<not> sy_receiver_parked s \<Longrightarrow>
    try_recv (sy_state s) = (Return r, st) \<Longrightarrow> r \<noteq> Inl Cancelled \<Longrightarrow> r \<noteq> Inr None \<Longrightarrow>
    step sizes ctl s (take_message st s)"
| recv_cancelled: "sy_receiver s = RWait \<Longrightarrow> \<not> sy_receiver_parked s \<Longrightarrow>
    try_recv (sy_state s) = (Return (Inl Cancelled), st) \<Longrightarrow>
    step sizes ctl s (s\<lparr>sy_state := st, sy_receiver := RIdle\<rparr>)"
| recv_closed: "sy_receiver s = RWait \<Longrightarrow> \<not> sy_receiver_parked s \<Longrightarrow>
    try_recv (sy_state s) = (Return (Inr None), st) \<Longrightarrow>
    step sizes ctl s (s\<lparr>sy_state := st, sy_receiver := RIdle, sy_closed := True\<rparr>)"
| receiver_drop: "sy_receiver s = RIdle \<Longrightarrow> drop_receiver (sy_state s) = (rs, st) \<Longrightarrow>
    step sizes ctl s (wake (s\<lparr>sy_receiver := RGone, sy_state := st, sy_taken := sy_taken s @ rs\<rparr>))"
| cancelling: "cancel (sy_state s) = (rs, st) \<Longrightarrow>
    step sizes ctl s (wake (s\<lparr>sy_state := st, sy_taken := sy_taken s @ rs\<rparr>))"
| drop_taken: "sy_taken s = xs @ r # ys \<Longrightarrow> release r (sy_state s) = Some st \<Longrightarrow>
    step sizes ctl s (after_release r (s\<lparr>sy_state := st, sy_taken := xs @ ys\<rparr>))"
| drop_held: "sy_held s = xs @ r # ys \<Longrightarrow> release r (sy_state s) = Some st \<Longrightarrow>
    step sizes ctl s (after_release r (s\<lparr>sy_state := st, sy_held := xs @ ys\<rparr>))"
| grow_held: "sy_held s = xs @ Some retained # ys \<Longrightarrow> retained < needed \<Longrightarrow>
    grow ctl retained needed (sy_state s) = Some (Inr st) \<Longrightarrow>
    step sizes ctl s (s\<lparr>sy_state := st, sy_held := xs @ Some needed # ys\<rparr>)"
| spurious_sender: "step sizes ctl s (s\<lparr>sy_sender_parked := False\<rparr>)"
| spurious_receiver: "step sizes ctl s (s\<lparr>sy_receiver_parked := False\<rparr>)"

text \<open>
  \<open>recv_message\<close> also covers a message that carries the cancelled error: messages carry
  \<open>PipelineIoError\<close>s, which \<open>recv\<close> wraps in \<open>Io\<close>, so the two never meet.
\<close>

lemma try_recv_simps:
  "try_recv st = (Wait, st') \<longleftrightarrow>
     \<not> st_cancelled st \<and> st_queue st = [] \<and> st_sender_alive st \<and> st' = st\<lparr>st_receiver_waiting := True\<rparr>"
  "try_recv st = (Return (Inl Cancelled), st') \<longleftrightarrow> st_cancelled st \<and> st' = st"
  "try_recv st = (Return (Inr None), st') \<longleftrightarrow>
     \<not> st_cancelled st \<and> st_queue st = [] \<and> \<not> st_sender_alive st \<and> st' = st"
  by (auto simp: try_recv_def split: list.split sum.split if_splits)

lemma try_recv_message:
  assumes "try_recv st = (Return r, st')" and "r \<noteq> Inl Cancelled" and "r \<noteq> Inr None"
  obtains m q where "\<not> st_cancelled st" and "st_queue st = m # q"
    and "st' = st\<lparr>st_queue := q, st_receiver_waiting := False\<rparr>"
  using assms by (auto simp: try_recv_def split: list.splits sum.splits if_splits)

text \<open>Only the first message can carry the closing or the cancelled verdict.\<close>

lemma wake_simps [simp]:
  "sy_state (wake s) = sy_state s" "sy_sender (wake s) = sy_sender s"
  "sy_receiver (wake s) = sy_receiver s" "sy_held (wake s) = sy_held s"
  "sy_taken (wake s) = sy_taken s" "sy_offered (wake s) = sy_offered s" "sy_accepted (wake s) = sy_accepted s"
  "sy_delivered (wake s) = sy_delivered s" "sy_acked (wake s) = sy_acked s"
  "sy_closed (wake s) = sy_closed s"
  "sy_sender_parked (wake s) = False" "sy_receiver_parked (wake s) = False"
  by (simp_all add: wake_def)

lemma after_release_simps [simp]:
  "sy_state (after_release r s) = sy_state s" "sy_sender (after_release r s) = sy_sender s"
  "sy_receiver (after_release r s) = sy_receiver s" "sy_held (after_release r s) = sy_held s"
  "sy_taken (after_release r s) = sy_taken s" "sy_offered (after_release r s) = sy_offered s" "sy_accepted (after_release r s) = sy_accepted s"
  "sy_delivered (after_release r s) = sy_delivered s" "sy_acked (after_release r s) = sy_acked s"
  "sy_closed (after_release r s) = sy_closed s"
  "sy_sender_parked (after_release r s) = (r = None \<and> sy_sender_parked s)"
  "sy_receiver_parked (after_release r s) = (r = None \<and> sy_receiver_parked s)"
  by (auto simp: after_release_def split: option.split)

lemma finish_send_if:
  "finish_send ctl s =
     (if ct_capacity ctl = 0 \<and> st_queue (sy_state s) \<noteq> [] \<and>
         \<not> st_cancelled (sy_state s) \<and> st_receiver_alive (sy_state s)
      then s\<lparr>sy_sender := SAck, sy_sender_parked := True\<rparr>
      else if st_cancelled (sy_state s) \<or> \<not> st_receiver_alive (sy_state s)
      then s\<lparr>sy_sender := SIdle\<rparr>
      else s\<lparr>sy_sender := SIdle, sy_acked := Suc (sy_acked s)\<rparr>)"
  by (simp add: finish_send_def await_ack_def)

subsection \<open>Accounting\<close>

text \<open>
  The books: the admitted bytes are exactly the reservations of the queued messages, of the
  leases the consumer holds and of those about to be destroyed, and never exceed the budget.
\<close>

definition accounted :: "control \<Rightarrow> 'b system \<Rightarrow> bool" where
  "accounted ctl s \<longleftrightarrow>
     st_bytes (sy_state s) =
       total_reserved (queue_reservations (st_queue (sy_state s)) @ sy_held s @ sy_taken s) \<and>
     st_bytes (sy_state s) \<le> st_peak (sy_state s) \<and> st_peak (sy_state s) \<le> ct_limit ctl \<and>
     (\<forall>m n. sy_sender s = SAdmit m n \<longrightarrow> total_reserved (message_reservations m) = n \<and> n \<le> ct_limit ctl)"

lemma message_of_reserves:
  assumes "send_charge sizes ctl item = Inr n"
  shows "total_reserved (message_reservations (message_of n item)) = n" and "n \<le> ct_limit ctl"
  using assms by (cases item; auto simp: send_charge_def message_of_def and_then_eq_Inr split: if_splits)+

lemma accounted_step:
  assumes "accounted ctl s" and "step sizes ctl s s'" and "ct_limit ctl \<le> usize_max"
  shows "accounted ctl s'"
proof -
  have within: "st_bytes (sy_state s) \<le> ct_limit ctl"
    using assms(1) by (auto simp: accounted_def)
  note admit = try_admit_cases [OF within assms(3)]
  note growing = grow_within [OF within assms(3)]
  from assms(2) show ?thesis
  proof cases
    case (send_begin item n)
    then show ?thesis using assms(1) message_of_reserves [of sizes ctl item n] by (auto simp: accounted_def)
  next
    case (recv_message r st)
    then show ?thesis
      using assms(1) by (auto simp: accounted_def take_message_def elim!: try_recv_message)
  next
    case (drop_taken xs r ys st)
    then show ?thesis
      using assms(1) release_within [of r "sy_state s"] by (auto simp: accounted_def)
  next
    case (drop_held xs r ys st)
    then show ?thesis
      using assms(1) release_within [of r "sy_state s"] by (auto simp: accounted_def)
  next
    case (grow_held xs retained ys needed st)
    then show ?thesis
      using assms(1) growing [of retained needed] by (auto simp: accounted_def split: if_splits)
  qed (use assms(1) in \<open>auto simp: accounted_def admit finish_send_if try_recv_simps drop_sender_def
         drop_receiver_def cancel_def split: if_splits\<close>)
qed

subsection \<open>Delivery\<close>

text \<open>
  What was accepted has been delivered, is queued, or was discarded by a cancellation or
  with the receiver; nothing is accepted after that, nor after the sender is gone.
\<close>

definition live :: "'b system \<Rightarrow> bool" where
  "live s \<longleftrightarrow> \<not> st_cancelled (sy_state s) \<and> st_receiver_alive (sy_state s)"

definition delivering :: "control \<Rightarrow> 'b system \<Rightarrow> bool" where
  "delivering ctl s \<longleftrightarrow>
     prefix (sy_delivered s @ st_queue (sy_state s)) (sy_accepted s) \<and>
     (live s \<longrightarrow> sy_accepted s = sy_delivered s @ st_queue (sy_state s)) \<and>
     (\<not> live s \<longrightarrow> st_queue (sy_state s) = []) \<and>
     length (st_queue (sy_state s)) \<le> max 1 (ct_capacity ctl) \<and>
     (st_sender_alive (sy_state s) \<longleftrightarrow> sy_sender s \<noteq> SGone) \<and>
     (st_receiver_alive (sy_state s) \<longleftrightarrow> sy_receiver s \<noteq> RGone) \<and>
     (sy_sender s = SAck \<longrightarrow> ct_capacity ctl = 0 \<and> sy_acked s < length (sy_accepted s)) \<and>
     (ct_capacity ctl = 0 \<and> st_queue (sy_state s) \<noteq> [] \<longrightarrow> sy_sender s = SAck) \<and>
     sy_acked s \<le> length (sy_accepted s) \<and>
     (ct_capacity ctl = 0 \<longrightarrow> sy_acked s \<le> length (sy_delivered s)) \<and>
     (sy_closed s \<longrightarrow> sy_sender s = SGone \<and> sy_accepted s = sy_delivered s)"

lemma try_admit_results:
  assumes "try_admit ctl m n st = Some (r, st')"
  shows "r = Wait \<Longrightarrow> st' = st"
    and "r = Return (Inl e) \<Longrightarrow> st' = st \<and> e = Cancelled \<and> (st_cancelled st \<or> \<not> st_receiver_alive st)"
    and "r = Return (Inr u) \<Longrightarrow> \<not> st_cancelled st \<and> st_receiver_alive st \<and> count_available ctl st \<and>
      (\<exists>b p. st' = st\<lparr>st_bytes := b, st_peak := p, st_queue := st_queue st @ [m]\<rparr>)"
  using assms by (auto simp: try_admit_def split: if_splits option.splits)

lemma release_state: "release r st = Some st' \<Longrightarrow> \<exists>b. st' = st\<lparr>st_bytes := b\<rparr>"
  by (auto simp: release_def split: option.splits) (metis transport_state.surjective transport_state.update_convs(2))

lemma grow_state: "grow ctl a b st = Some (Inr st') \<Longrightarrow> \<exists>x y. st' = st\<lparr>st_bytes := x, st_peak := y\<rparr>"
  by (auto simp: grow_def split: option.splits if_splits)

lemma grow_peak: "grow ctl a b st = Some (Inr st') \<Longrightarrow> st_peak st \<le> st_peak st'"
  by (auto simp: grow_def split: option.splits if_splits)

lemma admit_peak: "try_admit ctl m n st = Some (r, st') \<Longrightarrow> st_peak st \<le> st_peak st'"
  by (auto simp: try_admit_def split: option.splits if_splits)

lemma delivering_push:
  assumes "delivering ctl s" and "sy_sender s = SAdmit m n" and "live s" and "count_available ctl (sy_state s)"
  shows "delivering ctl (finish_send ctl (wake (s\<lparr>sy_state := (sy_state s)\<lparr>st_bytes := b, st_peak := p,
      st_queue := st_queue (sy_state s) @ [m]\<rparr>, sy_accepted := sy_accepted s @ [m]\<rparr>)))"
  using assms
  by (auto simp: delivering_def live_def finish_send_if count_available_def split: if_splits)

lemma delivering_ack:
  assumes "delivering ctl s" and "sy_sender s = SAck"
  shows "delivering ctl (finish_send ctl s)"
  using assms by (auto simp: delivering_def live_def finish_send_if)

lemma delivering_take:
  assumes "delivering ctl s" and "live s" and "sy_receiver s = RWait" and "st_queue (sy_state s) = m # q"
  shows "delivering ctl (take_message ((sy_state s)\<lparr>st_queue := q, st_receiver_waiting := False\<rparr>) s)"
proof -
  have log: "sy_accepted s = sy_delivered s @ m # q" and len: "length q < max 1 (ct_capacity ctl)"
    using assms by (simp_all add: delivering_def)
  have "ct_capacity ctl = 0 \<Longrightarrow> q = []" using len by simp
  then show ?thesis
    using assms log len by (auto simp: delivering_def live_def take_message_def)
qed

lemma delivered_prefix: "delivering ctl s \<Longrightarrow> prefix (sy_delivered s) (sy_accepted s)"
  unfolding delivering_def using append_prefixD by blast

lemma delivering_step:
  assumes "delivering ctl s" and "step sizes ctl s s'"
  shows "delivering ctl s'"
  using assms(2)
proof cases
  case (send_begin item n)
  then show ?thesis using assms(1) by (auto simp: delivering_def live_def)
next
  case (send_wait m n st)
  then show ?thesis
    using assms(1) try_admit_results(1) [OF send_wait(4)] by (simp add: delivering_def live_def)
next
  case (send_refused m n e st)
  then show ?thesis
    using assms(1) try_admit_results(2) [OF send_refused(4)] by (auto simp: delivering_def live_def)
next
  case (send_push m n u st)
  then show ?thesis
    using try_admit_results(3) [OF send_push(4)] delivering_push [OF assms(1) send_push(2)]
    by (auto simp: live_def)
next
  case send_ack
  then show ?thesis using delivering_ack [OF assms(1)] by simp
next
  case (recv_message r st)
  obtain m q where pop: "\<not> st_cancelled (sy_state s)" "st_queue (sy_state s) = m # q"
      "st = (sy_state s)\<lparr>st_queue := q, st_receiver_waiting := False\<rparr>"
    using try_recv_message [OF recv_message(4-6)] .
  then have "live s" using assms(1) by (auto simp: delivering_def)
  then show ?thesis using delivering_take [OF assms(1) _ recv_message(2) pop(2)] pop(3) recv_message(1) by simp
next
  case (receiver_drop rs st)
  then have "st = (sy_state s)\<lparr>st_receiver_alive := False, st_receiver_waiting := False, st_queue := []\<rparr>"
    by (simp add: drop_receiver_def)
  with receiver_drop(1,2) assms(1) delivered_prefix [OF assms(1)] show ?thesis
    by (simp add: delivering_def live_def)
next
  case (cancelling rs st)
  then have "st = (sy_state s)\<lparr>st_cancelled := True, st_queue := []\<rparr>" by (simp add: cancel_def)
  with cancelling(1) assms(1) delivered_prefix [OF assms(1)] show ?thesis
    by (simp add: delivering_def live_def)
next
  case (drop_taken xs r ys st)
  obtain b where "st = (sy_state s)\<lparr>st_bytes := b\<rparr>" using release_state [OF drop_taken(3)] ..
  with drop_taken(1) assms(1) show ?thesis by (simp add: delivering_def live_def)
next
  case (drop_held xs r ys st)
  obtain b where "st = (sy_state s)\<lparr>st_bytes := b\<rparr>" using release_state [OF drop_held(3)] ..
  with drop_held(1) assms(1) show ?thesis by (simp add: delivering_def live_def)
next
  case (grow_held xs retained ys needed st)
  obtain x y where "st = (sy_state s)\<lparr>st_bytes := x, st_peak := y\<rparr>" using grow_state [OF grow_held(4)] by blast
  with grow_held(1) assms(1) show ?thesis by (simp add: delivering_def live_def)
next
  case (recv_closed st)
  then have "st = sy_state s" "st_queue (sy_state s) = []" "live s" "sy_sender s = SGone"
      "sy_accepted s = sy_delivered s"
    using assms(1) by (auto simp: try_recv_simps delivering_def live_def)
  with recv_closed(1) assms(1) show ?thesis by (simp add: delivering_def live_def)
qed (use assms(1) in \<open>auto simp: delivering_def live_def try_recv_simps drop_sender_def\<close>)

subsection \<open>Waiting\<close>

text \<open>
  A parked thread still has to wait: the condition it went to sleep on holds in the
  current state, so no notification was lost.
\<close>

definition sender_must_wait :: "control \<Rightarrow> 'b system \<Rightarrow> bool" where
  "sender_must_wait ctl s \<longleftrightarrow> live s \<and>
     (case sy_sender s of
        SAdmit m n \<Rightarrow> \<not> (count_available ctl (sy_state s) \<and> st_bytes (sy_state s) + n \<le> ct_limit ctl)
      | SAck \<Rightarrow> ct_capacity ctl = 0 \<and> st_queue (sy_state s) \<noteq> []
      | _ \<Rightarrow> False)"

definition receiver_must_wait :: "'b system \<Rightarrow> bool" where
  "receiver_must_wait s \<longleftrightarrow> sy_receiver s = RWait \<and> \<not> st_cancelled (sy_state s) \<and>
     st_queue (sy_state s) = [] \<and> st_sender_alive (sy_state s) \<and> st_receiver_waiting (sy_state s)"

definition waits_justified :: "control \<Rightarrow> 'b system \<Rightarrow> bool" where
  "waits_justified ctl s \<longleftrightarrow>
     (sy_sender_parked s \<longrightarrow> sender_must_wait ctl s) \<and>
     (sy_receiver_parked s \<longrightarrow> receiver_must_wait s)"

lemma count_available_bytes [simp]:
  "count_available ctl (st\<lparr>st_bytes := b\<rparr>) = count_available ctl st"
  "count_available ctl (st\<lparr>st_peak := b\<rparr>) = count_available ctl st"
  by (simp_all add: count_available_def)

lemmas waiting_defs = waits_justified_def sender_must_wait_def receiver_must_wait_def live_def

lemma waits_justified_step:
  assumes "accounted ctl s \<and> delivering ctl s" and "waits_justified ctl s" and "step sizes ctl s s'"
    and "ct_limit ctl \<le> usize_max"
  shows "waits_justified ctl s'"
proof -
  have within: "st_bytes (sy_state s) \<le> ct_limit ctl"
    using assms(1) by (auto simp: accounted_def)
  note admit = try_admit_cases [OF within assms(4)]
  from assms(3) show ?thesis
  proof cases
    case (send_begin item n)
    with assms(2) show ?thesis by (simp add: waiting_defs)
  next
    case (send_wait m n st)
    with assms(2) show ?thesis by (simp add: waiting_defs admit split: if_splits)
  next
    case (send_refused m n e st)
    with assms(2) show ?thesis by (simp add: waiting_defs admit split: if_splits)
  next
    case (send_push m n u st)
    then show ?thesis by (simp add: waiting_defs finish_send_if)
  next
    case send_ack
    with assms(2) show ?thesis by (auto simp: waiting_defs finish_send_if)
  next
    case (recv_wait st)
    then show ?thesis by (simp add: waiting_defs try_recv_simps)
  next
    case (recv_message r st)
    then show ?thesis by (simp add: waiting_defs take_message_def Let_def)
  next
    case (recv_cancelled st)
    with assms(2) show ?thesis by (auto simp: waiting_defs try_recv_simps split: sender_pc.splits)
  next
    case (recv_closed st)
    with assms(2) show ?thesis by (auto simp: waiting_defs try_recv_simps split: sender_pc.splits)
  next
    case (drop_taken xs r ys st)
    with assms(2) show ?thesis by (cases r) (auto simp: waiting_defs release_def split: sender_pc.splits)
  next
    case (drop_held xs r ys st)
    with assms(2) show ?thesis by (cases r) (auto simp: waiting_defs release_def split: sender_pc.splits)
  next
    case (grow_held xs retained ys needed st)
    have "retained \<le> st_bytes (sy_state s)" using assms(1) grow_held(2) by (simp add: accounted_def)
    with grow_held have "st = (sy_state s)\<lparr>st_bytes := st_bytes (sy_state s) + (needed - retained),
        st_peak := max (st_peak (sy_state s)) (st_bytes (sy_state s) + (needed - retained))\<rparr>"
      using grow_within [OF within assms(4), of retained needed] by (simp split: if_splits)
    with grow_held(1) assms(2) show ?thesis by (auto simp: waiting_defs split: sender_pc.splits)
  qed (use assms(2) in \<open>auto simp: waiting_defs split: sender_pc.splits\<close>)
qed

subsection \<open>Sending\<close>

text \<open>What is admitted was offered, in the order of the calls; a call in progress offers the last message.\<close>

definition offering :: "'b system \<Rightarrow> bool" where
  "offering s \<longleftrightarrow> subseq (sy_accepted s) (sy_offered s) \<and>
     (\<forall>m n. sy_sender s = SAdmit m n \<longrightarrow>
        (\<exists>earlier. sy_offered s = earlier @ [m] \<and> subseq (sy_accepted s) earlier))"

lemma offering_step: "step sizes ctl s s' \<Longrightarrow> offering s \<Longrightarrow> offering s'"
  by (induction rule: step.induct)
    (auto simp: offering_def finish_send_if take_message_def Let_def)

subsection \<open>The reachable states\<close>

lemma channel_accounted: "accounted ctl channel"
  by (simp add: accounted_def channel_def channel_state_def)

lemma channel_delivering: "delivering ctl channel"
  by (simp add: delivering_def channel_def channel_state_def live_def)

lemma channel_waits: "waits_justified ctl channel"
  by (simp add: waits_justified_def channel_def)

lemma channel_offering: "offering channel"
  by (simp add: offering_def channel_def)

definition usize_control :: "nat \<Rightarrow> nat \<Rightarrow> control" where
  "usize_control capacity limit = \<lparr>ct_capacity = capacity, ct_limit = min limit usize_max\<rparr>"

lemma usize_control_limit [simp]: "ct_limit (usize_control capacity limit) \<le> usize_max"
  by (simp add: usize_control_def)

lemma usize_control_id:
  "ct_limit ctl \<le> usize_max \<Longrightarrow> usize_control (ct_capacity ctl) (ct_limit ctl) = ctl"
  by (simp add: usize_control_def)

interpretation books: step_invariant "step sizes (usize_control capacity limit)" channel "\<lambda>_. True"
    "accounted (usize_control capacity limit)" for sizes capacity limit
  by unfold_locales (auto intro: channel_accounted accounted_step)

interpretation delivery: step_invariant "step sizes ctl" channel "\<lambda>_. True" "delivering ctl" for sizes ctl
  by unfold_locales (auto intro: channel_delivering delivering_step)

interpretation offers: step_invariant "step sizes ctl" channel "\<lambda>_. True" offering for sizes ctl
  by unfold_locales (auto elim: offering_step intro: channel_offering)

interpretation waiting: step_invariant "step sizes (usize_control capacity limit)" channel
    "\<lambda>s. accounted (usize_control capacity limit) s \<and> delivering (usize_control capacity limit) s"
    "waits_justified (usize_control capacity limit)" for sizes capacity limit
  by unfold_locales
    (auto intro: books.throughout delivery.throughout channel_waits waits_justified_step)

lemma reachable_accounted:
  "reachable (step sizes ctl) channel s \<Longrightarrow> ct_limit ctl \<le> usize_max \<Longrightarrow> accounted ctl s"
  using books.throughout [of sizes "ct_capacity ctl" "ct_limit ctl" s] by (simp add: usize_control_id)

lemma reachable_waits:
  "reachable (step sizes ctl) channel s \<Longrightarrow> ct_limit ctl \<le> usize_max \<Longrightarrow> waits_justified ctl s"
  using waiting.throughout [of sizes "ct_capacity ctl" "ct_limit ctl" s] by (simp add: usize_control_id)

text \<open>Neither the peak nor the logs ever shrink.\<close>

lemma step_peak: "step sizes ctl s s' \<Longrightarrow> st_peak (sy_state s) \<le> st_peak (sy_state s')"
proof (induction rule: step.induct)
  case (recv_message s r st)
  then show ?case by (auto simp: take_message_def elim!: try_recv_message)
qed (auto simp: finish_send_if try_recv_simps drop_sender_def drop_receiver_def cancel_def
      dest: release_state grow_peak admit_peak)

interpretation peak: monotone_steps "step sizes ctl" "\<lambda>s. st_peak (sy_state s)" for sizes ctl
  by unfold_locales (rule step_peak)

subsection \<open>What the channel promises\<close>

lemma within_budget:
  assumes "reachable (step sizes ctl) channel s" and "ct_limit ctl \<le> usize_max"
  shows "st_bytes (sy_state s) =
      total_reserved (queue_reservations (st_queue (sy_state s)) @ sy_held s @ sy_taken s)"
    and "st_bytes (sy_state s) \<le> st_peak (sy_state s)" and "st_peak (sy_state s) \<le> ct_limit ctl"
    and "try_admit ctl m n (sy_state s) \<noteq> None"
    and "r \<in> set (sy_held s) \<union> set (sy_taken s) \<Longrightarrow> release r (sy_state s) \<noteq> None"
    and "Some retained \<in> set (sy_held s) \<Longrightarrow> retained < needed \<Longrightarrow>
      grow ctl retained needed (sy_state s) \<noteq> None"
proof -
  have acc: "accounted ctl s" using assms by (rule reachable_accounted)
  then show "st_bytes (sy_state s) =
      total_reserved (queue_reservations (st_queue (sy_state s)) @ sy_held s @ sy_taken s)"
    and "st_bytes (sy_state s) \<le> st_peak (sy_state s)" and "st_peak (sy_state s) \<le> ct_limit ctl"
    by (simp_all add: accounted_def)
  have within: "st_bytes (sy_state s) \<le> ct_limit ctl" using acc by (auto simp: accounted_def)
  show "try_admit ctl m n (sy_state s) \<noteq> None" by (simp add: try_admit_cases [OF within assms(2)])
  have member: "reserved r \<le> st_bytes (sy_state s)" if "r \<in> set (sy_held s) \<union> set (sy_taken s)" for r
    using that acc member_le_sum_list [of "reserved r" "map reserved (sy_held s @ sy_taken s)"]
    by (auto simp: accounted_def total_reserved_def)
  show "release r (sy_state s) \<noteq> None" if "r \<in> set (sy_held s) \<union> set (sy_taken s)"
    using release_within [OF member [OF that]] by simp
  show "grow ctl retained needed (sy_state s) \<noteq> None"
    if "Some retained \<in> set (sy_held s)" "retained < needed"
    using grow_within [OF within assms(2), of retained needed] member [of "Some retained"] that by simp
qed

text \<open>
  C6. The byte budget is kept in every reachable state: the admitted bytes are exactly what
  the queued messages, the held leases and the leases being destroyed reserve, never exceed
  the recorded peak nor the limit, and no critical section ever overflows or underflows, so
  none panics.
\<close>

theorem admitted_within_budget:
  assumes "reachable (step sizes ctl) channel s" and "ct_limit ctl \<le> usize_max"
  shows "st_bytes (sy_state s) =
      total_reserved (queue_reservations (st_queue (sy_state s)) @ sy_held s @ sy_taken s) \<and>
    st_bytes (sy_state s) \<le> st_peak (sy_state s) \<and> st_peak (sy_state s) \<le> ct_limit ctl \<and>
    (\<forall>m n. try_admit ctl m n (sy_state s) \<noteq> None) \<and>
    (\<forall>r \<in> set (sy_held s) \<union> set (sy_taken s). release r (sy_state s) \<noteq> None) \<and>
    (\<forall>retained needed. Some retained \<in> set (sy_held s) \<and> retained < needed \<longrightarrow>
       grow ctl retained needed (sy_state s) \<noteq> None)"
  using within_budget [OF assms] by blast

text \<open>A run: the sender puts a batch of three bytes into the queue of a channel of capacity one.\<close>

definition sample_control :: control where
  "sample_control = \<lparr>ct_capacity = 1, ct_limit = 10\<rparr>"

definition sample_lease :: "nat message" where
  "sample_lease = Inr \<lparr>bl_batch = 3, bl_reservation = Some 3\<rparr>"

definition sample_system :: "nat system" where
  "sample_system = channel\<lparr>sy_state := channel_state\<lparr>st_bytes := 3, st_peak := 3, st_queue := [sample_lease]\<rparr>,
     sy_offered := [sample_lease], sy_accepted := [sample_lease], sy_acked := 1\<rparr>"

lemma sample_limit: "ct_limit sample_control \<le> usize_max"
  by (simp add: sample_control_def usize_max_def)

lemma sample_reachable: "reachable (step (\<lambda>b. [b]) sample_control) channel sample_system"
proof -
  let ?s = "(channel :: nat system)\<lparr>sy_sender := SAdmit sample_lease 3, sy_offered := [sample_lease]\<rparr>"
  let ?st = "channel_state\<lparr>st_bytes := 3, st_peak := 3, st_queue := [sample_lease]\<rparr>"
  have charged: "send_charge (\<lambda>b. [b]) sample_control (Inr 3) = Inr 3"
    by (simp add: send_charge_def charge_def checked_charge_sum usize_max_def sample_control_def)
  have "step (\<lambda>b. [b]) sample_control channel ?s"
    using step.send_begin [OF _ charged, of channel] by (simp add: channel_def message_of_def sample_lease_def)
  moreover have "step (\<lambda>b. [b]) sample_control ?s (finish_send sample_control
      (wake (?s\<lparr>sy_state := ?st, sy_accepted := sy_accepted ?s @ [sample_lease]\<rparr>)))"
  proof (rule step.send_push)
    show "try_admit sample_control sample_lease 3 (sy_state ?s) = Some (Return (Inr ()), ?st)"
      by (simp add: try_admit_def channel_def channel_state_def count_available_def sample_control_def
          plain_sub_def plain_add_def usize_max_def)
  qed (simp_all add: channel_def)
  moreover have "finish_send sample_control
      (wake (?s\<lparr>sy_state := ?st, sy_accepted := sy_accepted ?s @ [sample_lease]\<rparr>)) = sample_system"
    by (simp add: sample_system_def finish_send_if wake_def channel_def channel_state_def sample_control_def)
  ultimately show ?thesis by (metis reachable.intros)
qed

lemma admitted_within_budget_witness:
  "st_bytes (sy_state sample_system) = 3 \<and> st_peak (sy_state sample_system) \<le> 10"
  using admitted_within_budget [OF sample_reachable sample_limit]
  by (simp add: sample_system_def sample_control_def sample_lease_def channel_def channel_state_def)

text \<open>
  C7. Delivery: the messages received are a prefix of those admitted, in order; as long as
  nothing is cancelled and the receiver lives, the rest is still queued, at most
  \<open>max 1 capacity\<close> messages; when \<open>recv\<close> reports the end of the stream every admitted
  message has been received; and over a rendezvous channel no \<open>send\<close> returns success
  before its message was received.
\<close>

theorem delivery_in_order:
  assumes "reachable (step sizes ctl) channel s"
  shows "prefix (sy_delivered s) (sy_accepted s) \<and>
    (live s \<longrightarrow> sy_accepted s = sy_delivered s @ st_queue (sy_state s)) \<and>
    length (st_queue (sy_state s)) \<le> max 1 (ct_capacity ctl) \<and>
    (sy_closed s \<longrightarrow> sy_delivered s = sy_accepted s) \<and>
    (ct_capacity ctl = 0 \<longrightarrow> sy_acked s \<le> length (sy_delivered s))"
proof -
  have inv: "delivering ctl s" using assms by (rule delivery.throughout)
  from delivered_prefix [OF inv] inv show ?thesis by (auto simp: delivering_def)
qed

lemma delivery_in_order_witness:
  "length (st_queue (sy_state sample_system)) \<le> 1 \<and> prefix (sy_delivered sample_system) (sy_accepted sample_system)"
  using delivery_in_order [OF sample_reachable] by (simp add: sample_control_def)

text \<open>
  C3. No wakeup is lost and the channel cannot deadlock: a thread asleep in \<open>wait\<close> could
  not proceed if it woke, and once the consumer has dropped its leases the two threads are
  never both asleep.
\<close>

theorem no_deadlock:
  assumes "reachable (step sizes ctl) channel s" and "ct_limit ctl \<le> usize_max"
  shows "(sy_sender_parked s \<longrightarrow> sender_must_wait ctl s) \<and>
    (sy_receiver_parked s \<longrightarrow> receiver_must_wait s) \<and>
    (sy_held s = [] \<and> sy_taken s = [] \<longrightarrow> \<not> (sy_sender_parked s \<and> sy_receiver_parked s))"
proof -
  have acc: "accounted ctl s" and waits: "waits_justified ctl s"
    using assms by (rule reachable_accounted reachable_waits)+
  have False if none: "sy_held s = []" "sy_taken s = []" and parked: "sy_sender_parked s" "sy_receiver_parked s"
  proof -
    have r: "receiver_must_wait s" and sn: "sender_must_wait ctl s"
      using waits parked by (simp_all add: waits_justified_def)
    then obtain m n where pc: "sy_sender s = SAdmit m n"
      by (auto simp: sender_must_wait_def receiver_must_wait_def split: sender_pc.splits)
    have "st_bytes (sy_state s) = 0" and "n \<le> ct_limit ctl"
      using acc r none pc by (simp_all add: accounted_def receiver_must_wait_def)
    with r sn pc show False
      by (simp add: sender_must_wait_def receiver_must_wait_def count_available_def split: if_splits)
  qed
  with waits show ?thesis by (auto simp: waits_justified_def)
qed

lemma no_deadlock_witness: "\<not> (sy_sender_parked sample_system \<and> sy_receiver_parked sample_system)"
  using no_deadlock [OF sample_reachable sample_limit] by (simp add: sample_system_def channel_def)

text \<open>
  C19. Cancellation and the end of the receiver reach everyone: in a reachable state that is
  cancelled no thread sleeps and every pass of a send or receive in progress returns
  \<open>Cancelled\<close>; without a receiver the same holds of the sender.
\<close>

theorem cancellation_unblocks:
  assumes "reachable (step sizes ctl) channel s" and "ct_limit ctl \<le> usize_max"
  shows "(st_cancelled (sy_state s) \<longrightarrow> \<not> sy_receiver_parked s \<and>
      fst (try_recv (sy_state s)) = Return (Inl Cancelled)) \<and>
    (st_cancelled (sy_state s) \<or> \<not> st_receiver_alive (sy_state s) \<longrightarrow> \<not> sy_sender_parked s \<and>
      st_queue (sy_state s) = [] \<and> await_ack ctl (sy_state s) = Return (Inl Cancelled) \<and>
      (\<forall>m n. try_admit ctl m n (sy_state s) = Some (Return (Inl Cancelled), sy_state s)))"
  using reachable_waits [OF assms] delivery.throughout [OF assms(1)]
  by (auto simp: waiting_defs delivering_def try_recv_def await_ack_def try_admit_def)

lemma cancellation_unblocks_witness:
  "await_ack sample_control (snd (cancel (sy_state sample_system))) = Return (Inl Cancelled)"
proof -
  let ?s = "wake (sample_system\<lparr>sy_state := snd (cancel (sy_state sample_system)),
      sy_taken := sy_taken sample_system @ fst (cancel (sy_state sample_system))\<rparr>)"
  have "step (\<lambda>b. [b]) sample_control sample_system ?s" by (rule step.cancelling) simp
  then have reach: "reachable (step (\<lambda>b. [b]) sample_control) channel ?s"
    using sample_reachable by (rule reachable.further [rotated])
  have "st_cancelled (sy_state ?s)" by (simp add: cancel_def)
  with cancellation_unblocks [OF reach sample_limit] show ?thesis by simp
qed

subsection \<open>The interface of a channel\<close>

text \<open>
  What the two threads of the pipeline rely on, for this channel and for the standard
  library's: every successful \<open>send\<close> has admitted its message, the messages received are
  the first ones admitted, and the end of the stream is reported only after all of them.
\<close>

locale channel_log =
  fixes reach :: "'s \<Rightarrow> bool" and offered delivered :: "'s \<Rightarrow> 'm list"
    and acked :: "'s \<Rightarrow> nat" and closed :: "'s \<Rightarrow> bool"
  assumes in_order: "reach s \<Longrightarrow> \<exists>accepted. subseq accepted (offered s) \<and> acked s \<le> length accepted \<and>
      prefix (delivered s) accepted \<and> (closed s \<longrightarrow> delivered s = accepted)"
begin

lemma delivered_offered: "reach s \<Longrightarrow> subseq (delivered s) (offered s)"
  using in_order prefix_imp_subseq subseq_order.order_trans by blast

lemma complete:
  assumes "reach s" and "closed s" and "acked s = length (offered s)"
  shows "delivered s = offered s"
  using in_order [OF assms(1)] assms(2,3) list_emb_length subseq_same_length le_antisym by metis

lemma delivered_in_order:
  assumes "reach s" and "acked s = length (offered s)"
  shows "prefix (delivered s) (offered s)"
  using in_order [OF assms(1)] assms(2) list_emb_length subseq_same_length le_antisym by metis

end

interpretation budgeted: channel_log "reachable (step sizes ctl) channel" sy_offered sy_delivered sy_acked sy_closed
  for sizes ctl
proof
  fix s :: "'a system"
  assume reach: "reachable (step sizes ctl) channel s"
  have inv: "delivering ctl s" and off: "offering s"
    using reach by (rule delivery.throughout offers.throughout)+
  have "subseq (sy_accepted s) (sy_offered s)" using off by (simp add: offering_def)
  moreover have "sy_acked s \<le> length (sy_accepted s)" "sy_closed s \<longrightarrow> sy_delivered s = sy_accepted s"
    using inv by (auto simp: delivering_def)
  ultimately show "\<exists>accepted. subseq accepted (sy_offered s) \<and> sy_acked s \<le> length accepted \<and>
      prefix (sy_delivered s) accepted \<and> (sy_closed s \<longrightarrow> sy_delivered s = accepted)"
    using delivered_prefix [OF inv] by blast
qed

text \<open>
  C20. If the sender's calls all succeeded and the receiver was told of the end of the
  stream, it has received every message, in order; and a receiver that stops early has
  received the first ones.
\<close>

theorem stream_complete:
  assumes "reachable (step sizes ctl) channel s" and "sy_acked s = length (sy_offered s)"
  shows "prefix (sy_delivered s) (sy_offered s) \<and> (sy_closed s \<longrightarrow> sy_delivered s = sy_offered s)"
  using budgeted.complete [OF assms(1)] budgeted.delivered_in_order [OF assms] assms(2) by blast

lemma stream_complete_witness: "prefix (sy_delivered sample_system) (sy_offered sample_system)"
  using stream_complete [OF sample_reachable] by (simp add: sample_system_def)

text \<open>
  The budget is returned: once the receiver is gone and every lease has been dropped
  the counters the report reads are zero admitted bytes and a peak within the limit.
\<close>

theorem budget_returned:
  assumes "reachable (step sizes ctl) channel s" and "ct_limit ctl \<le> usize_max"
    and "sy_receiver s = RGone" and "sy_held s = []" and "sy_taken s = []"
  shows "\<exists>peak \<le> ct_limit ctl. metrics (sy_state s) = (0, peak)"
proof -
  have "st_queue (sy_state s) = []"
    using delivery.throughout [OF assms(1)] assms(3) by (auto simp: delivering_def live_def)
  with reachable_accounted [OF assms(1,2)] assms(4,5) show ?thesis
    by (auto simp: metrics_def accounted_def)
qed

lemma budget_returned_witness:
  "\<exists>s. reachable (step (\<lambda>b :: nat. [b]) sample_control) channel s \<and> fst (metrics (sy_state s)) = 0 \<and>
     sy_receiver s = RGone"
proof -
  let ?s = "wake ((channel :: nat system)\<lparr>sy_receiver := RGone, sy_state := snd (drop_receiver channel_state),
      sy_taken := []\<rparr>)"
  have "step (\<lambda>b. [b]) sample_control channel ?s"
    using step.receiver_drop [of "channel :: nat system" "[]" "snd (drop_receiver channel_state)"]
    by (simp add: channel_def drop_receiver_def channel_state_def)
  then have reach: "reachable (step (\<lambda>b. [b]) sample_control) channel ?s"
    by (metis reachable.intros)
  have "sy_receiver ?s = RGone" "sy_held ?s = []" "sy_taken ?s = []" by (simp_all add: channel_def)
  from budget_returned [OF reach sample_limit this] reach show ?thesis
    by (intro exI [of _ ?s]) (auto simp: channel_def)
qed

end
