(* ===== verification/CancellationToken.thy ===== *)
theory CancellationToken
  imports StepInvariant
begin

text \<open>
  \<open>CancellationToken\<close> (\<open>pipeline/src/bounded.rs\<close>): an atomic flag and a registry of weak
  references to transports.  \<open>cancel\<close> and \<open>register\<close> take no common lock, so they are step
  systems here: any number of threads call \<open>cancel\<close>, any number of transports register, in
  any interleaving.  A transport is a number; \<open>tk_alive\<close> says whether a weak reference to
  it still upgrades, \<open>tk_stopped\<close> whether its \<open>Control::cancel\<close> has run.
\<close>

subsection \<open>The token and the threads that use it\<close>

datatype canceller = NotCalled | Flagged | Visiting "nat list" | CancelReturned
datatype registrar = Unregistered | Pushed | StoppingItself | Registered

record token =
  tk_cancelled :: bool
  tk_transports :: "nat list"

definition token_new :: token where
  "token_new = \<lparr>tk_cancelled = False, tk_transports = []\<rparr>"

definition is_cancelled :: "token \<Rightarrow> bool" where
  "is_cancelled tk = tk_cancelled tk"

text \<open>
  The atomic actions of \<open>cancel\<close>, \<open>set_flag\<close> and \<open>drain_registry\<close> (the upgraded transports and the token
  left behind), and of \<open>register\<close>.
\<close>

definition set_flag :: "token \<Rightarrow> token" where
  "set_flag tk = tk\<lparr>tk_cancelled := True\<rparr>"

definition drain_registry :: "(nat \<Rightarrow> bool) \<Rightarrow> token \<Rightarrow> nat list \<times> token" where
  "drain_registry alive tk = (filter alive (tk_transports tk), tk\<lparr>tk_transports := []\<rparr>)"

definition push_registry :: "(nat \<Rightarrow> bool) \<Rightarrow> nat \<Rightarrow> token \<Rightarrow> token" where
  "push_registry alive c tk = tk\<lparr>tk_transports := filter alive (tk_transports tk) @ [c]\<rparr>"

record token_system =
  tk_token :: token
  tk_alive :: "nat \<Rightarrow> bool"
  tk_stopped :: "nat \<Rightarrow> bool"
  tk_cancellers :: "nat \<Rightarrow> canceller"
  tk_registrars :: "nat \<Rightarrow> registrar"

definition fresh_token :: token_system where
  "fresh_token = \<lparr>tk_token = token_new, tk_alive = (\<lambda>_. True), tk_stopped = (\<lambda>_. False),
     tk_cancellers = (\<lambda>_. NotCalled), tk_registrars = (\<lambda>_. Unregistered)\<rparr>"

inductive token_step :: "token_system \<Rightarrow> token_system \<Rightarrow> bool" where
  cancel_flag: "tk_cancellers s t = NotCalled \<Longrightarrow>
    token_step s (s\<lparr>tk_token := set_flag (tk_token s),
      tk_cancellers := (tk_cancellers s)(t := Flagged)\<rparr>)"
| cancel_drain: "tk_cancellers s t = Flagged \<Longrightarrow>
    drain_registry (tk_alive s) (tk_token s) = (controls, tk) \<Longrightarrow>
    token_step s (s\<lparr>tk_token := tk, tk_cancellers := (tk_cancellers s)(t := Visiting controls)\<rparr>)"
| cancel_visit: "tk_cancellers s t = Visiting (c # controls) \<Longrightarrow>
    token_step s (s\<lparr>tk_stopped := (tk_stopped s)(c := True),
      tk_cancellers := (tk_cancellers s)(t := Visiting controls)\<rparr>)"
| cancel_return: "tk_cancellers s t = Visiting [] \<Longrightarrow>
    token_step s (s\<lparr>tk_cancellers := (tk_cancellers s)(t := CancelReturned)\<rparr>)"
| register_push: "tk_registrars s c = Unregistered \<Longrightarrow> tk_alive s c \<Longrightarrow>
    token_step s (s\<lparr>tk_token := push_registry (tk_alive s) c (tk_token s),
      tk_registrars := (tk_registrars s)(c := Pushed)\<rparr>)"
| register_check: "tk_registrars s c = Pushed \<Longrightarrow>
    token_step s (s\<lparr>tk_registrars := (tk_registrars s)(c :=
      (if is_cancelled (tk_token s) then StoppingItself else Registered))\<rparr>)"
| register_stop: "tk_registrars s c = StoppingItself \<Longrightarrow>
    token_step s (s\<lparr>tk_stopped := (tk_stopped s)(c := True),
      tk_registrars := (tk_registrars s)(c := Registered)\<rparr>)"
| transport_dropped: "tk_registrars s c = Registered \<Longrightarrow>
    token_step s (s\<lparr>tk_alive := (tk_alive s)(c := False)\<rparr>)"

inductive_simps token_step_iff: "token_step s s'"

subsection \<open>No registration is missed\<close>

definition to_visit :: "(nat \<Rightarrow> canceller) \<Rightarrow> nat \<Rightarrow> bool" where
  "to_visit cs c \<longleftrightarrow> (\<exists>t controls. cs t = Visiting controls \<and> c \<in> set controls)"

definition to_drain :: "(nat \<Rightarrow> canceller) \<Rightarrow> bool" where
  "to_drain cs \<longleftrightarrow> (\<exists>t. cs t = Flagged)"

text \<open>
  A registered living transport is stopped, about to be visited, or still in the registry;
  and once the flag is up, the latter only while some \<open>cancel\<close> has yet to drain it.
\<close>

definition covered :: "token_system \<Rightarrow> bool" where
  "covered s \<longleftrightarrow>
     (\<forall>c. tk_registrars s c \<in> {Pushed, Registered} \<longrightarrow> tk_alive s c \<longrightarrow>
        tk_stopped s c \<or> to_visit (tk_cancellers s) c \<or> c \<in> set (tk_transports (tk_token s))) \<and>
     (\<forall>c. tk_registrars s c = Registered \<longrightarrow> tk_alive s c \<longrightarrow> tk_cancelled (tk_token s) \<longrightarrow>
        tk_stopped s c \<or> to_visit (tk_cancellers s) c \<or> to_drain (tk_cancellers s))"

definition asked_for :: "token_system \<Rightarrow> bool" where
  "asked_for s \<longleftrightarrow>
     (tk_cancelled (tk_token s) \<longleftrightarrow> (\<exists>t. tk_cancellers s t \<noteq> NotCalled)) \<and>
     (\<forall>c. tk_stopped s c \<or> tk_registrars s c = StoppingItself \<or> to_visit (tk_cancellers s) c \<longrightarrow>
        tk_cancelled (tk_token s))"

text \<open>One canceller moves on: what it still has to visit replaces what it had.\<close>

lemma canceller_moves:
  "to_visit (cs(t := x)) c \<longleftrightarrow>
     (\<exists>controls. x = Visiting controls \<and> c \<in> set controls) \<or> to_visit (cs(t := NotCalled)) c"
  "to_drain (cs(t := x)) \<longleftrightarrow> x = Flagged \<or> to_drain (cs(t := NotCalled))"
  by (auto simp: to_visit_def to_drain_def split: if_splits)

lemma canceller_at:
  assumes "cs t = x"
  shows "to_visit cs c \<longleftrightarrow>
      (\<exists>controls. x = Visiting controls \<and> c \<in> set controls) \<or> to_visit (cs(t := NotCalled)) c"
    and "to_drain cs \<longleftrightarrow> x = Flagged \<or> to_drain (cs(t := NotCalled))"
  using canceller_moves [of cs t x] assms by (simp_all add: fun_upd_idem)

lemma covered_step: "token_step s s' \<Longrightarrow> covered s \<Longrightarrow> covered s'"
proof (induction rule: token_step.induct)
  case (cancel_flag s t)
  then show ?case
    by (auto simp: covered_def set_flag_def canceller_moves [of "tk_cancellers s" t Flagged]
        canceller_at [of "tk_cancellers s" t NotCalled])
next
  case (cancel_drain s t controls tk)
  then show ?case
    by (auto simp: covered_def drain_registry_def canceller_moves [of "tk_cancellers s" t "Visiting controls"]
        canceller_at [of "tk_cancellers s" t Flagged])
next
  case (cancel_visit s t c controls)
  then show ?case
    by (auto simp: covered_def canceller_moves [of "tk_cancellers s" t "Visiting controls"]
        canceller_at [of "tk_cancellers s" t "Visiting (c # controls)"])
next
  case (cancel_return s t)
  then show ?case
    by (auto simp: covered_def canceller_moves [of "tk_cancellers s" t CancelReturned]
        canceller_at [of "tk_cancellers s" t "Visiting []"])
next
  case (register_push s c)
  then show ?case by (auto simp: covered_def push_registry_def)
qed (auto simp: covered_def is_cancelled_def)

lemma asked_for_step: "token_step s s' \<Longrightarrow> asked_for s \<Longrightarrow> asked_for s'"
proof (induction rule: token_step.induct)
  case (cancel_flag s t)
  then show ?case by (auto simp: asked_for_def set_flag_def)
next
  case (cancel_drain s t controls tk)
  then have "tk_cancelled tk" by (auto simp: asked_for_def drain_registry_def)
  then show ?case using cancel_drain by (auto simp: asked_for_def drain_registry_def)
next
  case (cancel_visit s t c controls)
  then have "tk_cancelled (tk_token s)" by (auto simp: asked_for_def)
  then show ?case using cancel_visit by (auto simp: asked_for_def)
next
  case (cancel_return s t)
  then have "tk_cancelled (tk_token s)" by (auto simp: asked_for_def)
  then show ?case using cancel_return by (auto simp: asked_for_def)
qed (auto simp: asked_for_def push_registry_def is_cancelled_def split: if_splits)

lemma fresh_invariants: "covered fresh_token" "asked_for fresh_token"
  by (simp_all add: covered_def asked_for_def fresh_token_def token_new_def to_visit_def)

interpretation cover: step_invariant token_step fresh_token "\<lambda>_. True" covered
  by unfold_locales (auto elim: covered_step intro: fresh_invariants)

interpretation asked: step_invariant token_step fresh_token "\<lambda>_. True" asked_for
  by unfold_locales (auto elim: asked_for_step intro: fresh_invariants)

text \<open>
  C13. However calls of \<open>cancel\<close> and registrations interleave, no registered transport is
  missed: once a \<open>cancel\<close> was called and every call made so far has returned, each living
  transport whose registration returned is stopped; and no transport is ever stopped
  unless \<open>cancel\<close> was called.
\<close>

theorem no_registration_missed:
  assumes "reachable token_step fresh_token s"
  shows "(is_cancelled (tk_token s) \<and> (\<forall>t. tk_cancellers s t \<in> {NotCalled, CancelReturned}) \<and>
      tk_registrars s c = Registered \<and> tk_alive s c \<longrightarrow> tk_stopped s c) \<and>
    (tk_stopped s c \<longrightarrow> (\<exists>t. tk_cancellers s t \<noteq> NotCalled))"
proof -
  have "\<not> to_visit (tk_cancellers s) c \<and> \<not> to_drain (tk_cancellers s)"
    if "\<forall>t. tk_cancellers s t \<in> {NotCalled, CancelReturned}"
    using that unfolding to_visit_def to_drain_def by (metis canceller.distinct insertE singletonD)
  with cover.throughout [OF assms] asked.throughout [OF assms] show ?thesis
    by (auto simp: covered_def asked_for_def is_cancelled_def)
qed

text \<open>The race the second check covers: the registry is drained before the transport enters it.\<close>

lemma late_registration:
  "\<exists>s. reachable token_step fresh_token s \<and> tk_cancellers s 0 = CancelReturned \<and>
     (\<forall>t. t \<noteq> 0 \<longrightarrow> tk_cancellers s t = NotCalled) \<and> tk_cancelled (tk_token s) \<and>
     tk_registrars s 7 = Registered \<and> tk_alive s 7"
proof -
  let ?s1 = "fresh_token\<lparr>tk_token := set_flag token_new, tk_cancellers := (\<lambda>_. NotCalled)(0 := Flagged)\<rparr>"
  let ?s2 = "?s1\<lparr>tk_cancellers := (\<lambda>_. NotCalled)(0 := Visiting [])\<rparr>"
  let ?s3 = "?s2\<lparr>tk_cancellers := (\<lambda>_. NotCalled)(0 := CancelReturned)\<rparr>"
  let ?s4 = "?s3\<lparr>tk_token := push_registry (\<lambda>_. True) 7 (set_flag token_new),
      tk_registrars := (\<lambda>_. Unregistered)(7 := Pushed)\<rparr>"
  let ?s5 = "?s4\<lparr>tk_registrars := (\<lambda>_. Unregistered)(7 := StoppingItself)\<rparr>"
  let ?s6 = "?s5\<lparr>tk_stopped := (\<lambda>_. False)(7 := True), tk_registrars := (\<lambda>_. Unregistered)(7 := Registered)\<rparr>"
  have s1: "token_step fresh_token ?s1"
    using token_step.cancel_flag [of fresh_token 0] by (simp add: fresh_token_def)
  have s2: "token_step ?s1 ?s2"
    using token_step.cancel_drain [of ?s1 0 "[]" "set_flag token_new"]
    by (simp add: fresh_token_def drain_registry_def set_flag_def token_new_def)
  have s3: "token_step ?s2 ?s3"
    using token_step.cancel_return [of ?s2 0] by (simp add: fresh_token_def)
  have s4: "token_step ?s3 ?s4"
    using token_step.register_push [of ?s3 7] by (simp add: fresh_token_def)
  have s5: "token_step ?s4 ?s5"
    using token_step.register_check [of ?s4 7]
    by (simp add: fresh_token_def is_cancelled_def set_flag_def token_new_def push_registry_def)
  have s6: "token_step ?s5 ?s6"
    using token_step.register_stop [of ?s5 7] by (simp add: fresh_token_def)
  note go = reachable.further [where step = token_step and start = fresh_token]
  have "reachable token_step fresh_token ?s6"
    by (rule go [OF go [OF go [OF go [OF go [OF go [OF reachable.start s1] s2] s3] s4] s5] s6])
  then show ?thesis
    by (intro exI [of _ ?s6]) (simp add: fresh_token_def set_flag_def push_registry_def)
qed

lemma no_registration_missed_witness:
  "\<exists>s. reachable token_step fresh_token s \<and> tk_registrars s 7 = Registered \<and> tk_stopped s 7"
proof -
  obtain s where s: "reachable token_step fresh_token s" "tk_cancellers s 0 = CancelReturned"
      "\<forall>t. t \<noteq> 0 \<longrightarrow> tk_cancellers s t = NotCalled" "tk_cancelled (tk_token s)"
      "tk_registrars s 7 = Registered" "tk_alive s 7"
    using late_registration by blast
  then have "tk_cancellers s t \<in> {NotCalled, CancelReturned}" for t by (cases "t = 0") auto
  with s no_registration_missed [OF s(1), of 7] show ?thesis by (auto simp: is_cancelled_def)
qed

end
