(* ===== verification/Manifest.thy ===== *)
theory Manifest
  imports IngestBatch "HOL-Library.Multiset"
begin

text \<open>
  \<open>crates/pipeline/src/manifest.rs\<close>: the order-independent content digest and the
  completion manifest with its versioned validation.  The row hasher, JSON and the object
  store's path encoding are libraries and stand as parameters.
\<close>

subsection \<open>The content digest\<close>

record 'h hasher =
  with_seeds :: "u64 \<Rightarrow> u64 \<Rightarrow> u64 \<Rightarrow> u64 \<Rightarrow> 'h"
  write_i64 :: "i64 \<Rightarrow> 'h \<Rightarrow> 'h"
  write_bytes :: "string \<Rightarrow> 'h \<Rightarrow> 'h"
  write_u8 :: "8 word \<Rightarrow> 'h \<Rightarrow> 'h"
  finish :: "'h \<Rightarrow> u64"

definition DIGEST_SEED_1 :: u64 where "DIGEST_SEED_1 = 0x517cc1b727220a95"
definition DIGEST_SEED_2 :: u64 where "DIGEST_SEED_2 = 0x2545f4914f6cdd1d"
definition DIGEST_SEED_3 :: u64 where "DIGEST_SEED_3 = 0x9e3779b97f4a7c15"
definition DIGEST_SEED_4 :: u64 where "DIGEST_SEED_4 = 0xbf58476d1ce4e5b9"

definition hash_row :: "'h hasher \<Rightarrow> i64 \<Rightarrow> string \<Rightarrow> string option \<Rightarrow> u64" where
  "hash_row H rid name note =
     (let h0 = with_seeds H DIGEST_SEED_1 DIGEST_SEED_2 DIGEST_SEED_3 DIGEST_SEED_4;
          h1 = write_i64 H rid h0;
          h2 = write_bytes H name h1;
          h3 = (case note of
                  Some note \<Rightarrow> write_bytes H note (write_u8 H 1 h2)
                | None \<Rightarrow> write_u8 H 0 h2)
      in finish H h3)"

definition accumulate_batch_digest :: "'h hasher \<Rightarrow> u64 \<Rightarrow> checked_batch \<Rightarrow> u64" where
  "accumulate_batch_digest H running cb =
     foldl (\<lambda>acc row.
        acc + hash_row H (value_at (cb_ids cb) row) (value_at (cb_names cb) row)
          (if \<not> null_at (cb_notes cb) row then Some (value_at (cb_notes cb) row) else None))
       running [0..<b_rows (cb_batch cb)]"

subsection \<open>Object metadata and the manifest record\<close>

record object_meta =
  om_location :: object_path
  om_last_modified :: string
  om_size :: nat
  om_e_tag :: "string option"
  om_version :: "string option"

record completion_manifest =
  schema_version :: nat
  input_key :: string
  input_size :: nat
  input_e_tag :: "string option"
  input_last_modified :: string
  row_count :: nat
  content_digest :: string
  run_id :: "string option"
  input_version :: "string option"
  output_key :: "string option"
  output_e_tag :: "string option"
  output_version :: "string option"
  digest_scheme :: "string option"

definition LEGACY_DIGEST_SCHEME :: string where
  "LEGACY_DIGEST_SCHEME = ''legacy-ahash-wrapping-sum-v1''"

text \<open>
  \<open>value.trim().is_empty()\<close> on UTF-8 bytes: every character is Unicode white space.
\<close>

fun blank_bytes :: "nat list \<Rightarrow> bool" where
  "blank_bytes [] \<longleftrightarrow> True"
| "blank_bytes (a # bs) \<longleftrightarrow>
     (if a = 32 \<or> 9 \<le> a \<and> a \<le> 13 then blank_bytes bs
      else case bs of
        b # cs \<Rightarrow>
          (if a = 194 \<and> (b = 133 \<or> b = 160) then blank_bytes cs
           else (case cs of
             c # ds \<Rightarrow>
               (if a = 225 \<and> b = 154 \<and> c = 128 \<or>
                   a = 226 \<and> b = 128 \<and> (128 \<le> c \<and> c \<le> 138 \<or> c = 168 \<or> c = 169 \<or> c = 175) \<or>
                   a = 226 \<and> b = 129 \<and> c = 159 \<or>
                   a = 227 \<and> b = 128 \<and> c = 128
                then blank_bytes ds else False)
           | [] \<Rightarrow> False))
      | [] \<Rightarrow> False)"

definition blank :: "string \<Rightarrow> bool" where
  "blank s \<longleftrightarrow> blank_bytes (map byte_of s)"

text \<open>\<open>OutputIdentity::new\<close>.\<close>

record output_identity =
  oi_run_id :: string
  oi_key :: object_path
  oi_meta :: object_meta

definition is_none_or :: "('a \<Rightarrow> bool) \<Rightarrow> 'a option \<Rightarrow> bool" where
  "is_none_or P x \<longleftrightarrow> (case x of None \<Rightarrow> True | Some y \<Rightarrow> P y)"

definition output_identity_new ::
  "string \<Rightarrow> object_path \<Rightarrow> object_meta \<Rightarrow> pipeline_io_error + output_identity" where
  "output_identity_new run key meta =
     (if om_location meta \<noteq> key then Inl (InvalidSnapshot key Location)
      else if is_none_or blank (om_version meta) \<and> is_none_or blank (om_e_tag meta)
      then Inl (InvalidSnapshot key MissingIdentity)
      else Inr \<lparr>oi_run_id = run, oi_key = key, oi_meta = meta\<rparr>)"

subsection \<open>Validation\<close>

text \<open>The closure \<open>required\<close>: present and not blank.\<close>

definition required :: "string option \<Rightarrow> manifest_violation \<Rightarrow> pipeline_io_error + unit" where
  "required x violation =
     (case x of
        Some s \<Rightarrow> if \<not> blank s then Inr () else Inl (InvalidManifest violation)
      | None \<Rightarrow> Inl (InvalidManifest violation))"

text \<open>The \<open>for\<close> loop over the identities that are present.\<close>

fun check_identities :: "string option list \<Rightarrow> pipeline_io_error + unit" where
  "check_identities [] = Inr ()"
| "check_identities (None # xs) = check_identities xs"
| "check_identities (Some s # xs) =
     (if blank s then Inl (InvalidManifest EmptyOutputIdentity) else check_identities xs)"

definition manifest_validate :: "completion_manifest \<Rightarrow> pipeline_io_error + unit" where
  "manifest_validate m =
     (if schema_version m = 1 then Inr ()
      else if schema_version m = 2 then
        and_then (required (run_id m) MissingRunId) (\<lambda>_.
        and_then (required (output_key m) MissingOutputKey) (\<lambda>_.
        if output_e_tag m = None \<and> output_version m = None
        then Inl (InvalidManifest MissingOutputIdentity)
        else and_then (check_identities [output_e_tag m, output_version m]) (\<lambda>_.
        and_then (required (digest_scheme m) MissingDigestScheme) (\<lambda>_.
        if digest_scheme m \<noteq> Some LEGACY_DIGEST_SCHEME
        then Inl (UnsupportedDigestScheme (case digest_scheme m of Some s \<Rightarrow> s | None \<Rightarrow> ''''))
        else Inr ()))))
      else Inl (UnsupportedManifestVersion (schema_version m)))"

text \<open>
  \<open>decode_completion_manifest\<close> over \<open>serde_json::from_slice\<close>; the wire struct has the
  record's fields and its \<open>From\<close> copies each of them.
\<close>

definition decode_completion_manifest ::
  "(string \<Rightarrow> foreign + completion_manifest) \<Rightarrow> string \<Rightarrow> pipeline_io_error + completion_manifest" where
  "decode_completion_manifest from_slice bytes =
     and_then (map_err ReadManifest (from_slice bytes)) (\<lambda>m.
     and_then (manifest_validate m) (\<lambda>_. Inr m))"

text \<open>\<open>format!("{:016x}")\<close>.\<close>

definition hex_digit :: "nat \<Rightarrow> char" where
  "hex_digit d = char_of (if d < 10 then 48 + d else 87 + d)"

definition hex16 :: "u64 \<Rightarrow> string" where
  "hex16 w = map (\<lambda>i. hex_digit (unat (drop_bit (4 * i) w) mod 16)) (rev [0..<16])"

definition manifest_new ::
  "object_path \<Rightarrow> object_meta \<Rightarrow> nat \<Rightarrow> u64 \<Rightarrow> completion_manifest" where
  "manifest_new in_key in_meta rows digest =
     \<lparr>schema_version = 1, input_key = in_key, input_size = om_size in_meta,
      input_e_tag = om_e_tag in_meta, input_last_modified = om_last_modified in_meta,
      row_count = rows, content_digest = hex16 digest,
      run_id = None, input_version = None, output_key = None, output_e_tag = None,
      output_version = None, digest_scheme = None\<rparr>"

definition filter_option :: "('a \<Rightarrow> bool) \<Rightarrow> 'a option \<Rightarrow> 'a option" where
  "filter_option P x = (case x of Some y \<Rightarrow> if P y then Some y else None | None \<Rightarrow> None)"

definition manifest_new_v2 ::
  "object_path \<Rightarrow> object_meta \<Rightarrow> nat \<Rightarrow> u64 \<Rightarrow> output_identity \<Rightarrow>
   pipeline_io_error + completion_manifest" where
  "manifest_new_v2 in_key in_meta rows digest out =
     (let m = (manifest_new in_key in_meta rows digest)
                \<lparr>schema_version := 2,
                 run_id := Some (oi_run_id out),
                 input_version := om_version in_meta,
                 output_key := Some (oi_key out),
                 output_e_tag := filter_option (\<lambda>v. \<not> blank v) (om_e_tag (oi_meta out)),
                 output_version := filter_option (\<lambda>v. \<not> blank v) (om_version (oi_meta out)),
                 digest_scheme := Some LEGACY_DIGEST_SCHEME\<rparr>
      in and_then (manifest_validate m) (\<lambda>_. Inr m))"

text \<open>\<open>key_for\<close>, over \<open>ObjectPath::from\<close>.\<close>

definition key_for :: "(string \<Rightarrow> object_path) \<Rightarrow> object_path \<Rightarrow> object_path" where
  "key_for path_from out = path_from (out @ ''.manifest.json'')"

subsection \<open>The digest is a multiset sum\<close>

definition row_hash :: "'h hasher \<Rightarrow> row \<Rightarrow> u64" where
  "row_hash H r = hash_row H (r_id r) (r_name r) (r_note r)"

lemma foldl_sum: "foldl (\<lambda>acc x. acc + f x) (a :: u64) xs = a + sum_list (map f xs)"
  by (induction xs arbitrary: a) (simp_all add: add.assoc)

lemma accumulate_is_sum:
  "accumulate_batch_digest H running cb = running + sum_list (map (row_hash H) (checked_rows cb))"
proof -
  let ?h = "\<lambda>i. row_hash H (checked_row cb i)"
  have "accumulate_batch_digest H running cb = foldl (\<lambda>acc i. acc + ?h i) running [0..<b_rows (cb_batch cb)]"
    unfolding accumulate_batch_digest_def
    by (intro foldl_cong refl) (simp add: row_hash_def checked_row_def)
  then show ?thesis by (simp add: foldl_sum checked_rows_def comp_def)
qed

lemma digest_of_batches:
  "foldl (accumulate_batch_digest H) running cbs =
     running + sum_list (map (row_hash H) (concat (map checked_rows cbs)))"
  by (induction cbs arbitrary: running) (simp_all add: accumulate_is_sum add.assoc)

lemma sum_list_mset_cong: "mset xs = mset ys \<Longrightarrow> sum_list (map f xs) = (sum_list (map f ys) :: u64)"
  by (metis mset_map sum_mset_sum_list)

text \<open>
  C22. The content digest depends only on the multiset of rows: two runs whose batches hold
  the same rows, however ordered and however split into batches, report the same digest.
\<close>

theorem digest_order_and_batch_independent:
  assumes "mset (concat (map checked_rows cbs)) = mset (concat (map checked_rows cbs'))"
  shows "foldl (accumulate_batch_digest H) 0 cbs = foldl (accumulate_batch_digest H) 0 cbs'"
  unfolding digest_of_batches by (simp only: sum_list_mset_cong [OF assms])

text \<open>A hash state that folds every write into one word, to evaluate the model with.\<close>

definition sample_hasher :: "u64 hasher" where
  "sample_hasher =
     \<lparr>with_seeds = (\<lambda>a b c d. a + b + c + d), write_i64 = (\<lambda>n h. 31 * h + n),
      write_bytes = (\<lambda>s h. foldl (\<lambda>h c. 31 * h + of_nat (of_char c)) h s),
      write_u8 = (\<lambda>b h. 31 * h + ucast b), finish = (\<lambda>h. h)\<rparr>"

lemma digest_order_and_batch_independent_witness:
  "foldl (accumulate_batch_digest sample_hasher) 0
     [checked_of_rows [\<lparr>r_id = 1, r_name = ''a'', r_note = None\<rparr>, \<lparr>r_id = 2, r_name = ''b'', r_note = None\<rparr>],
      checked_of_rows [\<lparr>r_id = 3, r_name = ''c'', r_note = Some ''x''\<rparr>]] =
   foldl (accumulate_batch_digest sample_hasher) 0
     [checked_of_rows [\<lparr>r_id = 3, r_name = ''c'', r_note = Some ''x''\<rparr>,
        \<lparr>r_id = 1, r_name = ''a'', r_note = None\<rparr>, \<lparr>r_id = 2, r_name = ''b'', r_note = None\<rparr>]]"
  by (rule digest_order_and_batch_independent) (simp add: checked_rows_of_rows)

text \<open>
  Rows are counted, not cancelled: adding a row to any run changes the digest by exactly
  the row's hash, so a dropped or duplicated row goes unnoticed only if its hash is zero.
\<close>

theorem digest_counts_rows:
  "foldl (accumulate_batch_digest H) d (cbs @ [checked_of_rows [r]]) =
     foldl (accumulate_batch_digest H) d cbs + row_hash H r \<and>
   (foldl (accumulate_batch_digest H) d (cbs @ [checked_of_rows [r]]) =
      foldl (accumulate_batch_digest H) d cbs \<longleftrightarrow> row_hash H r = 0)"
  by (simp add: accumulate_is_sum checked_rows_of_rows)

subsection \<open>Which manifests validate\<close>

abbreviation given :: "string option \<Rightarrow> bool" where
  "given x \<equiv> (\<exists>s. x = Some s \<and> \<not> blank s)"

lemma required_ok: "required x v = Inr () \<longleftrightarrow> given x"
  by (cases x) (auto simp: required_def)

lemma check_identities_ok:
  "check_identities xs = Inr () \<longleftrightarrow> (\<forall>s. Some s \<in> set xs \<longrightarrow> \<not> blank s)"
  by (induction xs rule: check_identities.induct) auto

lemma legacy_scheme_not_blank: "\<not> blank LEGACY_DIGEST_SCHEME"
  by (simp add: blank_def LEGACY_DIGEST_SCHEME_def)

lemma and_then_unit_ok: "and_then r (\<lambda>_. s) = Inr y \<longleftrightarrow> r = Inr () \<and> s = Inr y" for r :: "'e + unit"
  by (cases r) auto

text \<open>
  A manifest is accepted exactly if it is version 1, or version 2 with a non-blank run
  id and output key, at least one output identity and none of them blank, and the one
  supported digest scheme; every other version is refused by its number.
\<close>

theorem manifest_validate_accepts:
  "(manifest_validate m = Inr () \<longleftrightarrow>
     schema_version m = 1 \<or>
     schema_version m = 2 \<and> given (run_id m) \<and> given (output_key m) \<and>
     (given (output_e_tag m) \<or> given (output_version m)) \<and>
     (output_e_tag m = None \<or> given (output_e_tag m)) \<and>
     (output_version m = None \<or> given (output_version m)) \<and>
     digest_scheme m = Some LEGACY_DIGEST_SCHEME) \<and>
   (schema_version m \<notin> {1, 2} \<longrightarrow>
     manifest_validate m = Inl (UnsupportedManifestVersion (schema_version m)))"
  using legacy_scheme_not_blank
  by (cases "output_e_tag m"; cases "output_version m")
    (auto simp: manifest_validate_def and_then_unit_ok required_ok check_identities_ok)

lemma manifest_validate_accepts_witness:
  "manifest_validate ((manifest_new ''in'' \<lparr>om_location = ''in'', om_last_modified = ''t'', om_size = 3,
      om_e_tag = None, om_version = None\<rparr> 1 0)\<lparr>schema_version := 3\<rparr>) =
   Inl (UnsupportedManifestVersion 3)"
proof -
  let ?m = "(manifest_new ''in'' \<lparr>om_location = ''in'', om_last_modified = ''t'', om_size = 3,
      om_e_tag = None, om_version = None\<rparr> 1 0)\<lparr>schema_version := 3\<rparr>"
  have "schema_version ?m \<notin> {1, 2}" by simp
  with conjunct2 [OF manifest_validate_accepts [of ?m]] show ?thesis by simp
qed

lemma output_identity_ok:
  "output_identity_new run key meta = Inr oi \<longleftrightarrow>
     om_location meta = key \<and> (given (om_version meta) \<or> given (om_e_tag meta)) \<and>
     oi = \<lparr>oi_run_id = run, oi_key = key, oi_meta = meta\<rparr>"
  by (cases "om_version meta"; cases "om_e_tag meta")
    (auto simp: output_identity_new_def is_none_or_def)

lemma filter_given: "filter_option (\<lambda>v. \<not> blank v) x = (if given x then x else None)"
  by (cases x) (auto simp: filter_option_def)

text \<open>
  For an identity captured of the output object and a non-blank run and key, building
  the version-2 manifest never fails, and the record binds that output: its key, exactly
  the object's non-blank ETag and version (at least one of them), the input's snapshot,
  the row count and the digest.
\<close>

theorem manifest_new_v2_binds_output:
  assumes "output_identity_new run key meta = Inr oi" and "\<not> blank run" and "\<not> blank key"
  shows "\<exists>m. manifest_new_v2 in_key in_meta rows digest oi = Inr m \<and>
    schema_version m = 2 \<and> run_id m = Some run \<and> output_key m = Some key \<and>
    (output_e_tag m \<noteq> None \<or> output_version m \<noteq> None) \<and>
    (\<forall>t. output_e_tag m = Some t \<longleftrightarrow> om_e_tag meta = Some t \<and> \<not> blank t) \<and>
    (\<forall>v. output_version m = Some v \<longleftrightarrow> om_version meta = Some v \<and> \<not> blank v) \<and>
    input_key m = in_key \<and> input_version m = om_version in_meta \<and> input_size m = om_size in_meta \<and>
    row_count m = rows \<and> content_digest m = hex16 digest"
  using assms legacy_scheme_not_blank
  by (auto simp: output_identity_ok manifest_new_v2_def manifest_new_def Let_def filter_given
      manifest_validate_def required_def split: if_splits)

lemma manifest_new_v2_binds_output_witness:
  "\<exists>m oi. output_identity_new ''run'' ''o'' \<lparr>om_location = ''o'', om_last_modified = ''t'', om_size = 1,
       om_e_tag = Some ''e1'', om_version = Some '' ''\<rparr> = Inr oi \<and>
     manifest_new_v2 ''in'' (oi_meta oi) 1 0 oi = Inr m \<and> output_version m = None"
proof -
  let ?meta = "\<lparr>om_location = ''o'', om_last_modified = ''t'', om_size = 1,
       om_e_tag = Some ''e1'', om_version = Some '' ''\<rparr>"
  have b: "\<not> blank ''run''" "\<not> blank ''o''" "\<not> blank ''e1''" "blank '' ''" by (simp_all add: blank_def)
  then have "output_identity_new ''run'' ''o'' ?meta = Inr \<lparr>oi_run_id = ''run'', oi_key = ''o'', oi_meta = ?meta\<rparr>"
    by (simp add: output_identity_ok)
  note oi = this
  obtain m where m: "manifest_new_v2 ''in'' ?meta 1 0 \<lparr>oi_run_id = ''run'', oi_key = ''o'', oi_meta = ?meta\<rparr> = Inr m"
    and v: "\<forall>v. output_version m = Some v \<longleftrightarrow> om_version ?meta = Some v \<and> \<not> blank v"
    using manifest_new_v2_binds_output [OF oi b(1,2), of "''in''" ?meta 1 0] by blast
  have "output_version m = None"
  proof (rule ccontr)
    assume "output_version m \<noteq> None"
    then obtain x where "output_version m = Some x" by blast
    with v b(4) show False by (metis object_meta.select_convs(5) option.inject)
  qed
  with oi m show ?thesis
    by (intro exI [of _ m] exI [of _ "\<lparr>oi_run_id = ''run'', oi_key = ''o'', oi_meta = ?meta\<rparr>"]) simp
qed

text \<open>
  Decoding accepts exactly the byte strings whose JSON gives a record that validates,
  and gives that record; so a valid manifest survives encoding and decoding unchanged and
  no invalid record is ever handed out.
\<close>

theorem decode_manifest_round_trip:
  assumes "from_slice (to_vec m) = Inr m"
  shows "(decode_completion_manifest from_slice (to_vec m) = Inr m \<longleftrightarrow> manifest_validate m = Inr ()) \<and>
    (decode_completion_manifest from_slice bytes = Inr m' \<longleftrightarrow>
       from_slice bytes = Inr m' \<and> manifest_validate m' = Inr ())"
proof -
  have "decode_completion_manifest from_slice bs = Inr n \<longleftrightarrow>
      from_slice bs = Inr n \<and> manifest_validate n = Inr ()" for bs n
    by (cases "from_slice bs")
      (auto simp: decode_completion_manifest_def and_then_unit_ok)
  with assms show ?thesis by simp
qed

lemma decode_manifest_round_trip_witness:
  "\<exists>from_slice to_vec. decode_completion_manifest from_slice (to_vec
     (manifest_new ''in'' \<lparr>om_location = ''in'', om_last_modified = ''t'', om_size = 3,
      om_e_tag = None, om_version = None\<rparr> 1 0)) =
   Inr (manifest_new ''in'' \<lparr>om_location = ''in'', om_last_modified = ''t'', om_size = 3,
      om_e_tag = None, om_version = None\<rparr> 1 0)"
proof -
  let ?m = "manifest_new ''in'' \<lparr>om_location = ''in'', om_last_modified = ''t'', om_size = 3,
      om_e_tag = None, om_version = None\<rparr> 1 0"
  have "(\<lambda>_. Inr ?m) ((\<lambda>_. ''{}'') ?m) = (Inr ?m :: foreign + completion_manifest)" by simp
  from conjunct1 [OF decode_manifest_round_trip [of "\<lambda>_. Inr ?m" "\<lambda>_. ''{}''" ?m, OF this]]
  have "decode_completion_manifest (\<lambda>_. Inr ?m) ((\<lambda>_. ''{}'') ?m) = Inr ?m"
    by (simp add: manifest_validate_def manifest_new_def)
  then show ?thesis by (intro exI [of _ "\<lambda>_. Inr ?m"] exI [of _ "\<lambda>_. ''{}''"])
qed

subsection \<open>The digest's rendering\<close>

lemma hex_digit_byte: "a < 16 \<Longrightarrow> byte_of (hex_digit a) = (if a < 10 then 48 + a else 87 + a)"
  by (simp add: hex_digit_def)

lemma hex_digit_inj:
  assumes "a < 16" and "b < 16" and "hex_digit a = hex_digit b"
  shows "a = b"
proof -
  have "(if a < 10 then 48 + a else 87 + a) = (if b < 10 then 48 + b else 87 + b)"
    using hex_digit_byte [OF assms(1)] hex_digit_byte [OF assms(2)] unfolding assms(3) by (rule trans [OF sym])
  then show ?thesis using assms(1,2) by (simp split: if_splits)
qed

lemma nibbles_determine:
  fixes v w :: u64
  assumes "\<And>i. i < 16 \<Longrightarrow> unat (drop_bit (4 * i) v) mod 16 = unat (drop_bit (4 * i) w) mod 16"
  shows "v = w"
proof (rule bit_word_eqI)
  fix n
  assume "n < LENGTH(64)"
  then have i: "n div 4 < 16" by simp
  have bit: "bit x n \<longleftrightarrow> bit (unat (drop_bit (4 * (n div 4)) x) mod 16) (n mod 4)" for x :: u64
  proof -
    have "unat (drop_bit (4 * (n div 4)) x) mod 16 = take_bit 4 (unat (drop_bit (4 * (n div 4)) x))"
      by (simp add: take_bit_eq_mod)
    moreover have "bit (unat (drop_bit (4 * (n div 4)) x)) (n mod 4) \<longleftrightarrow> bit x (4 * (n div 4) + n mod 4)"
      using bit_imp_le_length [of x "4 * (n div 4) + n mod 4"]
      by (simp only: bit_unsigned_iff bit_drop_bit_eq comp_apply) auto
    moreover have "4 * (n div 4) + n mod 4 = n" by simp
    ultimately show ?thesis by (simp only: bit_take_bit_iff) simp
  qed
  show "bit v n \<longleftrightarrow> bit w n"
    unfolding bit [of v] bit [of w] using assms [OF i] by simp
qed

text \<open>
  The persisted digest text is faithful: it is always 16 characters and two digests are
  rendered alike only if they are equal.
\<close>

theorem digest_text_faithful: "length (hex16 v) = 16 \<and> (hex16 v = hex16 w \<longleftrightarrow> v = w)"
proof (intro conjI iffI)
  show "length (hex16 v) = 16" by (simp add: hex16_def)
  assume eq: "hex16 v = hex16 w"
  show "v = w"
  proof (rule nibbles_determine)
    fix i :: nat
    assume "i < 16"
    then have "i \<in> set (rev [0..<16])" by simp
    with eq have "hex_digit (unat (drop_bit (4 * i) v) mod 16) = hex_digit (unat (drop_bit (4 * i) w) mod 16)"
      unfolding hex16_def map_eq_conv by blast
    then show "unat (drop_bit (4 * i) v) mod 16 = unat (drop_bit (4 * i) w) mod 16"
      by (rule hex_digit_inj [rotated 2]) simp_all
  qed
qed simp

end
