(* ===== verification/Staging.thy ===== *)
theory Staging
  imports PipelineErrors
begin

text \<open>
  \<open>crates/pipeline/src/staging.rs\<close>: local output staging.  The trait \<open>PublicationIo\<close> is
  a record of operations on a world; \<open>publish_with\<close> runs over any of them.  What it
  relies on is the locale \<open>publication_io\<close>, and the implementation \<open>Filesystem\<close> is
  given over a file system whose calls may fail at any point.
\<close>

subsection \<open>Paths\<close>

text \<open>\<open>Path::parent\<close> on slash-separated paths, components compared as \<open>Path\<close> does.\<close>

fun split_slash :: "string \<Rightarrow> string \<Rightarrow> string list" where
  "split_slash acc [] = [rev acc]"
| "split_slash acc (c # cs) =
     (if c = CHR ''/'' then rev acc # split_slash [] cs else split_slash (c # acc) cs)"

definition path_components :: "file_path \<Rightarrow> string list" where
  "path_components p =
     (let cs = split_slash [] p
      in case cs of
           [] \<Rightarrow> []
         | c # rest \<Rightarrow> filter (\<lambda>s. s \<noteq> []) [c] @ filter (\<lambda>s. s \<noteq> [] \<and> s \<noteq> ''.'') rest)"

fun join_slash :: "string list \<Rightarrow> string" where
  "join_slash [] = []"
| "join_slash [s] = s"
| "join_slash (s # ss) = s @ ''/'' @ join_slash ss"

definition path_parent :: "file_path \<Rightarrow> file_path option" where
  "path_parent p =
     (let cs = path_components p
      in if cs = [] then None
         else Some ((if p \<noteq> [] \<and> hd p = CHR ''/'' then ''/'' else '''') @ join_slash (butlast cs)))"

text \<open>\<open>parent\<close>.\<close>

definition parent :: "file_path \<Rightarrow> file_path" where
  "parent output =
     (case path_parent output of
        Some p \<Rightarrow> if p \<noteq> [] then p else ''.''
      | None \<Rightarrow> ''.'')"

subsection \<open>Failures\<close>

definition failure :: "file_path \<Rightarrow> local_phase \<Rightarrow> pipeline_io_error \<Rightarrow> pipeline_error" where
  "failure output phase source =
     LocalPublication phase
       (if phase = ParentSync then PublishedDurabilityUncertain else NotPublished) output source"

definition io_failure :: "file_path \<Rightarrow> local_phase \<Rightarrow> foreign \<Rightarrow> pipeline_error" where
  "io_failure output phase source = failure output phase (OpenOutput output source)"

subsection \<open>Staged output\<close>

text \<open>
  The injectable edge.  \<open>drop_temp\<close> is the destructor of the owned temporary file, which
  runs wherever the source drops an unpublished \<open>NamedTempFile\<close>; it reports nothing, and
  where it cannot remove the file it leaves it.
\<close>

record 'w publication_io =
  sync_file :: "file_path \<Rightarrow> 'w \<Rightarrow> (foreign + unit) \<times> 'w"
  persist :: "file_path \<Rightarrow> file_path \<Rightarrow> 'w \<Rightarrow> (foreign + unit) \<times> 'w"
  sync_parent :: "file_path \<Rightarrow> 'w \<Rightarrow> (foreign + unit) \<times> 'w"
  drop_temp :: "file_path \<Rightarrow> 'w \<Rightarrow> 'w"

record staged_output =
  so_file :: file_path
  so_output :: file_path

text \<open>\<open>LocalStagedOutput::new\<close> and \<open>file\<close>, over \<open>tempfile_in\<close> and \<open>reopen\<close>.\<close>

definition staged_new ::
  "(file_path \<Rightarrow> 'w \<Rightarrow> (foreign + file_path) \<times> 'w) \<Rightarrow> file_path \<Rightarrow> 'w \<Rightarrow>
   (pipeline_error + staged_output) \<times> 'w" where
  "staged_new tempfile_in output w =
     (case tempfile_in (parent output) w of
        (Inl source, w') \<Rightarrow> (Inl (io_failure output Create source), w')
      | (Inr file, w') \<Rightarrow> (Inr \<lparr>so_file = file, so_output = output\<rparr>, w'))"

definition staged_file ::
  "(file_path \<Rightarrow> 'w \<Rightarrow> (foreign + 'h) \<times> 'w) \<Rightarrow> staged_output \<Rightarrow> 'w \<Rightarrow>
   (pipeline_error + 'h) \<times> 'w" where
  "staged_file reopen self w =
     (case reopen (so_file self) w of
        (Inl source, w') \<Rightarrow> (Inl (io_failure (so_output self) Create source), w')
      | (Inr h, w') \<Rightarrow> (Inr h, w'))"

text \<open>\<open>LocalStagedOutput::publish_with\<close>.\<close>

definition publish_with ::
  "'w publication_io \<Rightarrow> staged_output \<Rightarrow> 'w \<Rightarrow> (pipeline_error + unit) \<times> 'w" where
  "publish_with io self w =
     (let file = so_file self; output = so_output self
      in case sync_file io file w of
           (Inl source, w1) \<Rightarrow> (Inl (io_failure output FileSync source), drop_temp io file w1)
         | (Inr _, w1) \<Rightarrow>
        (case persist io file output w1 of
           (Inl source, w2) \<Rightarrow> (Inl (io_failure output Rename source), drop_temp io file w2)
         | (Inr _, w2) \<Rightarrow>
        (case sync_parent io (parent output) w2 of
           (Inl source, w3) \<Rightarrow> (Inl (io_failure output ParentSync source), w3)
         | (Inr _, w3) \<Rightarrow> (Inr (), w3))))"

subsection \<open>The contract of the edge\<close>

text \<open>
  What publication needs of the edge: syncing changes no visible contents, a successful
  \<open>persist\<close> replaces the destination by the staged contents and consumes the staged
  file, a failed one leaves everything visible as it was, and the destructor removes the
  staged file unless removing fails in this world.
\<close>

locale publication_io =
  fixes io :: "'w publication_io"
    and visible :: "'w \<Rightarrow> file_path \<Rightarrow> string option"
    and synced :: "'w \<Rightarrow> file_path \<Rightarrow> bool"
    and stuck :: "'w \<Rightarrow> bool"
  assumes sync_file_visible: "visible (snd (sync_file io f w)) = visible w"
    and sync_file_ok: "fst (sync_file io f w) = Inr () \<Longrightarrow> synced (snd (sync_file io f w)) f"
    and persist_ok: "fst (persist io f out w) = Inr () \<Longrightarrow>
      visible (snd (persist io f out w)) = (visible w)(f := None, out := visible w f) \<and>
      (synced w f \<longrightarrow> synced (snd (persist io f out w)) out)"
    and persist_err: "fst (persist io f out w) = Inl e \<Longrightarrow>
      visible (snd (persist io f out w)) = visible w"
    and sync_parent_visible: "visible (snd (sync_parent io d w)) = visible w"
    and sync_parent_synced: "synced w p \<Longrightarrow> synced (snd (sync_parent io d w)) p"
    and drop_visible: "visible (drop_temp io f w) = (if stuck w then visible w else (visible w)(f := None))"
    and stuck_stays: "stuck (snd (sync_file io f w)) = stuck w" "stuck (snd (persist io f out w)) = stuck w"
      "stuck (snd (sync_parent io d w)) = stuck w" "stuck (drop_temp io f w) = stuck w"
begin

lemma publish_result:
  assumes "so_file s \<noteq> so_output s"
  shows "case publish_with io s w of
      (Inr _, w') \<Rightarrow> visible w' (so_output s) = visible w (so_file s) \<and> synced w' (so_output s)
    | (Inl e, w') \<Rightarrow> \<exists>phase outcome src. e = LocalPublication phase outcome (so_output s) src \<and>
        (case outcome of
           NotPublished \<Rightarrow> visible w' (so_output s) = visible w (so_output s)
         | PublishedDurabilityUncertain \<Rightarrow>
             visible w' (so_output s) = visible w (so_file s) \<and> synced w' (so_output s))"
proof -
  obtain r1 w1 where s: "sync_file io (so_file s) w = (r1, w1)" by fastforce
  obtain r2 w2 where p: "persist io (so_file s) (so_output s) w1 = (r2, w2)" by fastforce
  obtain r3 w3 where d: "sync_parent io (parent (so_output s)) w2 = (r3, w3)" by fastforce
  have v1: "visible w1 = visible w" using sync_file_visible [of "so_file s" w] s by simp
  show ?thesis
  proof (cases r1)
    case (Inl e)
    then show ?thesis using s v1 drop_visible assms
      by (simp add: publish_with_def Let_def io_failure_def failure_def)
  next
    case (Inr u)
    have y1: "synced w1 (so_file s)" using sync_file_ok [of "so_file s" w] s Inr by simp
    show ?thesis
    proof (cases r2)
      case (Inl e)
      have "visible w2 = visible w" using persist_err [of "so_file s" "so_output s" w1 e] p Inl v1 by simp
      then show ?thesis using s p \<open>r1 = Inr u\<close> Inl drop_visible assms
        by (simp add: publish_with_def Let_def io_failure_def failure_def)
    next
      case r2: (Inr u2)
      have w2: "visible w2 (so_output s) = visible w (so_file s)" "synced w2 (so_output s)"
        using persist_ok [of "so_file s" "so_output s" w1] p r2 y1 v1 by simp_all
      have w3: "visible w3 = visible w2" "synced w3 (so_output s)"
        using sync_parent_visible [of "parent (so_output s)" w2]
          sync_parent_synced [OF w2(2), of "parent (so_output s)"] d by simp_all
      show ?thesis using s p d Inr r2 w2 w3
        by (cases r3) (simp_all add: publish_with_def Let_def io_failure_def failure_def)
    qed
  qed
qed

lemma publish_stuck: "stuck (snd (publish_with io s w)) = stuck w"
proof -
  obtain r1 w1 where s: "sync_file io (so_file s) w = (r1, w1)" by fastforce
  obtain r2 w2 where p: "persist io (so_file s) (so_output s) w1 = (r2, w2)" by fastforce
  obtain r3 w3 where d: "sync_parent io (parent (so_output s)) w2 = (r3, w3)" by fastforce
  show ?thesis
    using s p d stuck_stays(1) [of "so_file s" w] stuck_stays(2) [of "so_file s" "so_output s" w1]
      stuck_stays(3) [of "parent (so_output s)" w2] stuck_stays(4)
    by (cases r1; cases r2; cases r3) (simp_all add: publish_with_def Let_def)
qed

lemma publish_leftover:
  assumes "so_file s \<noteq> so_output s"
  shows "visible (snd (publish_with io s w)) (so_file s) =
    (if stuck w \<and> visible (snd (publish_with io s w)) (so_file s) \<noteq> None
     then visible w (so_file s) else None)"
proof -
  obtain r1 w1 where s: "sync_file io (so_file s) w = (r1, w1)" by fastforce
  obtain r2 w2 where p: "persist io (so_file s) (so_output s) w1 = (r2, w2)" by fastforce
  obtain r3 w3 where d: "sync_parent io (parent (so_output s)) w2 = (r3, w3)" by fastforce
  have v1: "visible w1 = visible w" "stuck w1 = stuck w"
    using sync_file_visible [of "so_file s" w] stuck_stays(1) [of "so_file s" w] s by simp_all
  have v2: "stuck w2 = stuck w" using stuck_stays(2) [of "so_file s" "so_output s" w1] p v1 by simp
  have v3: "visible w3 = visible w2" using sync_parent_visible [of "parent (so_output s)" w2] d by simp
  show ?thesis
  proof (cases r1)
    case (Inl e)
    then show ?thesis using s v1 drop_visible by (simp add: publish_with_def Let_def)
  next
    case r1: (Inr u)
    show ?thesis
    proof (cases r2)
      case (Inl e)
      have "visible w2 = visible w" using persist_err [of "so_file s" "so_output s" w1 e] p Inl v1 by simp
      then show ?thesis using s p r1 Inl v2 drop_visible by (simp add: publish_with_def Let_def)
    next
      case (Inr u2)
      have "visible w2 (so_file s) = None"
        using persist_ok [of "so_file s" "so_output s" w1] p Inr assms by simp
      then show ?thesis using s p d r1 Inr v3 by (cases r3) (simp_all add: publish_with_def Let_def)
    qed
  qed
qed

end

subsection \<open>\<open>Filesystem\<close>\<close>

text \<open>
  A POSIX file system as far as publication sees it: what each path shows, whether the
  shown contents have been synchronised, the plan of which coming system calls fail, and
  whether removing a temporary file fails, which its destructor ignores.
\<close>

record fs =
  fs_files :: "file_path \<Rightarrow> string option"
  fs_synced :: "file_path \<Rightarrow> bool"
  fs_faults :: "foreign option list"
  fs_stuck :: bool

definition syscall :: "(fs \<Rightarrow> fs) \<Rightarrow> fs \<Rightarrow> (foreign + unit) \<times> fs" where
  "syscall act w =
     (case fs_faults w of
        Some e # rest \<Rightarrow> (Inl e, w\<lparr>fs_faults := rest\<rparr>)
      | None # rest \<Rightarrow> (Inr (), act (w\<lparr>fs_faults := rest\<rparr>))
      | [] \<Rightarrow> (Inr (), act w))"

definition fs_sync_all :: "file_path \<Rightarrow> fs \<Rightarrow> (foreign + unit) \<times> fs" where
  "fs_sync_all f = syscall (\<lambda>w. w\<lparr>fs_synced := (fs_synced w)(f := True)\<rparr>)"

definition fs_rename :: "file_path \<Rightarrow> file_path \<Rightarrow> fs \<Rightarrow> (foreign + unit) \<times> fs" where
  "fs_rename f out =
     syscall (\<lambda>w. w\<lparr>fs_files := (fs_files w)(f := None, out := fs_files w f),
                    fs_synced := (fs_synced w)(out := fs_synced w f)\<rparr>)"

definition fs_open :: "file_path \<Rightarrow> fs \<Rightarrow> (foreign + unit) \<times> fs" where
  "fs_open p = syscall (\<lambda>w. w)"

text \<open>\<open>impl PublicationIo for Filesystem\<close>.\<close>

definition filesystem_sync_parent :: "file_path \<Rightarrow> fs \<Rightarrow> (foreign + unit) \<times> fs" where
  "filesystem_sync_parent p w =
     (case fs_open p w of
        (Inl e, w') \<Rightarrow> (Inl e, w')
      | (Inr _, w') \<Rightarrow> fs_sync_all p w')"

definition filesystem :: "fs publication_io" where
  "filesystem =
     \<lparr>sync_file = fs_sync_all, persist = fs_rename, sync_parent = filesystem_sync_parent,
      drop_temp = (\<lambda>f w. if fs_stuck w then w else w\<lparr>fs_files := (fs_files w)(f := None)\<rparr>)\<rparr>"

definition publish :: "staged_output \<Rightarrow> fs \<Rightarrow> (pipeline_error + unit) \<times> fs" where
  "publish self = publish_with filesystem self"

lemmas filesystem_defs = filesystem_def fs_sync_all_def fs_rename_def fs_open_def syscall_def
  filesystem_sync_parent_def

interpretation local_fs: publication_io filesystem fs_files fs_synced fs_stuck
  by unfold_locales
    (auto simp: filesystem_defs split: list.splits option.splits prod.splits sum.splits)

text \<open>
  C8. Local publication tells the truth about the destination: after success it shows the
  complete, synchronised staged contents; after a failure reported as not published it
  shows what it showed before; after one reported as published with uncertain durability
  it shows the complete synchronised contents.  No system call failure leaves a mixture.
\<close>

theorem publish_truthful:
  assumes "so_file s \<noteq> so_output s"
  shows "case publish s w of
      (Inr _, w') \<Rightarrow> fs_files w' (so_output s) = fs_files w (so_file s) \<and> fs_synced w' (so_output s)
    | (Inl e, w') \<Rightarrow> \<exists>phase outcome src. e = LocalPublication phase outcome (so_output s) src \<and>
        (case outcome of
           NotPublished \<Rightarrow> fs_files w' (so_output s) = fs_files w (so_output s)
         | PublishedDurabilityUncertain \<Rightarrow>
             fs_files w' (so_output s) = fs_files w (so_file s) \<and> fs_synced w' (so_output s))"
  unfolding publish_def by (rule local_fs.publish_result [OF assms])

lemma publish_truthful_witness:
  "fs_files (snd (publish \<lparr>so_file = ''out/.datacrate-1'', so_output = ''out/o''\<rparr>
       \<lparr>fs_files = [''out/.datacrate-1'' \<mapsto> ''new''], fs_synced = (\<lambda>_. False),
        fs_faults = [None, None, None, Some ''EIO''], fs_stuck = True\<rparr>)) ''out/o'' = Some ''new''"
proof -
  let ?s = "\<lparr>so_file = ''out/.datacrate-1'', so_output = ''out/o''\<rparr>"
  let ?w = "\<lparr>fs_files = [''out/.datacrate-1'' \<mapsto> ''new''], fs_synced = (\<lambda>_. False),
        fs_faults = [None, None, None, Some ''EIO''], fs_stuck = True\<rparr>"
  have run: "fst (publish ?s ?w) = Inl (LocalPublication ParentSync PublishedDurabilityUncertain
      ''out/o'' (OpenOutput ''out/o'' ''EIO''))"
    by (simp add: publish_def publish_with_def Let_def filesystem_defs io_failure_def failure_def)
  have "so_file ?s \<noteq> so_output ?s" by simp
  from publish_truthful [OF this, of ?w] run show ?thesis
    by (cases "publish ?s ?w") (auto split: sum.splits)
qed

text \<open>
  Whatever fails, publication changes nothing but the staging file and the destination, and
  it leaves the staging file behind only as it was and only where removing it failed.
\<close>

theorem publish_no_staging_left:
  assumes "so_file s \<noteq> so_output s"
  shows "(\<not> fs_stuck w \<longrightarrow> fs_files (snd (publish s w)) (so_file s) = None) \<and>
    (fs_files (snd (publish s w)) (so_file s) = None \<or>
     fs_files (snd (publish s w)) (so_file s) = fs_files w (so_file s)) \<and>
    (\<forall>p. p \<noteq> so_file s \<longrightarrow> p \<noteq> so_output s \<longrightarrow> fs_files (snd (publish s w)) p = fs_files w p)"
proof (intro conjI)
  note left = local_fs.publish_leftover [OF assms, of w, folded publish_def]
  from left show "\<not> fs_stuck w \<longrightarrow> fs_files (snd (publish s w)) (so_file s) = None" by argo
  from left show "fs_files (snd (publish s w)) (so_file s) = None \<or>
     fs_files (snd (publish s w)) (so_file s) = fs_files w (so_file s)" by metis
  show "\<forall>p. p \<noteq> so_file s \<longrightarrow> p \<noteq> so_output s \<longrightarrow> fs_files (snd (publish s w)) p = fs_files w p"
    by (auto simp: publish_def publish_with_def Let_def filesystem_defs
        split: list.split option.split sum.split prod.split)
qed

lemma publish_no_staging_left_witness:
  "fs_files (snd (publish \<lparr>so_file = ''t'', so_output = ''o''\<rparr>
     \<lparr>fs_files = [''t'' \<mapsto> ''new'', ''o'' \<mapsto> ''old''], fs_synced = (\<lambda>_. False),
      fs_faults = [None, Some ''EXDEV''], fs_stuck = False\<rparr>)) ''t'' = None"
  using publish_no_staging_left [of "\<lparr>so_file = ''t'', so_output = ''o''\<rparr>" "\<lparr>fs_files = [''t'' \<mapsto> ''new'', ''o'' \<mapsto> ''old''],
     fs_synced = (\<lambda>_. False), fs_faults = [None, Some ''EXDEV''], fs_stuck = False\<rparr>"] by simp

end
