(* ===== verification/Bounded.thy ===== *)
theory Bounded
  imports TransportSystem CancellationToken Manifest Staging
begin

text \<open>
  The bounded pipeline (\<open>pipeline/src/bounded.rs\<close>): a producer thread that reads rows and
  sends batches, a consumer thread that receives, transforms, checks and writes them, and
  the driver that stages and publishes the output.  The threads meet in the channel and in
  the cancellation flag only, so each is a function of what those answer it: the results
  of its sends or receives in order, and the flag at each of its checks.  \<open>None\<close> means that
  the thread has not returned: the answers given end while it waits for one.
\<close>

subsection \<open>Configuration and report\<close>

record pipeline_config =
  pc_batch_size :: nat
  pc_channel_capacity :: nat
  pc_max_admitted_bytes :: "nat option"
  pc_compression :: string

definition default_config :: pipeline_config where
  "default_config = \<lparr>pc_batch_size = 1000, pc_channel_capacity = 4, pc_max_admitted_bytes = None,
     pc_compression = ''SNAPPY''\<rparr>"

record pipeline_report =
  batches_written :: nat
  rows_written :: nat
  report_digest :: u64
  admitted_bytes :: "nat option"
  peak_admitted_bytes :: "nat option"

definition default_report :: pipeline_report where
  "default_report = \<lparr>batches_written = 0, rows_written = 0, report_digest = 0,
     admitted_bytes = None, peak_admitted_bytes = None\<rparr>"

definition accumulate_batch_stats ::
  "'h hasher \<Rightarrow> pipeline_report \<Rightarrow> checked_batch \<Rightarrow> pipeline_report" where
  "accumulate_batch_stats H report checked =
     report\<lparr>batches_written := batches_written report + 1,
       rows_written := rows_written report + b_rows (cb_batch checked),
       report_digest := accumulate_batch_digest H (report_digest report) checked\<rparr>"

subsection \<open>The producer\<close>

type_synonym item = "pipeline_io_error + ingest_batch"
type_synonym builder = "arrow_schema \<Rightarrow> ingest_array list \<Rightarrow> foreign + ingest_batch"

text \<open>
  The result, what was sent, and whether the thread stopped because a check saw the flag.
  \<open>cancelled i\<close> is the answer to the check before record \<open>i\<close> (or after the last one).
\<close>

type_synonym production = "(pipeline_error + unit) \<times> item list \<times> bool"

definition send_last :: "item \<Rightarrow> (pipeline_error + unit) list \<Rightarrow> production option" where
  "send_last item answers =
     (case answers of [] \<Rightarrow> None | answer # _ \<Rightarrow> Some (answer, [item], False))"

fun produce_loop ::
  "builder \<Rightarrow> nat \<Rightarrow> (nat \<Rightarrow> bool) \<Rightarrow> nat \<Rightarrow> (foreign + string list) list \<Rightarrow> row list \<Rightarrow>
   (pipeline_error + unit) list \<Rightarrow> production option" where
  "produce_loop try_new batch_size cancelled i [] chunk answers =
     (if chunk \<noteq> [] \<and> \<not> cancelled i then send_last (batch_from_rows try_new chunk) answers
      else Some (Inr (), [], chunk \<noteq> []))"
| "produce_loop try_new batch_size cancelled i (record # records) chunk answers =
     (if cancelled i then Some (Inr (), [], True)
      else (case and_then (map_err ReadRecord record) (parse_row i) of
              Inl err \<Rightarrow> send_last (Inl err) answers
            | Inr row \<Rightarrow>
                (let chunk = chunk @ [row]
                 in if length chunk = batch_size then
                      (let batch = batch_from_rows try_new chunk
                       in case answers of
                            [] \<Rightarrow> None
                          | Inl e # _ \<Rightarrow> Some (Inl e, [batch], False)
                          | Inr _ # answers \<Rightarrow>
                              (case produce_loop try_new batch_size cancelled (i + 1) records [] answers of
                                 None \<Rightarrow> None
                               | Some (r, sent, stopped) \<Rightarrow> Some (r, batch # sent, stopped)))
                    else produce_loop try_new batch_size cancelled (i + 1) records chunk answers)))"

definition produce_batches ::
  "builder \<Rightarrow> file_path \<Rightarrow> foreign + (foreign + string list) list \<Rightarrow> nat \<Rightarrow> (nat \<Rightarrow> bool) \<Rightarrow>
   (pipeline_error + unit) list \<Rightarrow> production option" where
  "produce_batches try_new path opened batch_size cancelled answers =
     (case opened of
        Inl source \<Rightarrow> send_last (Inl (OpenInput path source)) answers
      | Inr records \<Rightarrow> produce_loop try_new batch_size cancelled 0 records [] answers)"

subsection \<open>The consumer\<close>

text \<open>
  What the surroundings answer the consumer: the flag at its checks (the first one, then
  one after each receive), its receives, the transport's state when a lease is transformed,
  and the Parquet writer.
\<close>

record consumer_env =
  ce_cancelled :: "nat \<Rightarrow> bool"
  ce_recvs :: "(pipeline_error + ingest_batch batch_lease option) list"
  ce_sizes :: "ingest_batch \<Rightarrow> nat list"
  ce_control :: control
  ce_transport :: "nat \<Rightarrow> ingest_batch transport_state"
  ce_write :: "nat \<Rightarrow> foreign + unit"
  ce_close :: "foreign + unit"

type_synonym callback = "ingest_batch \<Rightarrow> pipeline_io_error + ingest_batch"

definition transform_lease ::
  "consumer_env \<Rightarrow> callback option \<Rightarrow> nat \<Rightarrow> ingest_batch batch_lease \<Rightarrow>
   (pipeline_error + ingest_batch batch_lease) option" where
  "transform_lease env f n lease =
     (case f of
        None \<Rightarrow> Some (Inr lease)
      | Some f \<Rightarrow>
          map_option fst (transform (ce_sizes env) (ce_control env)
            (\<lambda>batch. map_err (Callback Transform n) (f batch)) lease (ce_transport env n)))"

type_synonym consumption = "(pipeline_error + pipeline_report) \<times> ingest_batch list"

fun consume_loop ::
  "'h hasher \<Rightarrow> consumer_env \<Rightarrow> file_path \<Rightarrow> callback option \<Rightarrow> pipeline_report \<Rightarrow>
   (pipeline_error + ingest_batch batch_lease option) list \<Rightarrow> consumption option" where
  "consume_loop H env output f report [] = None"
| "consume_loop H env output f report (received # recvs) =
     (let n = batches_written report
      in case received of
           Inl e \<Rightarrow> Some (Inl e, [])
         | Inr None \<Rightarrow>
             (if ce_cancelled env (n + 1) then Some (Inl Cancelled, [])
              else (case ce_close env of
                      Inl source \<Rightarrow> Some (Inl (failure output Close (WriteParquet source)), [])
                    | Inr _ \<Rightarrow> Some (Inr report, [])))
         | Inr (Some lease) \<Rightarrow>
             (if ce_cancelled env (n + 1) then Some (Inl Cancelled, [])
              else (case transform_lease env f n lease of
                      None \<Rightarrow> None
                    | Some (Inl e) \<Rightarrow> Some (Inl e, [])
                    | Some (Inr lease) \<Rightarrow>
                        (let (batch, _) = into_parts lease
                         in case checked_try_new batch of
                              Inl e \<Rightarrow> Some (Inl (Io e), [])
                            | Inr checked \<Rightarrow>
                                (case ce_write env n of
                                   Inl source \<Rightarrow> Some (Inl (failure output Write (WriteParquet source)), [])
                                 | Inr _ \<Rightarrow>
                                     map_option (\<lambda>(r, written). (r, cb_batch checked # written))
                                       (consume_loop H env output f
                                          (accumulate_batch_stats H report checked) recvs))))))"

definition consume_batches ::
  "'h hasher \<Rightarrow> consumer_env \<Rightarrow> file_path \<Rightarrow> callback option \<Rightarrow> consumption option" where
  "consume_batches H env output f =
     (if ce_cancelled env 0 then Some (Inl Cancelled, [])
      else consume_loop H env output f default_report (ce_recvs env))"

subsection \<open>The driver\<close>

text \<open>
  The rest of the surroundings: the flag before the run and after the threads have joined,
  creating and reopening the staging file, creating the Parquet writer, the encoding of
  the batches written, and the transport's counters at the end.
\<close>

record driver_env =
  de_cancelled_first :: bool
  de_cancelled_last :: bool
  de_tempfile_in :: "file_path \<Rightarrow> fs \<Rightarrow> (foreign + file_path) \<times> fs"
  de_reopen :: "file_path \<Rightarrow> fs \<Rightarrow> (foreign + unit) \<times> fs"
  de_parquet_writer :: "pipeline_io_error + unit"
  de_encode :: "ingest_batch list \<Rightarrow> string"
  de_metrics :: "nat \<times> nat"

definition discard :: "staged_output \<Rightarrow> fs \<Rightarrow> fs" where
  "discard staging w = drop_temp filesystem (so_file staging) w"

definition with_metrics :: "pipeline_config \<Rightarrow> nat \<times> nat \<Rightarrow> pipeline_report \<Rightarrow> pipeline_report" where
  "with_metrics config counters report =
     (case pc_max_admitted_bytes config of
        None \<Rightarrow> report
      | Some _ \<Rightarrow> report\<lparr>admitted_bytes := Some (fst counters), peak_admitted_bytes := Some (snd counters)\<rparr>)"

definition run_bounded_pipeline ::
  "'h hasher \<Rightarrow> builder \<Rightarrow> driver_env \<Rightarrow> consumer_env \<Rightarrow> (nat \<Rightarrow> bool) \<Rightarrow> (pipeline_error + unit) list \<Rightarrow>
   file_path \<Rightarrow> foreign + (foreign + string list) list \<Rightarrow> file_path \<Rightarrow> pipeline_config \<Rightarrow>
   callback option \<Rightarrow> fs \<Rightarrow> ((pipeline_error + pipeline_report) \<times> fs) option" where
  "run_bounded_pipeline H try_new env cenv cancelled answers input opened output config f w =
     (if de_cancelled_first env then Some (Inl Cancelled, w)
      else case staged_new (de_tempfile_in env) output w of
        (Inl e, w1) \<Rightarrow> Some (Inl e, w1)
      | (Inr staging, w1) \<Rightarrow>
     (case staged_file (de_reopen env) staging w1 of
        (Inl e, w2) \<Rightarrow> Some (Inl e, discard staging w2)
      | (Inr _, w2) \<Rightarrow>
     (case de_parquet_writer env of
        Inl source \<Rightarrow> Some (Inl (failure output Write source), discard staging w2)
      | Inr _ \<Rightarrow>
     (case produce_batches try_new input opened (pc_batch_size config) cancelled answers of
        None \<Rightarrow> None
      | Some (production, _, _) \<Rightarrow>
     (case consume_batches H cenv output f of
        None \<Rightarrow> None
      | Some (result, written) \<Rightarrow>
          (let w3 = w2\<lparr>fs_files := (fs_files w2)(so_file staging \<mapsto> de_encode env written)\<rparr>
           in case and_then result (\<lambda>report. and_then production (\<lambda>_.
                     Inr (with_metrics config (de_metrics env) report))) of
                Inl e \<Rightarrow> Some (Inl e, discard staging w3)
              | Inr report \<Rightarrow>
                  (if de_cancelled_last env then Some (Inl Cancelled, discard staging w3)
                   else (case publish staging w3 of
                           (Inl e, w4) \<Rightarrow> Some (Inl e, w4)
                         | (Inr _, w4) \<Rightarrow> Some (Inr report, w4)))))))))"

subsection \<open>What the producer sends\<close>

text \<open>A thread that returned \<open>Ok\<close> saw only successful sends.\<close>

definition all_ok :: "(pipeline_error + unit) list \<Rightarrow> bool" where
  "all_ok answers \<longleftrightarrow> set answers \<subseteq> {Inr ()}"

lemma send_last_cases:
  "send_last item answers = Some (r, sent, stopped) \<longleftrightarrow>
     (\<exists>rest. answers = r # rest) \<and> sent = [item] \<and> \<not> stopped"
  by (auto simp: send_last_def split: list.split)

text \<open>One record that is read and parsed, filling the chunk or not.\<close>

lemma produce_full:
  assumes "\<not> cancelled i" and "and_then (map_err ReadRecord rd) (parse_row i) = Inr row"
    and "Suc (length chunk) = n"
  shows "produce_loop try_new n cancelled i (rd # records) chunk answers = Some (Inr (), sent, stopped) \<longleftrightarrow>
     (\<exists>rest sent'. answers = Inr () # rest \<and> sent = batch_from_rows try_new (chunk @ [row]) # sent' \<and>
        produce_loop try_new n cancelled (i + 1) records [] rest = Some (Inr (), sent', stopped))"
  using assms by (cases answers; cases "hd answers") (auto simp: Let_def split: option.split)

lemma produce_partial:
  assumes "\<not> cancelled i" and "and_then (map_err ReadRecord rd) (parse_row i) = Inr row"
    and "Suc (length chunk) \<noteq> n"
  shows "produce_loop try_new n cancelled i (rd # records) chunk answers =
     produce_loop try_new n cancelled (i + 1) records (chunk @ [row]) answers"
  using assms by (simp add: Let_def)

lemma produce_bad:
  assumes "\<not> cancelled i" and "and_then (map_err ReadRecord rd) (parse_row i) = Inl err"
  shows "produce_loop try_new n cancelled i (rd # records) chunk answers = send_last (Inl err) answers"
  using assms by simp

lemma produce_loop_acked:
  "produce_loop try_new n cancelled i records chunk answers = Some (Inr (), sent, stopped) \<Longrightarrow>
   length sent \<le> length answers \<and> all_ok (take (length sent) answers)"
proof (induction records arbitrary: i chunk answers sent)
  case Nil
  then show ?case by (auto simp: send_last_cases all_ok_def split: if_splits)
next
  case (Cons rd records)
  show ?case
  proof (cases "cancelled i")
    case True
    with Cons.prems show ?thesis by (auto simp: all_ok_def)
  next
    case go: False
    show ?thesis
    proof (cases "and_then (map_err ReadRecord rd) (parse_row i)")
      case (Inl err)
      with Cons.prems go show ?thesis by (auto simp: produce_bad send_last_cases all_ok_def)
    next
      case (Inr row)
      note full = produce_full [of cancelled i, OF go Inr] and partial = produce_partial [of cancelled i, OF go Inr]
      show ?thesis
      proof (cases "Suc (length chunk) = n")
        case True
        with Cons.prems full obtain rest sent' where ans: "answers = Inr () # rest"
            and sent: "sent = batch_from_rows try_new (chunk @ [row]) # sent'"
            and again: "produce_loop try_new n cancelled (i + 1) records [] rest = Some (Inr (), sent', stopped)"
          by blast
        from Cons.IH [OF again] show ?thesis by (auto simp: ans sent all_ok_def)
      next
        case False
        with Cons.prems partial Cons.IH show ?thesis by simp
      qed
    qed
  qed
qed

lemma produce_acked:
  assumes "produce_batches try_new path opened n cancelled answers = Some (Inr (), sent, stopped)"
  shows "length sent \<le> length answers" and "all_ok (take (length sent) answers)"
  using assms produce_loop_acked
  by (auto simp: produce_batches_def send_last_cases all_ok_def split: sum.splits)

text \<open>
  A thread that ran to the end of a readable file without seeing the flag sent its rows in
  batches of the configured size.
\<close>

lemma produce_loop_sends:
  "produce_loop try_new n cancelled i records chunk answers = Some (Inr (), sent, False) \<Longrightarrow>
   length chunk < n \<Longrightarrow> Ball (set sent) (\<lambda>x. \<exists>b. x = Inr b) \<Longrightarrow>
   \<exists>rows. collect_rows parse_row i records = Inr rows \<and>
     sent = map (batch_from_rows try_new) (chunks n (chunk @ rows))"
proof (induction records arbitrary: i chunk answers sent)
  case Nil
  then show ?case
    by (cases "chunk = []")
      (auto simp: send_last_cases chunks.simps [of n chunk] chunks.simps [of n "[]"] split: if_splits)
next
  case (Cons rd records)
  have go: "\<not> cancelled i" using Cons.prems(1) by (auto split: if_splits)
  obtain row where row: "and_then (map_err ReadRecord rd) (parse_row i) = Inr row"
    using Cons.prems(1,3) go
    by (cases "and_then (map_err ReadRecord rd) (parse_row i)") (auto simp: send_last_cases)
  have collect: "collect_rows parse_row i (rd # records) = Inr (row # rows)"
    if "collect_rows parse_row (i + 1) records = Inr rows" for rows
    using that row by (cases rd) auto
  note full = produce_full [of cancelled i, OF go row] and partial = produce_partial [of cancelled i, OF go row]
  show ?case
  proof (cases "Suc (length chunk) = n")
    case True
    with Cons.prems(1) full obtain rest sent' where sent: "sent = batch_from_rows try_new (chunk @ [row]) # sent'"
        and again: "produce_loop try_new n cancelled (i + 1) records [] rest = Some (Inr (), sent', False)"
      by blast
    from Cons.IH [OF again] Cons.prems(3) True obtain rows where
        "collect_rows parse_row (i + 1) records = Inr rows" "sent' = map (batch_from_rows try_new) (chunks n rows)"
      by (auto simp: sent)
    moreover have "chunks n (chunk @ row # rows) = (chunk @ [row]) # chunks n rows" for rows
      using True by (subst chunks.simps) auto
    ultimately show ?thesis using collect by (auto simp: sent)
  next
    case False
    with Cons.prems partial Cons.IH [of "i + 1" "chunk @ [row]" answers sent] show ?thesis
      using collect by fastforce
  qed
qed

subsection \<open>What the consumer writes\<close>

definition apply_callback :: "callback option \<Rightarrow> callback" where
  "apply_callback f batch = (case f of None \<Rightarrow> Inr batch | Some f \<Rightarrow> f batch)"

lemma transform_batch:
  "transform sizes ctl f lease st = Some (Inr lease', st') \<Longrightarrow> f (bl_batch lease) = Inr (bl_batch lease')"
  by (auto simp: transform_def Let_def split: sum.splits option.splits if_splits)

lemma transform_lease_batch:
  "transform_lease env f n lease = Some (Inr lease') \<Longrightarrow>
   apply_callback f (bl_batch lease) = Inr (bl_batch lease')"
  using transform_batch
  by (fastforce simp: transform_lease_def apply_callback_def map_err_eq_Inr split: option.splits)

lemma checked_batch_same: "checked_try_new batch = Inr cb \<Longrightarrow> cb_batch cb = batch"
  by (auto simp: checked_try_new_def and_then_eq_Inr split: prod.splits)

definition writes_as :: "callback option \<Rightarrow> ingest_batch \<Rightarrow> checked_batch \<Rightarrow> bool" where
  "writes_as f batch cb \<longleftrightarrow>
     apply_callback f batch = Inr (cb_batch cb) \<and> checked_try_new (cb_batch cb) = Inr cb"

lemma consume_loop_ok:
  "consume_loop H env output f report recvs = Some (Inr report', written) \<Longrightarrow>
   \<exists>leases cbs rest. recvs = map (\<lambda>l. Inr (Some l)) leases @ Inr None # rest \<and>
     \<not> ce_cancelled env (batches_written report + length leases + 1) \<and>
     list_all2 (writes_as f) (map bl_batch leases) cbs \<and> written = map cb_batch cbs \<and>
     report' = foldl (accumulate_batch_stats H) report cbs"
proof (induction recvs arbitrary: report written)
  case (Cons received recvs)
  let ?n = "batches_written report"
  consider (failed) e where "received = Inl e" | (ended) "received = Inr None"
    | (batch) lease where "received = Inr (Some lease)"
    by (metis not_None_eq sum.exhaust_sel)
  then show ?case
  proof cases
    case failed
    with Cons.prems show ?thesis by (simp add: Let_def)
  next
    case ended
    with Cons.prems have "\<not> ce_cancelled env (?n + 1)" "written = []" "report' = report"
      by (auto simp: Let_def split: if_splits sum.splits)
    with ended show ?thesis
      by (intro exI [of _ "[]"] exI [of _ recvs]) simp
  next
    case batch
    then obtain lease' cb written' where tr: "transform_lease env f ?n lease = Some (Inr lease')"
        and cb: "checked_try_new (bl_batch lease') = Inr cb"
        and more: "consume_loop H env output f (accumulate_batch_stats H report cb) recvs = Some (Inr report', written')"
        and w: "written = cb_batch cb # written'"
      using Cons.prems
      by (auto simp: Let_def into_parts_def split: if_splits option.splits sum.splits)
    from Cons.IH [OF more] obtain leases cbs rest where
        rest: "recvs = map (\<lambda>l. Inr (Some l)) leases @ Inr None # rest"
        "\<not> ce_cancelled env (batches_written (accumulate_batch_stats H report cb) + length leases + 1)"
        "list_all2 (writes_as f) (map bl_batch leases) cbs" "written' = map cb_batch cbs"
        "report' = foldl (accumulate_batch_stats H) (accumulate_batch_stats H report cb) cbs"
      by blast
    have "writes_as f (bl_batch lease) cb"
      using transform_lease_batch [OF tr] cb checked_batch_same [OF cb] by (simp add: writes_as_def)
    moreover have "batches_written (accumulate_batch_stats H report cb) = Suc ?n"
      by (simp add: accumulate_batch_stats_def)
    ultimately show ?thesis using rest w batch
      by (intro exI [of _ "lease # leases"] exI [of _ "cb # cbs"] exI [of _ rest]) simp
  qed
qed simp

lemma foldl_stats:
  "foldl (accumulate_batch_stats H) report cbs =
     report\<lparr>batches_written := batches_written report + length cbs,
       rows_written := rows_written report + sum_list (map (\<lambda>cb. b_rows (cb_batch cb)) cbs),
       report_digest := foldl (accumulate_batch_digest H) (report_digest report) cbs\<rparr>"
  by (induction cbs arbitrary: report) (simp_all add: accumulate_batch_stats_def)

subsection \<open>The channel between them\<close>

text \<open>
  The payloads of a receiver's calls up to the end of the stream, and what the pipeline needs of either channel: if
  every send succeeded and the receiver saw the end of the stream, it received what was
  sent.  For the standard library's channel this is documented; for the budgeted one it
  follows from \<open>TransportSystem\<close>.
\<close>

fun payloads :: "(pipeline_error + 'b batch_lease option) list \<Rightarrow> (pipeline_io_error + 'b) list" where
  "payloads [] = []"
| "payloads (Inr (Some lease) # recvs) = Inr (bl_batch lease) # payloads recvs"
| "payloads (Inl (Io e) # recvs) = Inl e # payloads recvs"
| "payloads (Inr None # _) = []"
| "payloads (_ # recvs) = payloads recvs"

definition stream_contract ::
  "(pipeline_io_error + 'b) list \<Rightarrow> (pipeline_error + unit) list \<Rightarrow>
   (pipeline_error + 'b batch_lease option) list \<Rightarrow> bool" where
  "stream_contract sent answers recvs \<longleftrightarrow>
     (length sent \<le> length answers \<and> all_ok (take (length sent) answers) \<and> Inr None \<in> set recvs \<longrightarrow>
        payloads recvs = sent)"

text \<open>What one receive of the budgeted channel returns for a message.\<close>

definition received_of :: "'b message \<Rightarrow> pipeline_error + 'b batch_lease option" where
  "received_of m = map_err Io (case m of Inl e \<Rightarrow> Inl e | Inr lease \<Rightarrow> Inr (Some lease))"

definition item_of :: "'b message \<Rightarrow> pipeline_io_error + 'b" where
  "item_of m = (case m of Inl e \<Rightarrow> Inl e | Inr lease \<Rightarrow> Inr (bl_batch lease))"

lemma payloads_received: "payloads (map received_of ms @ rs) = map item_of ms @ payloads rs"
  by (induction ms) (auto simp: received_of_def item_of_def split: sum.split)

text \<open>
  A use of the budgeted channel: the sends of one thread that stops at its first failure,
  and the receives of another, read off a reachable state.
\<close>

definition budgeted_use ::
  "('b \<Rightarrow> nat list) \<Rightarrow> control \<Rightarrow> (pipeline_io_error + 'b) list \<Rightarrow> (pipeline_error + unit) list \<Rightarrow>
   (pipeline_error + 'b batch_lease option) list \<Rightarrow> bool" where
  "budgeted_use sizes ctl sent answers recvs \<longleftrightarrow>
     (\<exists>s. reachable (step sizes ctl) channel s \<and>
        subseq (map item_of (sy_offered s)) sent \<and>
        length (filter (\<lambda>a. a = Inr ()) (take (length sent) answers)) \<le> sy_acked s \<and>
        (recvs = map received_of (sy_delivered s) @ [Inr None] \<and> sy_closed s \<or>
         recvs = map received_of (sy_delivered s) \<or>
         recvs = map received_of (sy_delivered s) @ [Inl Cancelled]))"

lemma received_not_end [simp]: "received_of m \<noteq> Inr None" "Inr None \<noteq> received_of m"
  by (cases m; simp add: received_of_def)+

lemma all_ok_filter: "all_ok as \<Longrightarrow> filter (\<lambda>a. a = Inr ()) as = as"
  by (induction as) (auto simp: all_ok_def)

lemma acked_offered:
  assumes "reachable (step sizes ctl) channel s"
  shows "sy_acked s \<le> length (sy_offered s)"
  using budgeted.in_order [OF assms] list_emb_length by (metis le_trans)

lemma budgeted_stream_contract:
  assumes "budgeted_use sizes ctl sent answers recvs"
  shows "stream_contract sent answers recvs"
  unfolding stream_contract_def
proof (intro impI, elim conjE)
  assume len: "length sent \<le> length answers" and ok: "all_ok (take (length sent) answers)"
    and ended: "Inr None \<in> set recvs"
  from assms obtain s where reach: "reachable (step sizes ctl) channel s"
      and off: "subseq (map item_of (sy_offered s)) sent"
      and acked: "length (filter (\<lambda>a. a = Inr ()) (take (length sent) answers)) \<le> sy_acked s"
      and recvs: "recvs = map received_of (sy_delivered s) @ [Inr None]" and closed: "sy_closed s"
    using ended unfolding budgeted_use_def by auto
  have "length sent \<le> sy_acked s" using acked len all_ok_filter [OF ok] by simp
  moreover have "sy_acked s \<le> length (sy_offered s)" by (rule acked_offered [OF reach])
  moreover have "length (sy_offered s) \<le> length sent" using list_emb_length [OF off] by simp
  ultimately have "sy_acked s = length (sy_offered s)" "map item_of (sy_offered s) = sent"
    using subseq_same_length [OF off] by auto
  with budgeted.complete [OF reach closed] show "payloads recvs = sent"
    by (simp add: recvs payloads_received)
qed

subsection \<open>The whole run\<close>

text \<open>
  The flag only ever rises: if a check of the producer saw it, the consumer's check after
  the end of the stream, which comes later, sees it too.
\<close>

definition flag_stays ::
  "bool \<Rightarrow> consumer_env \<Rightarrow> bool" where
  "flag_stays stopped env \<longleftrightarrow>
     (\<forall>k < length (ce_recvs env). stopped \<and> ce_recvs env ! k = Inr None \<longrightarrow> ce_cancelled env (k + 1))"

text \<open>The two threads of a run share one channel and one flag.\<close>

definition threads_meet ::
  "builder \<Rightarrow> file_path \<Rightarrow> foreign + (foreign + string list) list \<Rightarrow> nat \<Rightarrow> (nat \<Rightarrow> bool) \<Rightarrow>
   (pipeline_error + unit) list \<Rightarrow> consumer_env \<Rightarrow> bool" where
  "threads_meet try_new input opened n cancelled answers cenv \<longleftrightarrow>
     (\<forall>r sent stopped. produce_batches try_new input opened n cancelled answers = Some (r, sent, stopped) \<longrightarrow>
        stream_contract sent answers (ce_recvs cenv) \<and> flag_stays stopped cenv)"

text \<open>A temporary file is a new, empty file beside the output; reopening it changes nothing.\<close>

definition fresh_tempfiles :: "driver_env \<Rightarrow> file_path \<Rightarrow> bool" where
  "fresh_tempfiles env output \<longleftrightarrow>
     (\<forall>dir w. case de_tempfile_in env dir w of
        (Inl _, w') \<Rightarrow> fs_files w' = fs_files w
      | (Inr file, w') \<Rightarrow> file \<noteq> output \<and> fs_files w file = None \<and> fs_files w' = (fs_files w)(file \<mapsto> '''')) \<and>
     (\<forall>file w. fs_files (snd (de_reopen env file w)) = fs_files w)"

lemma fresh_tempfile:
  "fresh_tempfiles env output \<Longrightarrow> de_tempfile_in env dir w = (Inr file, w') \<Longrightarrow>
   file \<noteq> output \<and> fs_files w file = None \<and> fs_files w' = (fs_files w)(file \<mapsto> '''')"
  unfolding fresh_tempfiles_def by (metis (mono_tags, lifting) prod.case sum.simps(6))

lemma payloads_batches:
  "payloads (map (\<lambda>l. Inr (Some l)) leases @ Inr None # rest) = map (Inr \<circ> bl_batch) leases"
  by (induction leases) auto

text \<open>What the consumer's success says of the producer's: every row of the file was written.\<close>

lemma threads_complete:
  assumes "produce_batches try_new input opened n cancelled answers = Some (Inr (), sent, stopped)"
    and "consume_batches H cenv output f = Some (Inr report, written)"
    and "stream_contract sent answers (ce_recvs cenv)" and "flag_stays stopped cenv"
    and "try_new_documented try_new" and "n > 0"
  shows "\<exists>rows cbs. read_csv_rows input opened parse_row = Inr rows \<and>
    list_all2 (writes_as f) (map (cb_batch \<circ> checked_of_rows) (chunks n rows)) cbs \<and>
    written = map cb_batch cbs \<and> report = foldl (accumulate_batch_stats H) default_report cbs"
proof -
  from assms(2) have "consume_loop H cenv output f default_report (ce_recvs cenv) = Some (Inr report, written)"
    by (auto simp: consume_batches_def split: if_splits)
  from consume_loop_ok [OF this] obtain leases cbs rest where
      recvs: "ce_recvs cenv = map (\<lambda>l. Inr (Some l)) leases @ Inr None # rest"
      and calm: "\<not> ce_cancelled cenv (length leases + 1)"
      and all2: "list_all2 (writes_as f) (map bl_batch leases) cbs"
      and out: "written = map cb_batch cbs" "report = foldl (accumulate_batch_stats H) default_report cbs"
    by (auto simp: default_report_def)
  have sent: "sent = map (Inr \<circ> bl_batch) leases"
    using assms(3) produce_acked [OF assms(1)] payloads_batches [of leases rest]
    by (simp add: stream_contract_def recvs)
  have "\<not> stopped"
    using assms(4) calm by (auto simp: flag_stays_def recvs nth_append dest!: spec [of _ "length leases"])
  with assms(1) sent obtain records where opened: "opened = Inr records"
      and loop: "produce_loop try_new n cancelled 0 records [] answers = Some (Inr (), sent, False)"
    by (auto simp: produce_batches_def send_last_cases split: sum.splits)
  from produce_loop_sends [OF loop] assms(6) obtain rows where
      rows: "collect_rows parse_row 0 records = Inr rows"
      "sent = map (batch_from_rows try_new) (chunks n rows)"
    by (auto simp: sent)
  have "map (Inr \<circ> bl_batch) leases = (map (Inr \<circ> (cb_batch \<circ> checked_of_rows)) (chunks n rows) :: item list)"
    using rows(2) unfolding sent batch_from_rows_ok [OF assms(5), abs_def] by (simp add: comp_def)
  then have "map Inr (map bl_batch leases) = (map Inr (map (cb_batch \<circ> checked_of_rows) (chunks n rows)) :: item list)"
    by (simp add: comp_assoc)
  then have "map bl_batch leases = map (cb_batch \<circ> checked_of_rows) (chunks n rows)"
    by (rule map_injective) (rule inj_Inr)
  with all2 out rows(1) opened show ?thesis by (auto simp: read_csv_rows_def)
qed

text \<open>The steps of a run that published, and of one that did not.\<close>

lemma run_published:
  assumes "run_bounded_pipeline H try_new env cenv cancelled answers input opened output config f w =
      Some (Inr report, w')"
  obtains staging w2 sent stopped base written where
    "staged_new (de_tempfile_in env) output w = (Inr staging, w2)"
    "produce_batches try_new input opened (pc_batch_size config) cancelled answers = Some (Inr (), sent, stopped)"
    "consume_batches H cenv output f = Some (Inr base, written)"
    "report = with_metrics config (de_metrics env) base"
    "publish staging ((snd (staged_file (de_reopen env) staging w2))\<lparr>fs_files :=
       (fs_files (snd (staged_file (de_reopen env) staging w2)))(so_file staging \<mapsto> de_encode env written)\<rparr>) = (Inr (), w')"
  using assms
  by (auto simp: run_bounded_pipeline_def Let_def and_then_eq_Inr split: if_splits prod.splits sum.splits option.splits)

lemma staged_new_Inr:
  "staged_new tempfile_in output w = (Inr staging, w1) \<longleftrightarrow>
     tempfile_in (parent output) w = (Inr (so_file staging), w1) \<and> so_output staging = output"
  by (cases staging) (auto simp: staged_new_def split: prod.splits sum.splits)

lemma run_complete:
  assumes run: "run_bounded_pipeline H try_new env cenv cancelled answers input opened output config f w =
      Some (Inr report, w')"
    and meet: "threads_meet try_new input opened (pc_batch_size config) cancelled answers cenv"
    and doc: "try_new_documented try_new" and size: "pc_batch_size config > 0"
    and temp: "fresh_tempfiles env output"
  shows "\<exists>rows cbs. read_csv_rows input opened parse_row = Inr rows \<and>
    list_all2 (writes_as f) (map (cb_batch \<circ> checked_of_rows) (chunks (pc_batch_size config) rows)) cbs \<and>
    fs_files w' output = Some (de_encode env (map cb_batch cbs)) \<and> fs_synced w' output \<and>
    batches_written report = length cbs \<and>
    rows_written report = sum_list (map (\<lambda>cb. b_rows (cb_batch cb)) cbs) \<and>
    report_digest report = foldl (accumulate_batch_digest H) 0 cbs"
proof -
  obtain staging w2 sent stopped base written where
    new: "staged_new (de_tempfile_in env) output w = (Inr staging, w2)"
    and prod: "produce_batches try_new input opened (pc_batch_size config) cancelled answers = Some (Inr (), sent, stopped)"
    and cons: "consume_batches H cenv output f = Some (Inr base, written)"
    and report: "report = with_metrics config (de_metrics env) base"
    and pub: "publish staging ((snd (staged_file (de_reopen env) staging w2))\<lparr>fs_files :=
       (fs_files (snd (staged_file (de_reopen env) staging w2)))(so_file staging \<mapsto> de_encode env written)\<rparr>) = (Inr (), w')"
    using run by (rule run_published)
  have "stream_contract sent answers (ce_recvs cenv)" "flag_stays stopped cenv"
    using meet prod by (auto simp: threads_meet_def)
  from threads_complete [OF prod cons this doc size] obtain rows cbs where
    rows: "read_csv_rows input opened parse_row = Inr rows"
    "list_all2 (writes_as f) (map (cb_batch \<circ> checked_of_rows) (chunks (pc_batch_size config) rows)) cbs"
    and out: "written = map cb_batch cbs" "base = foldl (accumulate_batch_stats H) default_report cbs"
    by blast
  have "so_output staging = output" and apart: "so_file staging \<noteq> so_output staging"
    using new fresh_tempfile [OF temp] by (auto simp: staged_new_Inr)
  with local_fs.publish_result [OF apart, of "snd (staged_file (de_reopen env) staging w2)\<lparr>fs_files :=
       (fs_files (snd (staged_file (de_reopen env) staging w2)))(so_file staging \<mapsto> de_encode env written)\<rparr>"]
    pub out(1)
  have "fs_files w' output = Some (de_encode env (map cb_batch cbs))" "fs_synced w' output"
    by (simp_all add: publish_def)
  with rows out(2) report show ?thesis
    by (intro exI [of _ rows] exI [of _ cbs])
      (simp add: with_metrics_def foldl_stats default_report_def split: option.split)
qed

text \<open>
  C1. No truncated output is ever published as a success.  Whatever the interleaving,
  wherever cancellation strikes and whatever fails, if the run reports success then the
  whole file was read and parsed, the output holds, durably, the encoding of all its rows
  in batches of the configured size, each as the callback returned it and checked, and the
  report counts exactly those batches, their rows and their digest.
\<close>

theorem no_truncated_output:
  assumes run: "run_bounded_pipeline H try_new env cenv cancelled answers input opened output config f w =
      Some (Inr report, w')"
    and meet: "threads_meet try_new input opened (pc_batch_size config) cancelled answers cenv"
    and doc: "try_new_documented try_new" and size: "pc_batch_size config > 0"
    and temp: "fresh_tempfiles env output"
  shows "\<exists>rows cbs. read_csv_rows input opened parse_row = Inr rows \<and>
    list_all2 (writes_as f) (map (cb_batch \<circ> checked_of_rows) (chunks (pc_batch_size config) rows)) cbs \<and>
    fs_files w' output = Some (de_encode env (map cb_batch cbs)) \<and> fs_synced w' output \<and>
    batches_written report = length cbs \<and>
    rows_written report = sum_list (map (\<lambda>cb. b_rows (cb_batch cb)) cbs) \<and>
    report_digest report = foldl (accumulate_batch_digest H) 0 cbs"
  by (rule run_complete [OF run meet doc size temp])

text \<open>A run over one row, with the standard library's channel.\<close>

definition sample_row :: row where
  "sample_row = \<lparr>r_id = 1, r_name = ''a'', r_note = None\<rparr>"

definition sample_driver :: driver_env where
  "sample_driver = \<lparr>de_cancelled_first = False, de_cancelled_last = False,
     de_tempfile_in = (\<lambda>dir w. if fs_files w ''out/t'' = None
        then (Inr ''out/t'', w\<lparr>fs_files := (fs_files w)(''out/t'' \<mapsto> '''')\<rparr>) else (Inl ''EEXIST'', w)),
     de_reopen = (\<lambda>_ w. (Inr (), w)), de_parquet_writer = Inr (),
     de_encode = (\<lambda>bs. replicate (length bs) CHR ''p''), de_metrics = (0, 0)\<rparr>"

definition sample_consumer :: consumer_env where
  "sample_consumer = \<lparr>ce_cancelled = (\<lambda>_. False),
     ce_recvs = [Inr (Some (uncharged (cb_batch (checked_of_rows [sample_row])))), Inr None],
     ce_sizes = (\<lambda>_. []), ce_control = \<lparr>ct_capacity = 1, ct_limit = 0\<rparr>,
     ce_transport = (\<lambda>_. channel_state), ce_write = (\<lambda>_. Inr ()), ce_close = Inr ()\<rparr>"

definition sample_fs :: fs where
  "sample_fs = \<lparr>fs_files = [''out/o'' \<mapsto> ''old''], fs_synced = (\<lambda>_. False), fs_faults = [], fs_stuck = False\<rparr>"

definition sample_config :: pipeline_config where
  "sample_config = default_config\<lparr>pc_batch_size := 1\<rparr>"

lemma sample_fresh: "fresh_tempfiles sample_driver ''out/o''"
  by (simp add: fresh_tempfiles_def sample_driver_def)

lemma sample_production:
  "produce_batches arrow_try_new ''in'' (Inr [Inr [''1'', ''a'', '''']]) 1 (\<lambda>_. False) [Inr ()] =
     Some (Inr (), [Inr (cb_batch (checked_of_rows [sample_row]))], False)"
  by (simp add: produce_batches_def parse_row_def parse_id_def get_field_def parse_i64_def parse_signed_def
      is_ascii_digit_def in_i64_def Let_def batch_from_rows_ok [OF arrow_try_new_documented] sample_row_def)

lemma sample_meets:
  "threads_meet arrow_try_new ''in'' (Inr [Inr [''1'', ''a'', '''']]) 1 (\<lambda>_. False) [Inr ()] sample_consumer"
  unfolding threads_meet_def sample_production
  by (simp add: stream_contract_def flag_stays_def sample_consumer_def uncharged_def)

lemma sample_run:
  "\<exists>report w'. run_bounded_pipeline sample_hasher arrow_try_new sample_driver sample_consumer (\<lambda>_. False)
     [Inr ()] ''in'' (Inr [Inr [''1'', ''a'', '''']]) ''out/o'' sample_config None sample_fs = Some (Inr report, w')"
  using sample_production
  by (simp add: run_bounded_pipeline_def sample_driver_def sample_consumer_def sample_config_def
      sample_fs_def default_config_def staged_new_def staged_file_def consume_batches_def Let_def
      transform_lease_def into_parts_def uncharged_def checked_of_rows_ok publish_def publish_with_def
      filesystem_defs)

lemma no_truncated_output_witness:
  "\<exists>report w' cbs. run_bounded_pipeline sample_hasher arrow_try_new sample_driver sample_consumer (\<lambda>_. False)
     [Inr ()] ''in'' (Inr [Inr [''1'', ''a'', '''']]) ''out/o'' sample_config None sample_fs = Some (Inr report, w') \<and>
     fs_files w' ''out/o'' = Some (replicate (length cbs) CHR ''p'') \<and> batches_written report = length (cbs :: checked_batch list)"
proof -
  obtain report w' where run: "run_bounded_pipeline sample_hasher arrow_try_new sample_driver sample_consumer (\<lambda>_. False)
     [Inr ()] ''in'' (Inr [Inr [''1'', ''a'', '''']]) ''out/o'' sample_config None sample_fs = Some (Inr report, w')"
    using sample_run by blast
  have one: "pc_batch_size sample_config = 1" by (simp add: sample_config_def default_config_def)
  obtain cbs :: "checked_batch list" where
    "fs_files w' ''out/o'' = Some (de_encode sample_driver (map cb_batch cbs))" "batches_written report = length cbs"
    using no_truncated_output [OF run _ arrow_try_new_documented _ sample_fresh] sample_meets
    by (auto simp: one)
  with run show ?thesis by (intro exI [of _ report] exI [of _ w'] exI [of _ cbs]) (simp add: sample_driver_def)
qed

subsection \<open>Failed runs\<close>

lemma publish_changes:
  assumes "so_file s \<noteq> so_output s"
  shows "p \<noteq> so_output s \<Longrightarrow> p \<noteq> so_file s \<Longrightarrow> fs_files (snd (publish s w)) p = fs_files w p"
  by (auto simp: publish_def publish_with_def Let_def filesystem_defs
      split: list.split option.split sum.split prod.split)

text \<open>
  Every way a run can end, over the file system after the staging file was created.
\<close>

lemma run_ends:
  assumes run: "run_bounded_pipeline H try_new env cenv cancelled answers input opened output config f w =
      Some (result, w')"
    and temp: "fresh_tempfiles env output"
  shows "(fs_files w' = fs_files w \<and> (\<forall>report. result \<noteq> Inr report)) \<or>
    (\<exists>staging c. staging \<noteq> output \<and> fs_files w staging = None \<and> fs_stuck w' \<and>
       fs_files w' = (fs_files w)(staging \<mapsto> c) \<and> (\<forall>report. result \<noteq> Inr report)) \<or>
    (\<exists>staging w3 r. so_output staging = output \<and> so_file staging \<noteq> output \<and> fs_files w (so_file staging) = None \<and>
       (\<forall>p. p \<noteq> so_file staging \<longrightarrow> fs_files w3 p = fs_files w p) \<and> publish staging w3 = (r, w') \<and>
       (\<forall>e. result = Inl e \<longrightarrow> r = Inl e))"
proof -
  have reopened: "fs_files v' = fs_files v" if "staged_file (de_reopen env) staging v = (r, v')" for staging v r v'
    using temp that unfolding fresh_tempfiles_def staged_file_def
    by (auto split: prod.splits sum.splits) (metis snd_conv)+
  have dropped: "fs_files (discard staging v) =
      (if fs_stuck v then fs_files v else (fs_files v)(so_file staging := None))"
      "fs_stuck (discard staging v) = fs_stuck v" for staging v
    by (simp_all add: discard_def filesystem_def)
  show ?thesis
  proof (cases "de_cancelled_first env")
    case True
    then show ?thesis using run by (auto simp: run_bounded_pipeline_def)
  next
    case False
    obtain r1 w1 where new: "staged_new (de_tempfile_in env) output w = (r1, w1)" by fastforce
    show ?thesis
    proof (cases r1)
      case (Inl e)
      then have "fs_files w1 = fs_files w"
        using new temp unfolding fresh_tempfiles_def staged_new_def
        by (auto split: prod.splits sum.splits) (metis (mono_tags, lifting) prod.case sum.simps(5))
      then show ?thesis using run new Inl False by (auto simp: run_bounded_pipeline_def)
    next
      case (Inr staging)
      then have s: "so_output staging = output" "so_file staging \<noteq> output" "fs_files w (so_file staging) = None"
          and w1: "fs_files w1 = (fs_files w)(so_file staging \<mapsto> '''')"
        using new fresh_tempfile [OF temp] by (auto simp: staged_new_Inr)
      obtain r2 w2 where opn: "staged_file (de_reopen env) staging w1 = (r2, w2)" by fastforce
      have w2: "fs_files w2 = (fs_files w)(so_file staging \<mapsto> '''')" using reopened [OF opn] w1 by simp
      define W where "W = (\<lambda>c. w2\<lparr>fs_files := (fs_files w2)(so_file staging \<mapsto> c)\<rparr>)"
      have undone: "fs_files v' = fs_files w \<or>
          (\<exists>staging c. staging \<noteq> output \<and> fs_files w staging = None \<and> fs_stuck v' \<and>
             fs_files v' = (fs_files w)(staging \<mapsto> c))"
          if "v' = discard staging (W c) \<or> v' = discard staging w2" for c v'
      proof -
        have "fs_files v' = (if fs_stuck v' then (fs_files w)(so_file staging \<mapsto> d) else fs_files w)"
          if "v' = discard staging v" "fs_files v = (fs_files w)(so_file staging \<mapsto> d)" for v d
          using that s(3) by (auto simp: dropped)
        moreover have "fs_files (W c) = (fs_files w)(so_file staging \<mapsto> c)" by (simp add: W_def w2)
        ultimately show ?thesis using that w2 s(2,3) by metis
      qed
      have staged: "p \<noteq> so_file staging \<Longrightarrow> fs_files (W c) p = fs_files w p" for p c
        by (simp add: W_def w2)
      show ?thesis
      proof (cases "\<exists>c r. publish staging (W c) = (r, w') \<and> (\<forall>e. result = Inl e \<longrightarrow> r = Inl e)")
        case True
        then obtain c r where "publish staging (W c) = (r, w')" "\<forall>e. result = Inl e \<longrightarrow> r = Inl e" by blast
        with s staged show ?thesis by (intro disjI2 exI [of _ staging] exI [of _ "W c"] exI [of _ r]) simp
      next
        case no: False
        then have never: "publish staging (W c) = (r, w') \<Longrightarrow> (\<And>e. result = Inl e \<Longrightarrow> r = Inl e) \<Longrightarrow> False" for c r
          by blast
        define gone where "gone = (\<lambda>v'. \<exists>c. v' = discard staging (W c) \<or> v' = discard staging w2)"
        have gone: "gone (discard staging (W c))" "gone (discard staging w2)" for c
          by (auto simp: gone_def)
        from run new Inr False opn have "gone w' \<and> (\<forall>report. result \<noteq> Inr report)"
          by (auto simp: run_bounded_pipeline_def Let_def gone [unfolded W_def]
              split: sum.splits option.splits prod.splits if_splits dest: never [unfolded W_def])
        then obtain c where out: "w' = discard staging (W c) \<or> w' = discard staging w2"
          and failed: "\<forall>report. result \<noteq> Inr report" unfolding gone_def by blast
        from undone [OF out] show ?thesis
        proof
          assume "fs_files w' = fs_files w"
          with failed show ?thesis by simp
        next
          assume "\<exists>staging c. staging \<noteq> output \<and> fs_files w staging = None \<and> fs_stuck w' \<and>
             fs_files w' = (fs_files w)(staging \<mapsto> c)"
          then obtain left c where "left \<noteq> output" "fs_files w left = None" "fs_stuck w'"
            "fs_files w' = (fs_files w)(left \<mapsto> c)" by blast
          with failed show ?thesis by (intro disjI2 disjI1 exI [of _ left] exI [of _ c]) simp
        qed
      qed
    qed
  qed
qed

text \<open>
  C21. A failed run leaves the world as it found it: no staging file survives, no other file
  changes, and the output is what it was, except after a failure to sync the parent
  directory, which is reported as such.  Where removing the staging file itself fails, which
  the destructor cannot report, that one file, new with the run, is all that is left over.
\<close>

theorem failed_run_leaves_output:
  assumes "run_bounded_pipeline H try_new env cenv cancelled answers input opened output config f w =
      Some (result, w')"
    and "fresh_tempfiles env output"
  shows "(\<not> fs_stuck w' \<longrightarrow> (\<forall>p. p \<noteq> output \<longrightarrow> fs_files w' p = fs_files w p)) \<and>
    (\<exists>staging. \<forall>p. p \<noteq> output \<longrightarrow> fs_files w' p \<noteq> fs_files w p \<longrightarrow>
       p = staging \<and> fs_files w p = None \<and> fs_stuck w') \<and>
    (\<forall>e. result = Inl e \<longrightarrow> fs_files w' output = fs_files w output \<or>
       (\<exists>phase src. e = LocalPublication phase PublishedDurabilityUncertain output src))"
  using run_ends [OF assms]
proof (elim disjE exE conjE)
  fix staging w3 r
  assume s: "so_output staging = output" "so_file staging \<noteq> output" "fs_files w (so_file staging) = None"
    and w3: "\<forall>p. p \<noteq> so_file staging \<longrightarrow> fs_files w3 p = fs_files w p"
    and pub: "publish staging w3 = (r, w')" and r: "\<forall>e. result = Inl e \<longrightarrow> r = Inl e"
  have apart: "so_file staging \<noteq> so_output staging" using s by simp
  have stuck: "fs_stuck w' = fs_stuck w3" using local_fs.publish_stuck [of staging w3] pub by (simp add: publish_def)
  have others: "fs_files w' p = fs_files w p" if "p \<noteq> output" "p \<noteq> so_file staging" for p
    using publish_changes [OF apart, of p w3] that pub s w3 by simp
  have own: "fs_files w' (so_file staging) = None" if "\<not> fs_stuck w'"
    using local_fs.publish_leftover [OF apart, of w3, folded publish_def] that stuck pub by simp
  have "\<not> fs_stuck w' \<longrightarrow> (\<forall>p. p \<noteq> output \<longrightarrow> fs_files w' p = fs_files w p)"
    using others own s(3) by metis
  moreover have "\<forall>p. p \<noteq> output \<longrightarrow> fs_files w' p \<noteq> fs_files w p \<longrightarrow>
      p = so_file staging \<and> fs_files w p = None \<and> fs_stuck w'"
    using others own s(3) by metis
  moreover have "fs_files w' output = fs_files w output \<or>
      (\<exists>phase src. e = LocalPublication phase PublishedDurabilityUncertain output src)" if "result = Inl e" for e
  proof -
    have "r = Inl e" using r that by blast
    with local_fs.publish_result [OF apart, of w3] pub s w3 show ?thesis
      by (auto simp: publish_def split: local_outcome.splits) (metis local_outcome.exhaust)
  qed
  ultimately show ?thesis by blast
qed auto

lemma failed_run_leaves_output_witness:
  "case run_bounded_pipeline sample_hasher arrow_try_new (sample_driver\<lparr>de_cancelled_last := True\<rparr>) sample_consumer
      (\<lambda>_. False) [Inr ()] ''in'' (Inr [Inr [''1'', ''a'', '''']]) ''out/o'' sample_config None sample_fs of
     Some (Inl Cancelled, w') \<Rightarrow> fs_files w' ''out/o'' = Some ''old''
   | _ \<Rightarrow> False"
proof -
  let ?run = "run_bounded_pipeline sample_hasher arrow_try_new (sample_driver\<lparr>de_cancelled_last := True\<rparr>) sample_consumer
      (\<lambda>_. False) [Inr ()] ''in'' (Inr [Inr [''1'', ''a'', '''']]) ''out/o'' sample_config None sample_fs"
  have "\<exists>w'. ?run = Some (Inl Cancelled, w')"
    using sample_production
    by (simp add: run_bounded_pipeline_def sample_driver_def sample_consumer_def sample_config_def
        sample_fs_def default_config_def staged_new_def staged_file_def consume_batches_def Let_def
        transform_lease_def into_parts_def uncharged_def checked_of_rows_ok)
  then obtain w' where run: "?run = Some (Inl Cancelled, w')" by blast
  have "fresh_tempfiles (sample_driver\<lparr>de_cancelled_last := True\<rparr>) ''out/o''"
    by (simp add: fresh_tempfiles_def sample_driver_def)
  from failed_run_leaves_output [OF run this] run show ?thesis by (auto simp: sample_fs_def)
qed

end
