(* ===== verification/ObjectDownload.thy ===== *)
theory ObjectDownload
  imports Manifest
begin

text \<open>
  The reading half of \<open>crates/pipeline/src/object_store_io.rs\<close>: the range-by-range download
  bound to a captured identity, and the completion-record reader built on it.  The object
  store and the destination file are worlds threaded through every call; an answer of the
  store may be anything, and the code's checks are what rule wrong ones out.
\<close>

subsection \<open>Requests and responses\<close>

definition CHUNK_BYTES :: nat where "CHUNK_BYTES = 8 * 1024 * 1024"

definition u64_max :: nat where "u64_max = 2 ^ 64 - 1"

definition saturating_add :: "nat \<Rightarrow> nat \<Rightarrow> nat" where
  "saturating_add a b = min u64_max (a + b)"

record get_options =
  go_range :: "(nat \<times> nat) option"
  go_version :: "string option"
  go_if_match :: "string option"
  go_head :: bool

record get_response =
  gr_meta :: object_meta
  gr_range :: "nat \<times> nat"
  gr_stream :: "(store_error + string) list"

text \<open>The world a download runs in: the store's answers and the destination file's writes.\<close>

record 'w download_ops =
  do_head :: "object_path \<Rightarrow> 'w \<Rightarrow> (store_error + object_meta) \<times> 'w"
  do_get_opts :: "object_path \<Rightarrow> get_options \<Rightarrow> 'w \<Rightarrow> (store_error + get_response) \<times> 'w"
  do_write_all :: "string \<Rightarrow> 'w \<Rightarrow> (foreign + unit) \<times> 'w"
  do_create :: "file_path \<Rightarrow> 'w \<Rightarrow> (foreign + unit) \<times> 'w"

subsection \<open>One response\<close>

text \<open>The \<open>while let Some(chunk)\<close> loop; also returns the bytes it wrote.\<close>

fun write_stream ::
  "'w download_ops \<Rightarrow> object_path \<Rightarrow> file_path \<Rightarrow> nat \<Rightarrow> (store_error + string) list \<Rightarrow> nat \<Rightarrow> string \<Rightarrow> 'w \<Rightarrow>
   (pipeline_io_error + nat \<times> string) \<times> 'w" where
  "write_stream ops key dest expected [] received out w = (Inr (received, out), w)"
| "write_stream ops key dest expected (Inl source # rest) received out w =
     (Inl (DownloadObject key source), w)"
| "write_stream ops key dest expected (Inr chunk # rest) received out w =
     (let received' = saturating_add received (length chunk)
      in if received' > expected then (Inl (InvalidSnapshot key (Length expected received')), w)
         else (case do_write_all ops chunk w of
                 (Inl source, w') \<Rightarrow> (Inl (OpenOutput dest source), w')
               | (Inr _, w') \<Rightarrow>
                   write_stream ops key dest expected rest received' (out @ chunk) w'))"

text \<open>The error mapping of a conditional read.\<close>

fun read_failure :: "object_path \<Rightarrow> store_error \<Rightarrow> pipeline_io_error" where
  "read_failure key (StorePrecondition s) = SnapshotPrecondition key (StorePrecondition s)"
| "read_failure key (StoreNotModified s) = SnapshotPrecondition key (StoreNotModified s)"
| "read_failure key source = DownloadObject key source"

definition nonempty :: "string option \<Rightarrow> string option" where
  "nonempty x = filter_option (\<lambda>v. v \<noteq> []) x"

text \<open>\<open>identity_matches\<close>: the version decides, the ETag only where there is no version.\<close>

definition identity_matches ::
  "string option \<Rightarrow> string option \<Rightarrow> object_meta \<Rightarrow> bool" where
  "identity_matches version etag meta =
     (case version of
        Some v \<Rightarrow> om_version meta = Some v
      | None \<Rightarrow> om_e_tag meta = etag)"

text \<open>The body of the range loop, up to and including the response's bytes.\<close>

definition read_range ::
  "'w download_ops \<Rightarrow> object_path \<Rightarrow> file_path \<Rightarrow> object_meta \<Rightarrow> nat \<Rightarrow> nat \<Rightarrow> 'w \<Rightarrow>
   (pipeline_io_error + string) \<times> 'w" where
  "read_range ops key dest captured lo hi w =
     (let version = nonempty (om_version captured);
          etag = nonempty (om_e_tag captured);
          options = \<lparr>go_range = Some (lo, hi), go_version = version,
                     go_if_match = (if version = None then etag else None), go_head = False\<rparr>
      in case do_get_opts ops key options w of
           (Inl source, w') \<Rightarrow> (Inl (read_failure key source), w')
         | (Inr response, w') \<Rightarrow>
             (if om_location (gr_meta response) \<noteq> key
              then (Inl (InvalidSnapshot key Location), w')
              else if om_size (gr_meta response) \<noteq> om_size captured
              then (Inl (InvalidSnapshot key (Size (om_size captured) (om_size (gr_meta response)))), w')
              else if \<not> identity_matches version etag (gr_meta response)
              then (Inl (InvalidSnapshot key Identity), w')
              else if gr_range response \<noteq> (lo, hi)
              then (Inl (InvalidSnapshot key (Range (lo, hi) (gr_range response))), w')
              else (case write_stream ops key dest (hi - lo) (gr_stream response) 0 '''' w' of
                      (Inl e, w'') \<Rightarrow> (Inl e, w'')
                    | (Inr (received, out), w'') \<Rightarrow>
                        (if received \<noteq> hi - lo
                         then (Inl (InvalidSnapshot key (Length (hi - lo) received)), w'')
                         else (Inr out, w'')))))"

subsection \<open>The range loop\<close>

definition range_end :: "nat \<Rightarrow> nat \<Rightarrow> nat" where
  "range_end limit offset = min limit (saturating_add offset CHUNK_BYTES)"

lemma range_end_bounds:
  assumes "offset < limit" and "limit \<le> u64_max"
  shows "offset < range_end limit offset" and "range_end limit offset \<le> limit"
    and "range_end limit offset - offset \<le> CHUNK_BYTES"
  using assms by (auto simp: range_end_def saturating_add_def CHUNK_BYTES_def min_def)

text \<open>
  \<open>while offset < captured.size\<close>.  A size is a \<open>u64\<close>; above that range the loop is not
  entered, so that the function is total.
\<close>

function download_ranges ::
  "'w download_ops \<Rightarrow> object_path \<Rightarrow> file_path \<Rightarrow> object_meta \<Rightarrow> nat \<Rightarrow> string \<Rightarrow> 'w \<Rightarrow>
   (pipeline_io_error + string) \<times> 'w" where
  "download_ranges ops key dest captured offset out w =
     (if offset < om_size captured \<and> om_size captured \<le> u64_max then
        (let end_offset = range_end (om_size captured) offset
         in case read_range ops key dest captured offset end_offset w of
              (Inl e, w') \<Rightarrow> (Inl e, w')
            | (Inr bytes, w') \<Rightarrow>
                download_ranges ops key dest captured end_offset (out @ bytes) w')
      else (Inr out, w))"
  by pat_completeness auto
termination
  by (relation "measure (\<lambda>(ops, key, dest, captured, offset, out, w). om_size captured - offset)")
    (auto simp: range_end_def saturating_add_def CHUNK_BYTES_def min_def)

declare download_ranges.simps [simp del]

text \<open>\<open>download_captured\<close>; the returned string is what the run wrote to the file.\<close>

definition download_captured ::
  "'w download_ops \<Rightarrow> object_path \<Rightarrow> file_path \<Rightarrow> object_meta \<Rightarrow> 'w \<Rightarrow>
   (pipeline_io_error + object_meta \<times> string) \<times> 'w" where
  "download_captured ops key dest captured w =
     (if om_location captured \<noteq> key then (Inl (InvalidSnapshot key Location), w)
      else if nonempty (om_version captured) = None \<and> nonempty (om_e_tag captured) = None
      then (Inl (InvalidSnapshot key MissingIdentity), w)
      else (case download_ranges ops key dest captured 0 '''' w of
              (Inl e, w') \<Rightarrow> (Inl e, w')
            | (Inr out, w') \<Rightarrow> (Inr (captured, out), w')))"

definition download_to_temp ::
  "'w download_ops \<Rightarrow> object_path \<Rightarrow> file_path \<Rightarrow> 'w \<Rightarrow>
   (pipeline_io_error + object_meta \<times> string) \<times> 'w" where
  "download_to_temp ops key dest w =
     (case do_create ops dest w of
        (Inl source, w1) \<Rightarrow> (Inl (OpenOutput dest source), w1)
      | (Inr _, w1) \<Rightarrow>
     (case do_head ops key w1 of
        (Inl source, w2) \<Rightarrow> (Inl (DownloadObject key source), w2)
      | (Inr captured, w2) \<Rightarrow> download_captured ops key dest captured w2))"

subsection \<open>Reading a completed output\<close>

text \<open>
  \<open>download_completed_output\<close>; \<open>get_bytes\<close> is the store's \<open>get\<close> followed by \<open>bytes\<close>.
\<close>

definition download_completed_output ::
  "'w download_ops \<Rightarrow> (object_path \<Rightarrow> 'w \<Rightarrow> (store_error + string) \<times> 'w) \<Rightarrow>
   (string \<Rightarrow> foreign + completion_manifest) \<Rightarrow> (string \<Rightarrow> object_path) \<Rightarrow>
   object_path \<Rightarrow> file_path \<Rightarrow> 'w \<Rightarrow> (pipeline_io_error + completion_manifest \<times> string) \<times> 'w" where
  "download_completed_output ops get_bytes from_slice path_from out_key dest w =
     (let manifest_key = key_for path_from out_key
      in case get_bytes manifest_key w of
           (Inl source, w1) \<Rightarrow> (Inl (DownloadObject manifest_key source), w1)
         | (Inr bytes, w1) \<Rightarrow>
        (case decode_completion_manifest from_slice bytes of
           Inl e \<Rightarrow> (Inl e, w1)
         | Inr m \<Rightarrow>
        (if schema_version m \<noteq> 2 then (Inl (CompletionIdentityRequired (schema_version m)), w1)
         else if output_key m \<noteq> Some out_key then (Inl (InvalidManifest OutputKeyMismatch), w1)
         else
           (let version = output_version m; etag = output_e_tag m;
                options = \<lparr>go_range = None, go_version = version,
                           go_if_match = (if version = None then etag else None), go_head = True\<rparr>
            in case do_get_opts ops out_key options w1 of
                 (Inl source, w2) \<Rightarrow> (Inl (read_failure out_key source), w2)
               | (Inr response, w2) \<Rightarrow>
              (let captured = gr_meta response
               in if \<not> identity_matches version etag captured
                  then (Inl (InvalidSnapshot out_key Identity), w2)
                  else (case do_create ops dest w2 of
                          (Inl source, w3) \<Rightarrow> (Inl (OpenOutput dest source), w3)
                        | (Inr _, w3) \<Rightarrow>
                       (case download_captured ops out_key dest captured w3 of
                          (Inl e, w4) \<Rightarrow> (Inl e, w4)
                        | (Inr (_, out), w4) \<Rightarrow> (Inr (m, out), w4))))))))"

subsection \<open>What a successful download wrote\<close>

lemma write_stream_ok:
  "write_stream ops key dest expected stream received out w = (Inr (n, out'), w') \<Longrightarrow>
   expected < u64_max \<Longrightarrow>
   \<exists>chunks. stream = map Inr chunks \<and> out' = out @ concat chunks \<and>
     n = received + length (concat chunks)"
proof (induction ops key dest expected stream received out w rule: write_stream.induct)
  case (3 ops key dest expected chunk rest received out w)
  let ?r = "saturating_add received (length chunk)"
  obtain w1 where le: "\<not> ?r > expected" and wr: "do_write_all ops chunk w = (Inr (), w1)"
    and run: "write_stream ops key dest expected rest ?r (out @ chunk) w1 = (Inr (n, out'), w')"
    using "3.prems"(1) by (auto simp: Let_def split: if_splits prod.splits sum.splits)
  have exact: "?r = received + length chunk"
    using le "3.prems"(2) by (auto simp: saturating_add_def min_def split: if_splits)
  obtain chunks where "rest = map Inr chunks" "out' = (out @ chunk) @ concat chunks"
    "n = ?r + length (concat chunks)"
    using "3.IH" [OF refl le wr [symmetric] refl run "3.prems"(2)] by blast
  then show ?case by (intro exI [of _ "chunk # chunks"]) (simp add: exact)
qed auto

lemma chunk_small: "CHUNK_BYTES < u64_max"
  by (simp add: CHUNK_BYTES_def u64_max_def)

text \<open>
  What a store that honours its read conditions promises: a response for a range, read
  under the recorded version, or under the ETag where there is no version, and claiming
  that identity and range, carries that range of the identified contents when its body
  is complete.
\<close>

definition byte_range :: "nat \<Rightarrow> nat \<Rightarrow> 'a list \<Rightarrow> 'a list" where
  "byte_range lo hi xs = take (hi - lo) (drop lo xs)"

definition honours_conditions ::
  "'w download_ops \<Rightarrow> (object_path \<Rightarrow> string option \<Rightarrow> string option \<Rightarrow> string) \<Rightarrow> bool" where
  "honours_conditions ops blob \<longleftrightarrow>
     (\<forall>key lo hi version etag w r w' chunks.
        do_get_opts ops key \<lparr>go_range = Some (lo, hi), go_version = version,
          go_if_match = (if version = None then etag else None), go_head = False\<rparr> w = (Inr r, w') \<longrightarrow>
        identity_matches version etag (gr_meta r) \<longrightarrow> gr_range r = (lo, hi) \<longrightarrow>
        gr_stream r = map Inr chunks \<longrightarrow> length (concat chunks) = hi - lo \<longrightarrow>
        concat chunks = byte_range lo hi (blob key version (if version = None then etag else None)))"

abbreviation blob_of ::
  "(object_path \<Rightarrow> string option \<Rightarrow> string option \<Rightarrow> string) \<Rightarrow> object_path \<Rightarrow> object_meta \<Rightarrow> string" where
  "blob_of blob key meta \<equiv> blob key (nonempty (om_version meta))
     (if nonempty (om_version meta) = None then nonempty (om_e_tag meta) else None)"

lemma read_range_ok:
  assumes "honours_conditions ops blob" and "hi - lo \<le> CHUNK_BYTES"
    and "read_range ops key dest captured lo hi w = (Inr out, w')"
  shows "out = byte_range lo hi (blob_of blob key captured) \<and> length out = hi - lo"
proof -
  let ?v = "nonempty (om_version captured)" and ?e = "nonempty (om_e_tag captured)"
  obtain r w1 received where get: "do_get_opts ops key \<lparr>go_range = Some (lo, hi), go_version = ?v,
        go_if_match = (if ?v = None then ?e else None), go_head = False\<rparr> w = (Inr r, w1)"
    and id: "identity_matches ?v ?e (gr_meta r)" and rng: "gr_range r = (lo, hi)"
    and st: "write_stream ops key dest (hi - lo) (gr_stream r) 0 '''' w1 = (Inr (received, out), w')"
    and len: "received = hi - lo"
    using assms(3) by (auto simp: read_range_def Let_def split: prod.splits sum.splits if_splits)
  obtain chunks where c: "gr_stream r = map Inr chunks" "out = concat chunks"
    "received = length (concat chunks)"
    using write_stream_ok [OF st] assms(2) chunk_small by auto
  have "concat chunks = byte_range lo hi (blob key ?v (if ?v = None then ?e else None))"
    using assms(1) [unfolded honours_conditions_def, rule_format, OF get id rng c(1)] c(3) len by simp
  with c len show ?thesis by simp
qed

lemma byte_range_append: "lo \<le> mid \<Longrightarrow> mid \<le> hi \<Longrightarrow> byte_range lo mid xs @ byte_range mid hi xs = byte_range lo hi xs"
proof -
  assume "lo \<le> mid" "mid \<le> hi"
  then have "drop mid xs = drop (mid - lo) (drop lo xs)" "hi - lo = (mid - lo) + (hi - mid)" by simp_all
  then show ?thesis by (simp add: byte_range_def take_add)
qed

lemma download_ranges_ok:
  "honours_conditions ops blob \<Longrightarrow>
   download_ranges ops key dest captured offset out w = (Inr out', w') \<Longrightarrow>
   om_size captured \<le> u64_max \<Longrightarrow> offset \<le> om_size captured \<Longrightarrow>
   out' = out @ byte_range offset (om_size captured) (blob_of blob key captured) \<and>
   length out' = length out + (om_size captured - offset)"
proof (induction ops key dest captured offset out w rule: download_ranges.induct)
  case (1 ops key dest captured offset out w)
  define b where "b = blob_of blob key captured"
  let ?s = "om_size captured"
  let ?e = "range_end ?s offset"
  show ?case
  proof (cases "offset < ?s")
    case True
    note bounds = range_end_bounds [OF True "1.prems"(3)]
    have guard: "offset < ?s \<and> ?s \<le> u64_max" using True "1.prems"(3) by simp
    obtain bytes w1 where rd: "read_range ops key dest captured offset ?e w = (Inr bytes, w1)"
      and run: "download_ranges ops key dest captured ?e (out @ bytes) w1 = (Inr out', w')"
      using "1.prems"(2) guard
      by (subst (asm) download_ranges.simps) (auto simp: Let_def split: prod.splits sum.splits)
    have b: "bytes = byte_range offset ?e b \<and> length bytes = ?e - offset"
      unfolding b_def by (rule read_range_ok [OF "1.prems"(1) bounds(3) rd])
    have ih: "out' = (out @ bytes) @ byte_range ?e ?s b \<and> length out' = length (out @ bytes) + (?s - ?e)"
      unfolding b_def by (rule "1.IH" [OF guard refl rd [symmetric] refl "1.prems"(1) run "1.prems"(3) bounds(2)])
    have "length out' = length out + (?s - offset)"
      using conjunct2 [OF ih] conjunct2 [OF b] bounds(1,2) unfolding length_append by linarith
    moreover have "out' = out @ byte_range offset ?s b"
      using conjunct1 [OF ih] conjunct1 [OF b] byte_range_append [of offset ?e ?s b] bounds(1,2)
      by (metis append_assoc less_imp_le)
    ultimately have "out' = out @ byte_range offset ?s b \<and> length out' = length out + (?s - offset)"
      by blast
    then show ?thesis unfolding b_def .
  next
    case False
    then show ?thesis
      using "1.prems"(2,4) by (subst (asm) download_ranges.simps) (auto simp: byte_range_def)
  qed
qed

lemma download_captured_ok:
  assumes "honours_conditions ops blob" and "om_size captured \<le> u64_max"
    and "download_captured ops key dest captured w = (Inr (meta, out), w')"
  shows "meta = captured \<and> om_location captured = key \<and>
    (nonempty (om_version captured) \<noteq> None \<or> nonempty (om_e_tag captured) \<noteq> None) \<and>
    length out = om_size captured \<and> out = take (om_size captured) (blob_of blob key captured)"
  using assms(3) download_ranges_ok [OF assms(1) _ assms(2), of key dest 0 "''''" w]
  by (auto simp: download_captured_def byte_range_def split: if_splits prod.splits sum.splits)

text \<open>
  C4. A successful download is the captured object and nothing else: against a store that
  honours read conditions, the bytes written are exactly the captured object's contents
  under its captured version (or ETag), however the ranges and chunks fell and whatever
  was written to the key meanwhile, and an object without a usable identity or stored
  elsewhere is never read.
\<close>

theorem download_is_captured_object:
  assumes "honours_conditions ops blob" and "om_size captured \<le> u64_max"
    and "length (blob_of blob key captured) = om_size captured"
    and "download_captured ops key dest captured w = (Inr (meta, out), w')"
  shows "meta = captured \<and> om_location captured = key \<and> out = blob_of blob key captured \<and>
    (nonempty (om_version captured) \<noteq> None \<or> nonempty (om_e_tag captured) \<noteq> None)"
  using download_captured_ok [OF assms(1,2,4)] assms(3) by simp

text \<open>A store with one versioned object, for the witnesses.\<close>

definition one_object_ops :: "object_path \<Rightarrow> string \<Rightarrow> string \<Rightarrow> unit download_ops" where
  "one_object_ops key version contents =
     (let meta = \<lparr>om_location = key, om_last_modified = '''', om_size = length contents,
                  om_e_tag = None, om_version = Some version\<rparr>
      in \<lparr>do_head = (\<lambda>k w. (if k = key then Inr meta else Inl (StoreNotFound k), w)),
          do_get_opts = (\<lambda>k opts w.
            (if k \<noteq> key \<or> go_version opts \<noteq> Some version then Inl (StoreNotFound k)
             else Inr \<lparr>gr_meta = meta,
                       gr_range = (case go_range opts of Some r \<Rightarrow> r | None \<Rightarrow> (0, length contents)),
                       gr_stream = (case go_range opts of
                           Some (lo, hi) \<Rightarrow> [Inr (byte_range lo hi contents)]
                         | None \<Rightarrow> [Inr contents])\<rparr>, w)),
          do_write_all = (\<lambda>bytes w. (Inr (), w)),
          do_create = (\<lambda>p w. (Inr (), w))\<rparr>)"

lemma one_object_honours:
  "honours_conditions (one_object_ops key version contents)
     (\<lambda>k v e. if v = Some version then contents else '''')"
  by (auto simp: honours_conditions_def one_object_ops_def Let_def split: if_splits)

lemma download_is_captured_object_witness:
  "fst (download_captured (one_object_ops ''o'' ''v1'' ''abc'') ''o'' ''f''
     \<lparr>om_location = ''o'', om_last_modified = '''', om_size = 3, om_e_tag = None, om_version = Some ''v1''\<rparr> ())
   = Inr (\<lparr>om_location = ''o'', om_last_modified = '''', om_size = 3, om_e_tag = None, om_version = Some ''v1''\<rparr>,
          ''abc'')"
proof -
  let ?m = "\<lparr>om_location = ''o'', om_last_modified = '''', om_size = 3, om_e_tag = None, om_version = Some ''v1''\<rparr>"
  let ?ops = "one_object_ops ''o'' ''v1'' ''abc''" and ?blob = "\<lambda>k v e. if v = Some ''v1'' then ''abc'' else ''''"
  obtain out where run: "download_captured ?ops ''o'' ''f'' ?m () = (Inr (?m, out), ())"
    by (simp add: download_captured_def download_ranges.simps read_range_def one_object_ops_def Let_def
        nonempty_def filter_option_def range_end_def saturating_add_def CHUNK_BYTES_def u64_max_def
        identity_matches_def byte_range_def)
  have "length (blob_of ?blob ''o'' ?m) = om_size ?m" "om_size ?m \<le> u64_max"
    by (simp_all add: nonempty_def filter_option_def u64_max_def)
  from download_is_captured_object [OF one_object_honours this(2,1) run] run show ?thesis
    by (simp add: nonempty_def filter_option_def)
qed

text \<open>
  An ETag identifies contents: where a response names both a version and an ETag, the contents
  under that version are the contents under that ETag.
\<close>

definition etags_identify ::
  "'w download_ops \<Rightarrow> (object_path \<Rightarrow> string option \<Rightarrow> string option \<Rightarrow> string) \<Rightarrow> bool" where
  "etags_identify ops blob \<longleftrightarrow>
     (\<forall>key opts w r w' v e. do_get_opts ops key opts w = (Inr r, w') \<longrightarrow>
        nonempty (om_version (gr_meta r)) = Some v \<longrightarrow> om_e_tag (gr_meta r) = Some e \<longrightarrow>
        blob key (Some v) None = blob key None (Some e))"

text \<open>
  C26. The strict completion reader returns only what the completion record vouches for: the
  record is the one stored beside the requested key, it is a valid version-2 record naming
  that key, and the bytes written are the recorded output's contents: those of the recorded
  version, or, where no version was recorded, those of the recorded ETag, whatever versions
  the store has by now.
\<close>

theorem completed_download_bound_to_record:
  assumes "honours_conditions ops blob" and "etags_identify ops blob"
    and "\<And>opts w r w'. do_get_opts ops out_key opts w = (Inr r, w') \<Longrightarrow>
      om_size (gr_meta r) \<le> u64_max \<and>
      length (blob_of blob out_key (gr_meta r)) = om_size (gr_meta r)"
    and "download_completed_output ops get_bytes from_slice path_from out_key dest w = (Inr (m, out), w')"
  shows "(\<exists>body w1. get_bytes (key_for path_from out_key) w = (Inr body, w1) \<and> from_slice body = Inr m) \<and>
    manifest_validate m = Inr () \<and> schema_version m = 2 \<and> output_key m = Some out_key \<and>
    (case output_version m of
       Some v \<Rightarrow> out = blob out_key (Some v) None
     | None \<Rightarrow> \<exists>e. output_e_tag m = Some e \<and> out = blob out_key None (Some e))"
proof -
  obtain body w1 r w2 w3 meta where
    got: "get_bytes (key_for path_from out_key) w = (Inr body, w1)"
    and dec: "decode_completion_manifest from_slice body = Inr m"
    and v2: "schema_version m = 2" "output_key m = Some out_key"
    and get: "do_get_opts ops out_key \<lparr>go_range = None, go_version = output_version m,
        go_if_match = (if output_version m = None then output_e_tag m else None), go_head = True\<rparr> w1 = (Inr r, w2)"
    and id: "identity_matches (output_version m) (output_e_tag m) (gr_meta r)"
    and dl: "download_captured ops out_key dest (gr_meta r) w3 = (Inr (meta, out), w')"
    using assms(4) unfolding download_completed_output_def Let_def
    by (auto split: prod.splits sum.splits if_splits)
  from dec have valid: "from_slice body = Inr m" "manifest_validate m = Inr ()"
    by (cases "from_slice body"; auto simp: decode_completion_manifest_def and_then_unit_ok)+
  have named: "output_e_tag m \<noteq> None \<or> output_version m \<noteq> None"
    using valid(2) v2(1) by (auto simp: manifest_validate_def and_then_unit_ok split: if_splits)
  have full: "output_e_tag m \<noteq> Some s" "output_version m \<noteq> Some s" if "blank s" for s
    using valid(2) v2(1) that
    by (auto simp: manifest_validate_def and_then_unit_ok check_identities_ok split: if_splits)
  have out: "out = blob_of blob out_key (gr_meta r)"
    using download_is_captured_object [OF assms(1) _ _ dl] assms(3) [OF get] by blast
  have usable: "nonempty (Some s) = Some s" if "\<not> blank s" for s
    using that by (auto simp: nonempty_def filter_option_def blank_def)
  have "case output_version m of
       Some v \<Rightarrow> out = blob out_key (Some v) None
     | None \<Rightarrow> \<exists>e. output_e_tag m = Some e \<and> out = blob out_key None (Some e)"
  proof (cases "output_version m")
    case (Some v)
    then have "om_version (gr_meta r) = Some v" "\<not> blank v" using id full(2) by (auto simp: identity_matches_def)
    with out usable Some show ?thesis by simp
  next
    case None
    obtain e where e: "output_e_tag m = Some e" "\<not> blank e" using named full(1) None by blast
    then have tag: "om_e_tag (gr_meta r) = Some e" using id None by (simp add: identity_matches_def)
    show ?thesis
    proof (cases "nonempty (om_version (gr_meta r))")
      case v: None
      with out usable tag e None show ?thesis by simp
    next
      case v: (Some v)
      with assms(2) get tag have "blob out_key (Some v) None = blob out_key None (Some e)"
        unfolding etags_identify_def by blast
      with out v e None show ?thesis by simp
    qed
  qed
  with got valid v2 show ?thesis by blast
qed

text \<open>A store with two versions of one object, of which the second is current.\<close>

definition tagged_object :: "get_options \<Rightarrow> (string \<times> string \<times> string) option" where
  "tagged_object opts =
     (if go_version opts = Some ''v2'' \<or> go_version opts = None \<and> go_if_match opts = Some ''e2''
      then Some (''v2'', ''e2'', ''xyz'')
      else if go_version opts = Some ''v1'' then Some (''v1'', ''e1'', ''abcd'') else None)"

definition tagged_ops :: "unit download_ops" where
  "tagged_ops =
     \<lparr>do_head = (\<lambda>k w. (Inl (StoreNotFound k), w)),
      do_get_opts = (\<lambda>k opts w. (case tagged_object opts of
           None \<Rightarrow> Inl (StoreNotFound k)
         | Some (v, e, c) \<Rightarrow>
             Inr \<lparr>gr_meta = \<lparr>om_location = k, om_last_modified = '''', om_size = length c,
                             om_e_tag = Some e, om_version = Some v\<rparr>,
                  gr_range = (case go_range opts of Some r \<Rightarrow> r | None \<Rightarrow> (0, length c)),
                  gr_stream = (case go_range opts of
                      Some (lo, hi) \<Rightarrow> [Inr (byte_range lo hi c)] | None \<Rightarrow> [Inr c])\<rparr>, w)),
      do_write_all = (\<lambda>bytes w. (Inr (), w)),
      do_create = (\<lambda>p w. (Inr (), w))\<rparr>"

definition tagged_blob :: "object_path \<Rightarrow> string option \<Rightarrow> string option \<Rightarrow> string" where
  "tagged_blob k v e =
     (if v = Some ''v2'' \<or> v = None \<and> e = Some ''e2'' then ''xyz''
      else if v = Some ''v1'' \<or> v = None \<and> e = Some ''e1'' then ''abcd'' else '''')"

lemma tagged_answer:
  "do_get_opts tagged_ops k opts w = (Inr r, w') \<Longrightarrow>
   \<exists>v e c. tagged_object opts = Some (v, e, c) \<and> gr_stream r = (case go_range opts of
       Some (lo, hi) \<Rightarrow> [Inr (byte_range lo hi c)] | None \<Rightarrow> [Inr c]) \<and>
     gr_meta r = \<lparr>om_location = k, om_last_modified = '''', om_size = length c, om_e_tag = Some e, om_version = Some v\<rparr>"
  by (auto simp: tagged_ops_def split: option.splits)

lemma tagged_honest:
  "honours_conditions tagged_ops tagged_blob" "etags_identify tagged_ops tagged_blob"
  "do_get_opts tagged_ops k opts w = (Inr r, w') \<Longrightarrow> om_size (gr_meta r) \<le> u64_max \<and>
     length (blob_of tagged_blob k (gr_meta r)) = om_size (gr_meta r)"
  by (auto simp: honours_conditions_def etags_identify_def tagged_object_def tagged_blob_def nonempty_def
      filter_option_def u64_max_def split: if_splits dest!: tagged_answer)

lemma completed_download_bound_to_record_witness:
  "\<exists>m. fst (download_completed_output tagged_ops (\<lambda>k w. (Inr ''{}'', w)) (\<lambda>_. Inr m) (\<lambda>s. s) ''o'' ''f'' ()) =
     Inr (m, ''xyz'') \<and> output_version m = None \<and> output_e_tag m = Some ''e2''"
proof -
  let ?meta = "\<lparr>om_location = ''in'', om_last_modified = '''', om_size = 3, om_e_tag = None, om_version = None\<rparr>"
  define m where "m = (manifest_new ''in'' ?meta 1 0)\<lparr>schema_version := 2, run_id := Some ''run'',
      output_key := Some ''o'', output_e_tag := Some ''e2'', digest_scheme := Some LEGACY_DIGEST_SCHEME\<rparr>"
  have "\<not> blank ''run''" "\<not> blank ''o''" "\<not> blank ''e2''" by (simp_all add: blank_def)
  then have valid: "manifest_validate m = Inr ()"
    using legacy_scheme_not_blank by (simp add: m_def manifest_new_def manifest_validate_def required_def)
  have fields: "schema_version m = 2" "output_key m = Some ''o''" "output_version m = None"
    "output_e_tag m = Some ''e2''"
    by (simp_all add: m_def manifest_new_def)
  obtain out where run: "download_completed_output tagged_ops (\<lambda>k w. (Inr ''{}'', w)) (\<lambda>_. Inr m) (\<lambda>s. s) ''o'' ''f'' ()
      = (Inr (m, out), ())"
    by (simp add: download_completed_output_def decode_completion_manifest_def valid fields
        download_captured_def download_ranges.simps read_range_def tagged_ops_def tagged_object_def Let_def
        nonempty_def filter_option_def range_end_def saturating_add_def CHUNK_BYTES_def u64_max_def
        identity_matches_def byte_range_def)
  from completed_download_bound_to_record [OF tagged_honest(1,2) tagged_honest(3) run] run fields
  show ?thesis by (intro exI [of _ m]) (simp add: tagged_blob_def)
qed

end
