(* ===== verification/ObjectUpload.thy ===== *)
theory ObjectUpload
  imports ObjectDownload
begin

text \<open>
  The multipart upload of \<open>crates/pipeline/src/object_store_io.rs\<close>.  What the file reader
  and the backend answer is data given to the run, and the run returns its result with the
  trace of the requests it made, in order.
\<close>

subsection \<open>Reader and backend\<close>

definition MAX_UPLOAD_PARTS :: nat where "MAX_UPLOAD_PARTS = 2"

text \<open>
  What successive \<open>read\<close> calls find: bytes (of which a call takes as many as fit its
  buffer; none at all is the end of the file), an interruption, or an error.  The end of
  the list is the end of the file.
\<close>

datatype read_event = Bytes string | Interrupted | ReadFailed foreign

text \<open>The requests made of the backend; those that are awaited carry what they were answered.\<close>

datatype upload_event =
    PutPart string
  | AwaitPart "store_error + unit"
  | Complete "store_error + unit"
  | Abort "store_error + unit"

record upload_answers =
  ua_awaits :: "(store_error + unit) list"
  ua_complete :: "store_error + unit"
  ua_abort :: "store_error + unit"

fun event_weight :: "read_event \<Rightarrow> nat" where
  "event_weight (Bytes s) = length s + 1"
| "event_weight _ = 1"

abbreviation weight :: "read_event list \<Rightarrow> nat" where
  "weight evs \<equiv> sum_list (map event_weight evs)"

text \<open>\<open>while filled < buffer.len()\<close>.\<close>

function fill :: "string \<Rightarrow> read_event list \<Rightarrow> foreign + string \<times> read_event list" where
  "fill buf evs =
     (if \<not> length buf < CHUNK_BYTES then Inr (buf, evs)
      else (case evs of
              [] \<Rightarrow> Inr (buf, [])
            | Interrupted # rest \<Rightarrow> fill buf rest
            | ReadFailed source # rest \<Rightarrow> Inl source
            | Bytes s # rest \<Rightarrow>
                (if s = [] then Inr (buf, rest)
                 else let n = CHUNK_BYTES - length buf
                      in fill (buf @ take n s) (if n < length s then Bytes (drop n s) # rest else rest))))"
  by pat_completeness auto
termination
  by (relation "measure (\<lambda>(buf, evs). weight evs)") (auto simp: Suc_le_eq)

declare fill.simps [simp del]

text \<open>The bytes a reader delivers before its end of file or first error.\<close>

fun contents :: "read_event list \<Rightarrow> string" where
  "contents [] = []"
| "contents (Interrupted # evs) = contents evs"
| "contents (ReadFailed e # evs) = []"
| "contents (Bytes s # evs) = (if s = [] then [] else s @ contents evs)"

fun read_error :: "read_event list \<Rightarrow> foreign option" where
  "read_error [] = None"
| "read_error (Interrupted # evs) = read_error evs"
| "read_error (ReadFailed e # evs) = Some e"
| "read_error (Bytes s # evs) = (if s = [] then None else read_error evs)"

lemma fill_spec:
  "length buf \<le> CHUNK_BYTES \<Longrightarrow>
   (case fill buf evs of
      Inl e \<Rightarrow> read_error evs = Some e
    | Inr (buf', evs') \<Rightarrow> length buf' \<le> CHUNK_BYTES \<and>
        (if length buf' < CHUNK_BYTES
         then buf' = buf @ contents evs \<and> read_error evs = None
         else buf @ contents evs = buf' @ contents evs' \<and> read_error evs' = read_error evs))"
proof (induction buf evs rule: fill.induct)
  case (1 buf evs)
  show ?case
  proof (cases "length buf < CHUNK_BYTES")
    case False
    then show ?thesis using "1.prems" by (subst fill.simps) simp
  next
    case True
    show ?thesis
    proof (cases evs)
      case Nil
      then show ?thesis using True by (subst fill.simps) simp
    next
      case (Cons ev rest)
      show ?thesis
      proof (cases ev)
        case Interrupted
        with Cons True 1 show ?thesis
          by (subst fill.simps) (auto split: sum.split prod.split)
      next
        case (ReadFailed e)
        with Cons True show ?thesis by (subst fill.simps) simp
      next
        case (Bytes s)
        show ?thesis
        proof (cases "s = []")
          case True
          with \<open>length buf < CHUNK_BYTES\<close> Cons Bytes show ?thesis by (subst fill.simps) simp
        next
          case False
          let ?n = "CHUNK_BYTES - length buf"
          define evs2 where "evs2 = (if ?n < length s then Bytes (drop ?n s) # rest else rest)"
          have c: "(buf @ take ?n s) @ contents evs2 = buf @ contents evs" "read_error evs2 = read_error evs"
            using False Cons Bytes by (simp_all add: evs2_def)
          have run: "fill buf evs = fill (buf @ take ?n s) evs2"
            using True Cons Bytes False by (subst fill.simps) (simp add: Let_def evs2_def)
          have len: "length (buf @ take ?n s) \<le> CHUNK_BYTES" using True by simp
          have "\<not> \<not> length buf < CHUNK_BYTES" using True by simp
          from "1.IH"(1) [OF this Cons Bytes False refl, folded evs2_def, OF len]
          show ?thesis unfolding run c [symmetric] by (auto split: sum.split prod.split simp: c)
        qed
      qed
    qed
  qed
qed

lemma fill_unfold:
  "\<not> length buf < CHUNK_BYTES \<Longrightarrow> fill buf evs = Inr (buf, evs)"
  "length buf < CHUNK_BYTES \<Longrightarrow> fill buf [] = Inr (buf, [])"
  "length buf < CHUNK_BYTES \<Longrightarrow> fill buf (Interrupted # rest) = fill buf rest"
  "length buf < CHUNK_BYTES \<Longrightarrow> fill buf (ReadFailed e # rest) = Inl e"
  "length buf < CHUNK_BYTES \<Longrightarrow> fill buf (Bytes [] # rest) = Inr (buf, rest)"
  "length buf < CHUNK_BYTES \<Longrightarrow> s \<noteq> [] \<Longrightarrow> fill buf (Bytes s # rest) =
     fill (buf @ take (CHUNK_BYTES - length buf) s)
       (if CHUNK_BYTES - length buf < length s
        then Bytes (drop (CHUNK_BYTES - length buf) s) # rest else rest)"
  by (subst fill.simps; simp add: Let_def)+

lemma fill_step:
  obtains (full) "\<not> length buf < CHUNK_BYTES"
  | (eof) rest where "length buf < CHUNK_BYTES" "fill buf evs = Inr (buf, rest)" "weight rest \<le> weight evs"
  | (failed) e where "fill buf evs = Inl e"
  | (more) buf' evs' where "length buf < CHUNK_BYTES" "fill buf evs = fill buf' evs'" "weight evs' < weight evs"
proof (cases "length buf < CHUNK_BYTES")
  case True
  show thesis
  proof (cases evs)
    case Nil
    with True eof fill_unfold(2) show thesis by simp
  next
    case (Cons ev rest)
    show thesis
    proof (cases ev)
      case Interrupted
      with True Cons more [of buf rest] fill_unfold(3) show thesis by simp
    next
      case (ReadFailed e)
      with True Cons failed fill_unfold(4) show thesis by simp
    next
      case (Bytes s)
      show thesis
      proof (cases "s = []")
        case True
        with \<open>length buf < CHUNK_BYTES\<close> Cons Bytes eof [of rest] fill_unfold(5) show thesis by simp
      next
        case False
        let ?evs = "if CHUNK_BYTES - length buf < length s
          then Bytes (drop (CHUNK_BYTES - length buf) s) # rest else rest"
        have "fill buf evs = fill (buf @ take (CHUNK_BYTES - length buf) s) ?evs"
          unfolding Cons Bytes by (rule fill_unfold(6) [OF True False])
        moreover have "weight ?evs < weight evs" using False Cons Bytes True by auto
        ultimately show thesis using more True by blast
      qed
    qed
  qed
qed (rule full)

lemma fill_weight_le: "fill buf evs = Inr (buf', evs') \<Longrightarrow> weight evs' \<le> weight evs"
proof (induction "weight evs" arbitrary: buf evs rule: less_induct)
  case less
  show ?case
  proof (cases rule: fill_step [where buf = buf and evs = evs])
    case full
    with less.prems fill_unfold(1) show ?thesis by simp
  next
    case (more buf2 evs2)
    with less show ?thesis by fastforce
  qed (use less.prems in auto)
qed

lemma fill_weight:
  assumes "fill buf evs = Inr (buf', evs')" "length buf < CHUNK_BYTES" "\<not> length buf' < CHUNK_BYTES"
  shows "weight evs' < weight evs"
proof (cases rule: fill_step [where buf = buf and evs = evs])
  case (more buf2 evs2)
  with assms(1) fill_weight_le [of buf2 evs2] show ?thesis by fastforce
qed (use assms in auto)

subsection \<open>The upload\<close>

text \<open>
  Awaiting one part in flight.  The state of the backend is the list of its coming answers
  and the trace so far; an exhausted list answers success.
\<close>

fun next_answer :: "(store_error + unit) list \<Rightarrow> store_error + unit" where
  "next_answer [] = Inr ()"
| "next_answer (a # rest) = a"

record upload_state =
  us_awaits :: "(store_error + unit) list"
  us_trace :: "upload_event list"
  us_in_flight :: nat

definition await_part :: "object_path \<Rightarrow> upload_state \<Rightarrow> (pipeline_io_error + unit) \<times> upload_state" where
  "await_part key st =
     (let result = next_answer (us_awaits st)
      in (map_err (UploadObject key) result,
          st\<lparr>us_awaits := tl (us_awaits st), us_trace := us_trace st @ [AwaitPart result],
             us_in_flight := us_in_flight st - 1\<rparr>))"

definition put_part :: "string \<Rightarrow> upload_state \<Rightarrow> upload_state" where
  "put_part data st =
     st\<lparr>us_trace := us_trace st @ [PutPart data], us_in_flight := us_in_flight st + 1\<rparr>"

text \<open>The first \<open>if\<close> of the loop: at the limit, wait for one part.\<close>

definition make_room :: "object_path \<Rightarrow> upload_state \<Rightarrow> (pipeline_io_error + unit) \<times> upload_state" where
  "make_room key st = (if us_in_flight st = MAX_UPLOAD_PARTS then await_part key st else (Inr (), st))"

function upload_loop ::
  "object_path \<Rightarrow> file_path \<Rightarrow> read_event list \<Rightarrow> upload_state \<Rightarrow>
   (pipeline_io_error + unit) \<times> upload_state" where
  "upload_loop key src evs st =
     (case make_room key st of
        (Inl e, st1) \<Rightarrow> (Inl e, st1)
      | (Inr _, st1) \<Rightarrow>
     (case fill [] evs of
        Inl source \<Rightarrow> (Inl (OpenInput src source), st1)
      | Inr (buffer, evs') \<Rightarrow>
          (let st2 = (if buffer \<noteq> [] then put_part buffer st1 else st1)
           in if length buffer < CHUNK_BYTES then (Inr (), st2)
              else upload_loop key src evs' st2)))"
  by pat_completeness auto
termination
  by (relation "measure (\<lambda>(key, src, evs, st). weight evs)")
    (auto dest: fill_weight simp: CHUNK_BYTES_def)

declare upload_loop.simps [simp del]

text \<open>\<open>while let Some(result) = parts.next().await\<close>.\<close>

function drain :: "object_path \<Rightarrow> upload_state \<Rightarrow> (pipeline_io_error + unit) \<times> upload_state" where
  "drain key st =
     (if us_in_flight st = 0 then (Inr (), st)
      else (case await_part key st of
              (Inl e, st1) \<Rightarrow> (Inl e, st1)
            | (Inr _, st1) \<Rightarrow> drain key st1))"
  by pat_completeness auto

lemma await_in_flight: "us_in_flight (snd (await_part key st)) = us_in_flight st - 1"
  by (simp add: await_part_def Let_def)

termination drain
  by (relation "measure (\<lambda>(key, st). us_in_flight st)")
    (auto simp: await_in_flight dest: arg_cong [where f = "\<lambda>p. us_in_flight (snd p)"])

declare drain.simps [simp del]

definition log_event :: "upload_event \<Rightarrow> upload_state \<Rightarrow> upload_state" where
  "log_event ev st = st\<lparr>us_trace := us_trace st @ [ev]\<rparr>"

text \<open>The \<open>async\<close> block of \<open>write_multipart\<close>, then the match on its result.\<close>

definition upload_body ::
  "object_path \<Rightarrow> file_path \<Rightarrow> read_event list \<Rightarrow> upload_answers \<Rightarrow>
   (pipeline_io_error + unit) \<times> upload_state" where
  "upload_body key src evs answers =
     (case upload_loop key src evs \<lparr>us_awaits = ua_awaits answers, us_trace = [], us_in_flight = 0\<rparr> of
        (Inl e, st) \<Rightarrow> (Inl e, st)
      | (Inr _, st) \<Rightarrow>
     (case drain key st of
        (Inl e, st1) \<Rightarrow> (Inl e, st1)
      | (Inr _, st1) \<Rightarrow>
          (map_err (UploadObject key) (ua_complete answers), log_event (Complete (ua_complete answers)) st1)))"

definition write_multipart ::
  "object_path \<Rightarrow> file_path \<Rightarrow> read_event list \<Rightarrow> upload_answers \<Rightarrow>
   (pipeline_io_error + unit) \<times> upload_event list" where
  "write_multipart key src evs answers =
     (case upload_body key src evs answers of
        (Inr _, st) \<Rightarrow> (Inr (), us_trace st)
      | (Inl source, st) \<Rightarrow>
          (case ua_abort answers of
             Inr _ \<Rightarrow> (Inl source, us_trace (log_event (Abort (ua_abort answers)) st))
           | Inl abort_source \<Rightarrow>
               (Inl (MultipartAbort source abort_source), us_trace (log_event (Abort (ua_abort answers)) st))))"

subsection \<open>What the trace shows\<close>

fun parts_of :: "upload_event list \<Rightarrow> string list" where
  "parts_of [] = []"
| "parts_of (PutPart d # tr) = d # parts_of tr"
| "parts_of (_ # tr) = parts_of tr"

text \<open>The parts whose answers were awaited.\<close>

fun answers_of :: "upload_event list \<Rightarrow> (store_error + unit) list" where
  "answers_of [] = []"
| "answers_of (AwaitPart a # tr) = a # answers_of tr"
| "answers_of (_ # tr) = answers_of tr"

definition open_parts :: "upload_event list \<Rightarrow> int" where
  "open_parts tr = int (length (parts_of tr)) - int (length (answers_of tr))"

text \<open>At no point of the trace are more parts in flight than allowed, nor fewer than none.\<close>

definition bounded_flight :: "upload_event list \<Rightarrow> bool" where
  "bounded_flight tr \<longleftrightarrow>
     (\<forall>n \<le> length tr. 0 \<le> open_parts (take n tr) \<and> open_parts (take n tr) \<le> int MAX_UPLOAD_PARTS)"

text \<open>Parts sent, and parts the backend acknowledged.\<close>

fun smooth :: "upload_event \<Rightarrow> bool" where
  "smooth (PutPart d) \<longleftrightarrow> True"
| "smooth (AwaitPart a) \<longleftrightarrow> a = Inr ()"
| "smooth (Complete c) \<longleftrightarrow> False"
| "smooth (Abort a) \<longleftrightarrow> False"

text \<open>Full parts followed by at most one shorter, non-empty part.\<close>

fun aligned_parts :: "string list \<Rightarrow> bool" where
  "aligned_parts [] \<longleftrightarrow> True"
| "aligned_parts [d] \<longleftrightarrow> d \<noteq> [] \<and> length d \<le> CHUNK_BYTES"
| "aligned_parts (d # ds) \<longleftrightarrow> length d = CHUNK_BYTES \<and> aligned_parts ds"

text \<open>
  The whole file is at the backend: its bytes were sent in order, in aligned parts, each of
  which was awaited and acknowledged.
\<close>

definition delivered :: "read_event list \<Rightarrow> upload_event list \<Rightarrow> bool" where
  "delivered evs tr \<longleftrightarrow> list_all smooth tr \<and> read_error evs = None \<and>
     concat (parts_of tr) = contents evs \<and> aligned_parts (parts_of tr) \<and> open_parts tr = 0"

text \<open>
  The trace ends with the first thing that failed, which is the one reported: the file, a
  part, or the completion of parts that were all acknowledged.
\<close>

definition first_failure ::
  "object_path \<Rightarrow> file_path \<Rightarrow> read_event list \<Rightarrow> upload_event list \<Rightarrow> pipeline_io_error \<Rightarrow> bool" where
  "first_failure key src evs tr source \<longleftrightarrow>
     (\<exists>e. source = OpenInput src e \<and> read_error evs = Some e \<and> list_all smooth tr) \<or>
     (\<exists>e sent. source = UploadObject key e \<and> tr = sent @ [AwaitPart (Inl e)] \<and> list_all smooth sent) \<or>
     (\<exists>e sent. source = UploadObject key e \<and> tr = sent @ [Complete (Inl e)] \<and> delivered evs sent)"

text \<open>The awaited parts were answered in turn from the backend's answers.\<close>

definition answered :: "(store_error + unit) list \<Rightarrow> upload_event list \<Rightarrow> bool" where
  "answered awaits tr \<longleftrightarrow>
     answers_of tr = map (\<lambda>n. next_answer (drop n awaits)) [0..<length (answers_of tr)]"

text \<open>The invariant of a running upload that nothing has failed in.\<close>

definition upload_inv :: "(store_error + unit) list \<Rightarrow> upload_state \<Rightarrow> bool" where
  "upload_inv awaits st \<longleftrightarrow> bounded_flight (us_trace st) \<and> list_all smooth (us_trace st) \<and>
     int (us_in_flight st) = open_parts (us_trace st) \<and> answered awaits (us_trace st) \<and>
     us_awaits st = drop (length (answers_of (us_trace st))) awaits"

text \<open>What holds where a part was refused.\<close>

definition part_refused :: "object_path \<Rightarrow> (store_error + unit) list \<Rightarrow> upload_state \<Rightarrow> pipeline_io_error \<Rightarrow> bool" where
  "part_refused key awaits st source \<longleftrightarrow> bounded_flight (us_trace st) \<and> answered awaits (us_trace st) \<and>
     (\<exists>e sent. source = UploadObject key e \<and> us_trace st = sent @ [AwaitPart (Inl e)] \<and> list_all smooth sent)"

lemma parts_of_append [simp]: "parts_of (xs @ ys) = parts_of xs @ parts_of ys"
  by (induction xs rule: parts_of.induct) auto

lemma answers_of_append [simp]: "answers_of (xs @ ys) = answers_of xs @ answers_of ys"
  by (induction xs rule: answers_of.induct) auto

lemma open_parts_append [simp]: "open_parts (xs @ ys) = open_parts xs + open_parts ys"
  by (simp add: open_parts_def)

lemma open_parts_events [simp]:
  "open_parts [] = 0" "open_parts [PutPart d] = 1" "open_parts [AwaitPart a] = - 1"
  "open_parts [Complete c] = 0" "open_parts [Abort a] = 0"
  by (simp_all add: open_parts_def)

lemma answered_start [simp]: "answered awaits []"
  by (simp add: answered_def)

lemma answered_snoc:
  "answered awaits tr \<Longrightarrow> answered awaits (tr @ [PutPart d])"
  "answered awaits tr \<Longrightarrow> answered awaits (tr @ [Complete c])"
  "answered awaits tr \<Longrightarrow> answered awaits (tr @ [Abort a])"
  "answered awaits tr \<Longrightarrow>
     answered awaits (tr @ [AwaitPart (next_answer (drop (length (answers_of tr)) awaits))])"
  by (simp_all add: answered_def)

lemma all_le_Suc: "(\<forall>n \<le> Suc k. Q n) \<longleftrightarrow> (\<forall>n \<le> k. Q n) \<and> Q (Suc k)"
  by (auto simp: le_Suc_eq)

lemma bounded_flight_snoc:
  "bounded_flight (tr @ [ev]) \<longleftrightarrow> bounded_flight tr \<and>
     0 \<le> open_parts (tr @ [ev]) \<and> open_parts (tr @ [ev]) \<le> int MAX_UPLOAD_PARTS"
proof -
  let ?P = "\<lambda>tr. 0 \<le> open_parts tr \<and> open_parts tr \<le> int MAX_UPLOAD_PARTS"
  have "bounded_flight (tr @ [ev]) \<longleftrightarrow> (\<forall>n \<le> Suc (length tr). ?P (take n (tr @ [ev])))"
    by (simp only: bounded_flight_def length_append_singleton)
  also have "\<dots> \<longleftrightarrow> (\<forall>n \<le> length tr. ?P (take n (tr @ [ev]))) \<and> ?P (take (Suc (length tr)) (tr @ [ev]))"
    by (rule all_le_Suc)
  also have "\<dots> \<longleftrightarrow> (\<forall>n \<le> length tr. ?P (take n tr)) \<and> ?P (tr @ [ev])"
    by simp
  finally show ?thesis by (simp only: bounded_flight_def)
qed

lemma await_inv:
  assumes "upload_inv awaits st" and "us_in_flight st > 0" and "await_part key st = (r, st')"
  shows "parts_of (us_trace st') = parts_of (us_trace st)"
    and "r = Inr () \<Longrightarrow> upload_inv awaits st' \<and> us_in_flight st' = us_in_flight st - 1"
    and "r = Inl e \<Longrightarrow> part_refused key awaits st' e"
proof -
  let ?a = "next_answer (drop (length (answers_of (us_trace st))) awaits)"
  have tr: "us_trace st' = us_trace st @ [AwaitPart ?a]" and r: "r = map_err (UploadObject key) ?a"
    and st': "us_awaits st' = tl (us_awaits st)" "us_in_flight st' = us_in_flight st - 1"
    using assms(1,3) by (auto simp: await_part_def Let_def upload_inv_def)
  show "parts_of (us_trace st') = parts_of (us_trace st)" by (simp add: tr)
  have "open_parts (us_trace st) \<le> int MAX_UPLOAD_PARTS"
    using assms(1) by (auto simp: upload_inv_def bounded_flight_def dest: spec [of _ "length (us_trace st)"])
  then have b: "bounded_flight (us_trace st')"
    using assms(1,2) by (simp add: tr upload_inv_def bounded_flight_snoc)
  have a: "answered awaits (us_trace st')"
    using assms(1) answered_snoc(4) by (simp add: tr upload_inv_def)
  show "upload_inv awaits st' \<and> us_in_flight st' = us_in_flight st - 1" if "r = Inr ()"
  proof -
    have "?a = Inr ()" using that r by (cases ?a) auto
    moreover have "int (us_in_flight st') = open_parts (us_trace st')"
      using assms(1,2) by (simp add: tr st' upload_inv_def)
    moreover have "us_awaits st' = drop (length (answers_of (us_trace st'))) awaits"
      using assms(1) by (simp add: tr st' upload_inv_def tl_drop drop_Suc)
    ultimately show ?thesis
      using assms(1) b a st' by (simp add: upload_inv_def tr)
  qed
  show "part_refused key awaits st' e" if "r = Inl e"
    using that r a b assms(1) by (cases ?a) (auto simp: part_refused_def tr upload_inv_def)
qed

lemma put_inv:
  assumes "upload_inv awaits st" and "us_in_flight st < MAX_UPLOAD_PARTS"
  shows "upload_inv awaits (put_part d st) \<and>
    parts_of (us_trace (put_part d st)) = parts_of (us_trace st) @ [d]"
  using assms answered_snoc(1)
  by (auto simp: put_part_def upload_inv_def bounded_flight_snoc MAX_UPLOAD_PARTS_def)

lemma make_room_inv:
  assumes "upload_inv awaits st" and "make_room key st = (r, st')"
  shows "r = Inr () \<Longrightarrow> upload_inv awaits st' \<and> parts_of (us_trace st') = parts_of (us_trace st) \<and>
      us_in_flight st' < MAX_UPLOAD_PARTS"
    and "r = Inl e \<Longrightarrow> part_refused key awaits st' e"
proof -
  have "us_in_flight st \<le> MAX_UPLOAD_PARTS"
    using assms(1) by (auto simp: upload_inv_def bounded_flight_def dest: spec [of _ "length (us_trace st)"])
  then show "r = Inr () \<Longrightarrow> upload_inv awaits st' \<and> parts_of (us_trace st') = parts_of (us_trace st) \<and>
      us_in_flight st' < MAX_UPLOAD_PARTS"
    using assms await_inv(1,2) [of awaits st key r st']
    by (auto simp: make_room_def MAX_UPLOAD_PARTS_def split: if_splits)
  show "r = Inl e \<Longrightarrow> part_refused key awaits st' e"
    using assms await_inv(3) [of awaits st key r st' e]
    by (auto simp: make_room_def MAX_UPLOAD_PARTS_def split: if_splits)
qed

lemma aligned_Cons: "length d = CHUNK_BYTES \<Longrightarrow> aligned_parts ds \<Longrightarrow> aligned_parts (d # ds)"
  by (cases ds) (auto simp: CHUNK_BYTES_def)

text \<open>
  A run of the loop that ends without an error has sent the whole contents in aligned
  parts; a run that ends with one stopped at the file's error or a refused part.
\<close>

definition loop_failed ::
  "object_path \<Rightarrow> file_path \<Rightarrow> read_event list \<Rightarrow> (store_error + unit) list \<Rightarrow> upload_state \<Rightarrow> pipeline_io_error \<Rightarrow> bool" where
  "loop_failed key src evs awaits st source \<longleftrightarrow> part_refused key awaits st source \<or>
     upload_inv awaits st \<and> (\<exists>e. source = OpenInput src e \<and> read_error evs = Some e)"

lemma upload_loop_spec:
  "upload_loop key src evs st = (r, st') \<Longrightarrow> upload_inv awaits st \<Longrightarrow>
   (case r of
      Inr _ \<Rightarrow> upload_inv awaits st' \<and> read_error evs = None \<and>
        (\<exists>new. parts_of (us_trace st') = parts_of (us_trace st) @ new \<and>
           concat new = contents evs \<and> aligned_parts new)
    | Inl source \<Rightarrow> loop_failed key src evs awaits st' source)"
proof (induction key src evs st rule: upload_loop.induct)
  case (1 key src evs st)
  obtain r1 st1 where room: "make_room key st = (r1, st1)" by fastforce
  note inv1 = make_room_inv [OF "1.prems"(2) room]
  show ?case
  proof (cases r1)
    case (Inl e)
    then show ?thesis using "1.prems"(1) room inv1
      by (subst (asm) upload_loop.simps) (auto simp: loop_failed_def)
  next
    case (Inr u)
    note ok = Inr
    have inv: "upload_inv awaits st1" "parts_of (us_trace st1) = parts_of (us_trace st)"
      "us_in_flight st1 < MAX_UPLOAD_PARTS" using inv1 ok by simp_all
    have "length ([] :: string) \<le> CHUNK_BYTES" by simp
    note filled = fill_spec [OF this, of evs]
    show ?thesis
    proof (cases "fill [] evs")
      case (Inl e)
      then show ?thesis using "1.prems"(1) room inv ok filled
        by (subst (asm) upload_loop.simps) (auto simp: loop_failed_def)
    next
      case (Inr be)
      obtain buffer evs' where be: "fill [] evs = Inr (buffer, evs')" using Inr by (cases be) auto
      define st2 where "st2 = (if buffer \<noteq> [] then put_part buffer st1 else st1)"
      have inv2: "upload_inv awaits st2 \<and> parts_of (us_trace st2) =
          parts_of (us_trace st) @ (if buffer \<noteq> [] then [buffer] else [])"
        using put_inv [of awaits st1 buffer] inv by (simp add: st2_def)
      have run: "upload_loop key src evs st =
          (if length buffer < CHUNK_BYTES then (Inr (), st2) else upload_loop key src evs' st2)"
        using room ok be by (subst upload_loop.simps) (simp add: st2_def)
      note spec = filled [unfolded be]
      show ?thesis
      proof (cases "length buffer < CHUNK_BYTES")
        case True
        then have "r = Inr ()" "st' = st2" using run "1.prems"(1) by auto
        moreover have "buffer = contents evs" "read_error evs = None" using spec True by simp_all
        ultimately show ?thesis using inv2 True
          by (auto intro: exI [of _ "if buffer \<noteq> [] then [buffer] else []"])
      next
        case False
        then have len: "length buffer = CHUNK_BYTES" "contents evs = buffer @ contents evs'"
          "read_error evs' = read_error evs"
          using spec by simp_all
        have rec: "upload_loop key src evs' st2 = (r, st')" using run "1.prems"(1) False by simp
        have ih: "case r of
            Inr _ \<Rightarrow> upload_inv awaits st' \<and> read_error evs' = None \<and>
              (\<exists>new. parts_of (us_trace st') = parts_of (us_trace st2) @ new \<and>
                 concat new = contents evs' \<and> aligned_parts new)
          | Inl source \<Rightarrow> loop_failed key src evs' awaits st' source"
          using "1.IH" [OF room [symmetric] ok be refl] False rec inv2 st2_def by blast
        have "buffer \<noteq> []" using len(1) by (auto simp: CHUNK_BYTES_def)
        with ih inv2 len show ?thesis
          by (auto intro: aligned_Cons simp: loop_failed_def split: sum.splits)
      qed
    qed
  qed
qed

lemma drain_spec:
  "drain key st = (r, st') \<Longrightarrow> upload_inv awaits st \<Longrightarrow>
   (case r of
      Inr _ \<Rightarrow> upload_inv awaits st' \<and> parts_of (us_trace st') = parts_of (us_trace st) \<and> us_in_flight st' = 0
    | Inl source \<Rightarrow> part_refused key awaits st' source)"
proof (induction key st rule: drain.induct)
  case (1 key st)
  show ?case
  proof (cases "us_in_flight st = 0")
    case True
    then show ?thesis using "1.prems" by (subst (asm) drain.simps) auto
  next
    case False
    obtain r1 st1 where aw: "await_part key st = (r1, st1)" by fastforce
    have pos: "us_in_flight st > 0" using False by simp
    note inv1 = await_inv [OF "1.prems"(2) pos aw]
    show ?thesis
    proof (cases r1)
      case (Inl e)
      then show ?thesis using "1.prems"(1) False aw inv1 by (subst (asm) drain.simps) auto
    next
      case (Inr u)
      have "drain key st1 = (r, st')"
        using "1.prems"(1) False aw Inr by (subst (asm) drain.simps) simp
      then show ?thesis using "1.IH" [OF False aw [symmetric] Inr] inv1 Inr by (auto split: sum.splits)
    qed
  qed
qed

lemma bounded_flight_end:
  "bounded_flight tr \<Longrightarrow> open_parts [ev] = 0 \<Longrightarrow> bounded_flight (tr @ [ev])"
  unfolding bounded_flight_snoc by (auto simp: bounded_flight_def dest: spec [of _ "length tr"])

lemma upload_body_spec:
  assumes "upload_body key src evs answers = (r, st)"
  shows "bounded_flight (us_trace st) \<and> answered (ua_awaits answers) (us_trace st) \<and>
    (case r of
       Inr _ \<Rightarrow> ua_complete answers = Inr () \<and>
         (\<exists>sent. us_trace st = sent @ [Complete (Inr ())] \<and> delivered evs sent)
     | Inl source \<Rightarrow> first_failure key src evs (us_trace st) source)"
proof -
  let ?st0 = "\<lparr>us_awaits = ua_awaits answers, us_trace = [], us_in_flight = 0\<rparr>"
  have start: "upload_inv (ua_awaits answers) ?st0" by (simp add: upload_inv_def bounded_flight_def)
  obtain r1 st1 where loop: "upload_loop key src evs ?st0 = (r1, st1)" by fastforce
  note spec1 = upload_loop_spec [OF loop start]
  show ?thesis
  proof (cases r1)
    case (Inl e)
    then show ?thesis using assms loop spec1
      by (auto simp: upload_body_def loop_failed_def part_refused_def upload_inv_def first_failure_def)
  next
    case r1: (Inr u)
    obtain r2 st2 where dr: "drain key st1 = (r2, st2)" by fastforce
    from spec1 r1 have inv1: "upload_inv (ua_awaits answers) st1" by simp
    note spec2 = drain_spec [OF dr inv1]
    show ?thesis
    proof (cases r2)
      case (Inl e)
      then show ?thesis using assms loop r1 dr spec2
        by (auto simp: upload_body_def part_refused_def first_failure_def)
    next
      case (Inr u2)
      have st: "us_trace st = us_trace st2 @ [Complete (ua_complete answers)]"
        and r: "r = map_err (UploadObject key) (ua_complete answers)"
        using assms loop r1 dr Inr by (auto simp: upload_body_def log_event_def)
      have inv2: "upload_inv (ua_awaits answers) st2" using spec2 Inr by simp
      have sent: "delivered evs (us_trace st2)"
        using spec1 spec2 r1 Inr inv2 by (auto simp: delivered_def upload_inv_def)
      show ?thesis
        using inv2 sent r answered_snoc(2) bounded_flight_end
        by (cases "ua_complete answers") (auto simp: st upload_inv_def first_failure_def)
    qed
  qed
qed

lemma body_completes:
  assumes "upload_body key src evs answers = (r, st)" and "Complete c \<in> set (us_trace st)"
  shows "c = ua_complete answers"
proof -
  let ?st0 = "\<lparr>us_awaits = ua_awaits answers, us_trace = [], us_in_flight = 0\<rparr>"
  have start: "upload_inv (ua_awaits answers) ?st0" by (simp add: upload_inv_def bounded_flight_def)
  have none: "Complete c' \<notin> set tr" if "list_all smooth tr" for c' tr
    using that by (auto simp: list_all_iff)
  obtain r1 st1 where loop: "upload_loop key src evs ?st0 = (r1, st1)" by fastforce
  note spec1 = upload_loop_spec [OF loop start]
  show ?thesis
  proof (cases r1)
    case (Inl e)
    then show ?thesis using assms loop spec1 none
      by (auto simp: upload_body_def loop_failed_def part_refused_def upload_inv_def)
  next
    case r1: (Inr u)
    obtain r2 st2 where dr: "drain key st1 = (r2, st2)" by fastforce
    from spec1 r1 have inv1: "upload_inv (ua_awaits answers) st1" by simp
    note spec2 = drain_spec [OF dr inv1]
    show ?thesis
      using assms loop r1 dr spec2 none
      by (cases r2) (auto simp: upload_body_def log_event_def part_refused_def upload_inv_def)
  qed
qed

lemma multipart_spec:
  assumes "write_multipart key src evs answers = (r, tr)"
  shows "bounded_flight tr \<and> answered (ua_awaits answers) tr \<and>
    (case r of
       Inr _ \<Rightarrow> ua_complete answers = Inr () \<and>
         (\<exists>sent. tr = sent @ [Complete (Inr ())] \<and> delivered evs sent)
     | Inl e \<Rightarrow> \<exists>sent source. tr = sent @ [Abort (ua_abort answers)] \<and>
         first_failure key src evs sent source \<and>
         e = (case ua_abort answers of Inr _ \<Rightarrow> source | Inl abort_source \<Rightarrow> MultipartAbort source abort_source))"
proof -
  obtain r1 st where body: "upload_body key src evs answers = (r1, st)" by fastforce
  note spec = upload_body_spec [OF body]
  show ?thesis
  proof (cases r1)
    case (Inl e)
    then show ?thesis using assms body spec bounded_flight_end answered_snoc(3)
      by (cases "ua_abort answers") (auto simp: write_multipart_def log_event_def)
  next
    case (Inr u)
    then show ?thesis using assms body spec by (auto simp: write_multipart_def)
  qed
qed

lemma multipart_completes:
  assumes "write_multipart key src evs answers = (r, tr)" and "Complete c \<in> set tr"
  shows "c = ua_complete answers"
proof -
  obtain r1 st where body: "upload_body key src evs answers = (r1, st)" by fastforce
  from assms have "Complete c \<in> set (us_trace st)"
    using body by (auto simp: write_multipart_def log_event_def split: sum.splits)
  then show ?thesis by (rule body_completes [OF body])
qed

text \<open>Where the file can be read and the backend refuses nothing, the upload succeeds.\<close>

lemma answered_smoothly:
  "answered [] tr \<Longrightarrow> AwaitPart a \<in> set tr \<Longrightarrow> a = Inr ()"
proof -
  assume "answered [] tr" and a: "AwaitPart a \<in> set tr"
  then have "answers_of tr = map (\<lambda>_. Inr ()) [0..<length (answers_of tr)]" by (simp add: answered_def)
  then have "set (answers_of tr) = set (map (\<lambda>_. Inr ()) [0..<length (answers_of tr)])" by (rule arg_cong)
  then have all: "set (answers_of tr) \<subseteq> {Inr ()}" by (auto simp del: length_greater_0_conv)
  have "a \<in> set (answers_of tr)" using a by (induction tr rule: answers_of.induct) auto
  with all show ?thesis by auto
qed

lemma multipart_succeeds:
  assumes "read_error evs = None" and "ua_awaits answers = []" and "ua_complete answers = Inr ()"
    and "write_multipart key src evs answers = (r, tr)"
  shows "r = Inr () \<and> (\<exists>sent. tr = sent @ [Complete (Inr ())] \<and> delivered evs sent)"
proof (cases r)
  case (Inr u)
  then show ?thesis using multipart_spec [OF assms(4)] by auto
next
  case (Inl e)
  with multipart_spec [OF assms(4)] obtain sent source where
    tr: "tr = sent @ [Abort (ua_abort answers)]" and first: "first_failure key src evs sent source" by auto
  have none: "AwaitPart (Inl x) \<notin> set tr" for x
    using answered_smoothly [of tr "Inl x"] multipart_spec [OF assms(4)] assms(2) by auto
  have "Complete (Inl x) \<notin> set tr" for x
    using multipart_completes [OF assms(4), of "Inl x"] assms(3) by auto
  with none first assms(1) have False unfolding first_failure_def tr by fastforce
  then show ?thesis ..
qed

text \<open>
  C18. Upload is all or nothing and bounded: at most two parts are ever in flight; success
  means that the whole file was sent in order, in parts of 8 MiB with one shorter last
  part, that every part was acknowledged by the backend, and that the last request was a
  completion the backend acknowledged.  Any failure is the first one met - the file's, a
  refused part's or that of the completion of parts all acknowledged -, nothing but one
  abort follows it, and it is the error returned, beside the abort's where that failed too.
\<close>

theorem upload_all_or_nothing:
  assumes "write_multipart key src evs answers = (r, tr)"
  shows "bounded_flight tr \<and> answered (ua_awaits answers) tr \<and>
    (\<forall>c. Complete c \<in> set tr \<longrightarrow> c = ua_complete answers) \<and>
    (case r of
       Inr _ \<Rightarrow> ua_complete answers = Inr () \<and>
         (\<exists>sent. tr = sent @ [Complete (Inr ())] \<and> delivered evs sent)
     | Inl e \<Rightarrow> \<exists>sent source. tr = sent @ [Abort (ua_abort answers)] \<and>
         first_failure key src evs sent source \<and>
         e = (case ua_abort answers of Inr _ \<Rightarrow> source | Inl abort_source \<Rightarrow> MultipartAbort source abort_source))"
  using multipart_spec [OF assms] multipart_completes [OF assms] by blast

lemma upload_all_or_nothing_witness:
  "\<exists>sent. write_multipart ''k'' ''f'' [Bytes ''ab'', Interrupted, Bytes ''c'']
     \<lparr>ua_awaits = [Inr ()], ua_complete = Inl (StoreOther ''x''), ua_abort = Inl (StoreOther ''y'')\<rparr> =
       (Inl (MultipartAbort (UploadObject ''k'' (StoreOther ''x'')) (StoreOther ''y'')),
        sent @ [Abort (Inl (StoreOther ''y''))]) \<and>
     first_failure ''k'' ''f'' [Bytes ''ab'', Interrupted, Bytes ''c''] sent (UploadObject ''k'' (StoreOther ''x''))"
proof -
  let ?answers = "\<lparr>ua_awaits = [Inr ()], ua_complete = Inl (StoreOther ''x''), ua_abort = Inl (StoreOther ''y'')\<rparr>"
  have fill: "fill [] [Bytes ''ab'', Interrupted, Bytes ''c''] = Inr (''abc'', [])"
    by (simp add: fill_unfold CHUNK_BYTES_def)
  obtain tr where run: "write_multipart ''k'' ''f'' [Bytes ''ab'', Interrupted, Bytes ''c''] ?answers
      = (Inl (MultipartAbort (UploadObject ''k'' (StoreOther ''x'')) (StoreOther ''y'')), tr)"
    by (simp add: write_multipart_def upload_body_def upload_loop.simps make_room_def fill
        MAX_UPLOAD_PARTS_def CHUNK_BYTES_def put_part_def drain.simps await_part_def)
  show ?thesis using upload_all_or_nothing [OF run] run by auto
qed

end
