(* ===== verification/Publication.thy ===== *)
theory Publication
  imports ObjectUpload
begin

text \<open>
  \<open>crates/pipeline/src/publication.rs\<close> and the writing helpers of \<open>object_store_io.rs\<close>:
  publication of a staged output and its completion record to an object store whose
  failures are ambiguous.  The store is a record of operations on a world; what it
  documents is the locale \<open>object_store\<close>, in which a failed mutation may have taken
  effect or not.
\<close>

subsection \<open>The store and its helpers\<close>

record 'w store_ops =
  so_head :: "object_path \<Rightarrow> 'w \<Rightarrow> (store_error + object_meta) \<times> 'w"
  so_put :: "object_path \<Rightarrow> string \<Rightarrow> 'w \<Rightarrow> (store_error + unit) \<times> 'w"
  so_delete :: "object_path \<Rightarrow> 'w \<Rightarrow> (store_error + unit) \<times> 'w"
  so_copy :: "object_path \<Rightarrow> object_path \<Rightarrow> 'w \<Rightarrow> (store_error + unit) \<times> 'w"
  so_rename :: "object_path \<Rightarrow> object_path \<Rightarrow> 'w \<Rightarrow> (store_error + unit) \<times> 'w"
  so_open :: "file_path \<Rightarrow> foreign + read_event list"
  so_put_multipart :: "object_path \<Rightarrow> 'w \<Rightarrow> (store_error + upload_answers) \<times> 'w"
  so_requests :: "object_path \<Rightarrow> upload_event list \<Rightarrow> 'w \<Rightarrow> 'w"

text \<open>
  \<open>upload_from_temp\<close>: the file is opened, the upload started, and its requests are those of
  \<open>write_multipart\<close>; \<open>so_requests\<close> is what they do to the store.
\<close>

definition upload_from_temp ::
  "'w store_ops \<Rightarrow> file_path \<Rightarrow> object_path \<Rightarrow> 'w \<Rightarrow> (pipeline_io_error + unit) \<times> 'w" where
  "upload_from_temp store src key w =
     (case so_open store src of
        Inl source \<Rightarrow> (Inl (OpenInput src source), w)
      | Inr evs \<Rightarrow>
     (case so_put_multipart store key w of
        (Inl source, w1) \<Rightarrow> (Inl (UploadObject key source), w1)
      | (Inr answers, w1) \<Rightarrow>
     (case write_multipart key src evs answers of
        (r, tr) \<Rightarrow> (r, so_requests store key tr w1))))"

definition head_object ::
  "'w store_ops \<Rightarrow> object_path \<Rightarrow> 'w \<Rightarrow> (pipeline_io_error + object_meta) \<times> 'w" where
  "head_object store key w = (case so_head store key w of (r, w') \<Rightarrow> (map_err (HeadObject key) r, w'))"

text \<open>\<open>put_manifest\<close>; \<open>to_vec\<close> is \<open>serde_json::to_vec\<close>.\<close>

definition put_manifest ::
  "(completion_manifest \<Rightarrow> foreign + string) \<Rightarrow> 'w store_ops \<Rightarrow> completion_manifest \<Rightarrow> object_path \<Rightarrow> 'w \<Rightarrow>
   (pipeline_io_error + unit) \<times> 'w" where
  "put_manifest to_vec store m key w =
     (case manifest_validate m of
        Inl e \<Rightarrow> (Inl e, w)
      | Inr _ \<Rightarrow>
     (case to_vec m of
        Inl source \<Rightarrow> (Inl (WriteManifest source), w)
      | Inr body \<Rightarrow>
     (case so_put store key body w of (r, w') \<Rightarrow> (map_err (UploadObject key) r, w'))))"

definition delete_object ::
  "'w store_ops \<Rightarrow> object_path \<Rightarrow> 'w \<Rightarrow> (pipeline_io_error + unit) \<times> 'w" where
  "delete_object store key w =
     (case so_delete store key w of
        (Inr _, w') \<Rightarrow> (Inr (), w')
      | (Inl (StoreNotFound s), w') \<Rightarrow> (Inr (), w')
      | (Inl source, w') \<Rightarrow> (Inl (DeleteObject key source), w'))"

definition copy_staged_object ::
  "'w store_ops \<Rightarrow> object_path \<Rightarrow> object_path \<Rightarrow> 'w \<Rightarrow> (pipeline_io_error + unit) \<times> 'w" where
  "copy_staged_object store from_key to_key w =
     (case so_copy store from_key to_key w of (r, w') \<Rightarrow> (map_err (UploadObject to_key) r, w'))"

definition publish_staged_object ::
  "'w store_ops \<Rightarrow> object_path \<Rightarrow> object_path \<Rightarrow> 'w \<Rightarrow> (pipeline_io_error + unit) \<times> 'w" where
  "publish_staged_object store from_key to_key w =
     (case so_rename store from_key to_key w of (r, w') \<Rightarrow> (map_err (UploadObject to_key) r, w'))"

definition best_effort_delete :: "'w store_ops \<Rightarrow> object_path \<Rightarrow> 'w \<Rightarrow> 'w" where
  "best_effort_delete store key w = snd (so_delete store key w)"

subsection \<open>Publication\<close>

text \<open>
  \<open>RemoteStagedOutput::new\<close>: the namespace is the outcome of creating the unique temporary
  directory, its path and the UTF-8 name of its last component if it has one.
\<close>

record remote_staged =
  rs_run_id :: string
  rs_key :: object_path

definition remote_staged_new ::
  "(string \<Rightarrow> object_path) \<Rightarrow> file_path \<Rightarrow> foreign + file_path \<times> string option \<Rightarrow> object_path \<Rightarrow>
   pipeline_io_error + remote_staged" where
  "remote_staged_new path_from temp_dir namespace out =
     (case namespace of
        Inl source \<Rightarrow> Inl (OpenOutput temp_dir source)
      | Inr (path, name) \<Rightarrow>
     (case name of
        None \<Rightarrow> Inl (OpenOutput path ''temporary run namespace has no UTF-8 name'')
      | Some run \<Rightarrow> Inr \<lparr>rs_run_id = run, rs_key = path_from (out @ ''.staging/'' @ run)\<rparr>))"

text \<open>
  The closure whose \<open>result\<close> the source matches: every step, in order, with the outcome a
  failure of it has.  \<open>publish_completion\<close> is its second half, from reading the published
  output's identity on.
\<close>

definition publish_completion ::
  "(completion_manifest \<Rightarrow> foreign + string) \<Rightarrow> 'w store_ops \<Rightarrow> remote_staged \<Rightarrow>
   object_path \<Rightarrow> object_path \<Rightarrow> object_path \<Rightarrow> object_meta \<Rightarrow> nat \<Rightarrow> u64 \<Rightarrow> 'w \<Rightarrow>
   (remote_phase \<times> remote_outcome \<times> pipeline_io_error + unit) \<times> 'w" where
  "publish_completion to_vec store staged out manifest_key in_key in_meta rows digest w =
     (case head_object store out w of
        (Inl e, w4) \<Rightarrow> (Inl (CaptureOutputIdentity, PublishedWithoutCompletion, e), w4)
      | (Inr meta, w4) \<Rightarrow>
     (case output_identity_new (rs_run_id staged) out meta of
        Inl e \<Rightarrow> (Inl (CaptureOutputIdentity, PublishedWithoutCompletion, e), w4)
      | Inr identity \<Rightarrow>
     (case manifest_new_v2 in_key in_meta rows digest identity of
        Inl e \<Rightarrow> (Inl (CaptureOutputIdentity, PublishedWithoutCompletion, e), w4)
      | Inr m \<Rightarrow>
     (case put_manifest to_vec store m manifest_key w4 of
        (Inl e, w5) \<Rightarrow>
          (Inl (WriteCompletion,
                (case e of UploadObject _ _ \<Rightarrow> CompletionUnknown | _ \<Rightarrow> PublishedWithoutCompletion), e), w5)
      | (Inr _, w5) \<Rightarrow> (Inr (), w5)))))"

definition publish_steps ::
  "(completion_manifest \<Rightarrow> foreign + string) \<Rightarrow> 'w store_ops \<Rightarrow> file_path \<Rightarrow> remote_staged \<Rightarrow>
   object_path \<Rightarrow> object_path \<Rightarrow> object_path \<Rightarrow> object_meta \<Rightarrow> nat \<Rightarrow> u64 \<Rightarrow> 'w \<Rightarrow>
   (remote_phase \<times> remote_outcome \<times> pipeline_io_error + unit) \<times> 'w" where
  "publish_steps to_vec store local staged out manifest_key in_key in_meta rows digest w =
     (case upload_from_temp store local (rs_key staged) w of
        (Inl e, w1) \<Rightarrow> (Inl (Upload, RemoteNotPublished, e), w1)
      | (Inr _, w1) \<Rightarrow>
     (case delete_object store manifest_key w1 of
        (Inl e, w2) \<Rightarrow> (Inl (InvalidateCompletion, RemoteNotPublished, e), w2)
      | (Inr _, w2) \<Rightarrow>
     (case copy_staged_object store (rs_key staged) out w2 of
        (Inl e, w3) \<Rightarrow> (Inl (PublishOutput, PublicationUnknown, e), w3)
      | (Inr _, w3) \<Rightarrow>
          publish_completion to_vec store staged out manifest_key in_key in_meta rows digest w3)))"

definition remote_publish ::
  "(string \<Rightarrow> object_path) \<Rightarrow> (completion_manifest \<Rightarrow> foreign + string) \<Rightarrow> file_path \<Rightarrow>
   foreign + file_path \<times> string option \<Rightarrow> 'w store_ops \<Rightarrow> file_path \<Rightarrow>
   object_path \<Rightarrow> object_path \<Rightarrow> object_meta \<Rightarrow> nat \<Rightarrow> u64 \<Rightarrow> 'w \<Rightarrow>
   (pipeline_error + unit) \<times> 'w" where
  "remote_publish path_from to_vec temp_dir namespace store local out in_key in_meta rows digest w =
     (case remote_staged_new path_from temp_dir namespace out of
        Inl e \<Rightarrow> (Inl (Io e), w)
      | Inr staged \<Rightarrow>
          (let manifest_key = key_for path_from out;
               failed = (\<lambda>phase outcome source cleanup. RemotePublication
                 \<lparr>re_phase = phase, re_outcome = outcome, re_output_key = out,
                  re_manifest_key = manifest_key, re_staging_key = rs_key staged,
                  re_source = source, re_cleanup_error = cleanup\<rparr>)
           in case publish_steps to_vec store local staged out manifest_key in_key in_meta rows digest w of
                (Inl (phase, outcome, source), w1) \<Rightarrow>
                  (case delete_object store (rs_key staged) w1 of
                     (Inl e, w2) \<Rightarrow> (Inl (failed phase outcome source (Some e)), w2)
                   | (Inr _, w2) \<Rightarrow> (Inl (failed phase outcome source None), w2))
              | (Inr _, w1) \<Rightarrow>
                  (case delete_object store (rs_key staged) w1 of
                     (Inl e, w2) \<Rightarrow> (Inl (failed CleanupStaging CompletedCleanupUnknown e None), w2)
                   | (Inr _, w2) \<Rightarrow> (Inr (), w2))))"

subsection \<open>What a store documents\<close>

record stored =
  sd_content :: string
  sd_meta :: object_meta

type_synonym objects = "object_path \<Rightarrow> stored option"

text \<open>The record \<open>m\<close> names the output \<open>out\<close> and exactly the usable identity of \<open>meta\<close>.\<close>

definition binds :: "completion_manifest \<Rightarrow> object_path \<Rightarrow> object_meta \<Rightarrow> bool" where
  "binds m out meta \<longleftrightarrow> manifest_validate m = Inr () \<and> schema_version m = 2 \<and> output_key m = Some out \<and>
     (\<forall>t. output_e_tag m = Some t \<longleftrightarrow> om_e_tag meta = Some t \<and> \<not> blank t) \<and>
     (\<forall>v. output_version m = Some v \<longleftrightarrow> om_version meta = Some v \<and> \<not> blank v)"

definition published :: "string \<Rightarrow> object_path \<Rightarrow> objects \<Rightarrow> bool" where
  "published c out objs \<longleftrightarrow> (\<exists>meta. objs out = Some \<lparr>sd_content = c, sd_meta = meta\<rparr>)"

text \<open>
  Output and completion record are both in place, and the record describes this output and
  satisfies \<open>P\<close>; for a run, \<open>P\<close> is that the record holds the run's input, row count and digest.
\<close>

definition describes_run :: "object_path \<Rightarrow> nat \<Rightarrow> u64 \<Rightarrow> completion_manifest \<Rightarrow> bool" where
  "describes_run in_key rows digest m \<longleftrightarrow>
     input_key m = in_key \<and> row_count m = rows \<and> content_digest m = hex16 digest"

definition completed ::
  "(completion_manifest \<Rightarrow> foreign + string) \<Rightarrow> (completion_manifest \<Rightarrow> bool) \<Rightarrow> string \<Rightarrow> object_path \<Rightarrow> object_path \<Rightarrow> objects \<Rightarrow> bool" where
  "completed to_vec P c out man objs \<longleftrightarrow>
     (\<exists>m meta body mmeta. objs out = Some \<lparr>sd_content = c, sd_meta = meta\<rparr> \<and>
        objs man = Some \<lparr>sd_content = body, sd_meta = mmeta\<rparr> \<and>
        to_vec m = Inr body \<and> binds m out meta \<and> P m)"

text \<open>What each reported outcome says of the store before (\<open>old\<close>) and after (\<open>new\<close>).\<close>

fun outcome_holds ::
  "(completion_manifest \<Rightarrow> foreign + string) \<Rightarrow> (completion_manifest \<Rightarrow> bool) \<Rightarrow> string \<Rightarrow> object_path \<Rightarrow> object_path \<Rightarrow> objects \<Rightarrow> objects \<Rightarrow>
   remote_outcome \<Rightarrow> bool" where
  "outcome_holds to_vec P c out man old new RemoteNotPublished \<longleftrightarrow>
     new out = old out \<and> (new man = old man \<or> new man = None)"
| "outcome_holds to_vec P c out man old new PublicationUnknown \<longleftrightarrow>
     new man = None \<and> (new out = old out \<or> published c out new)"
| "outcome_holds to_vec P c out man old new PublishedWithoutCompletion \<longleftrightarrow>
     new man = None \<and> published c out new"
| "outcome_holds to_vec P c out man old new CompletionUnknown \<longleftrightarrow>
     published c out new \<and> (new man = None \<or> completed to_vec P c out man new)"
| "outcome_holds to_vec P c out man old new CompletedCleanupUnknown \<longleftrightarrow> completed to_vec P c out man new"

locale object_store =
  fixes store :: "'w store_ops"
    and objects :: "'w \<Rightarrow> objects"
    and local_content :: "file_path \<Rightarrow> string"
  assumes head_keeps: "so_head store k w = (r, w') \<Longrightarrow> objects w' = objects w"
    and head_ok: "so_head store k w = (Inr meta, w') \<Longrightarrow> \<exists>c. objects w k = Some \<lparr>sd_content = c, sd_meta = meta\<rparr>"
    and put_ok: "so_put store k b w = (Inr (), w') \<Longrightarrow>
      \<exists>meta. objects w' = (objects w)(k \<mapsto> \<lparr>sd_content = b, sd_meta = meta\<rparr>)"
    and put_err: "so_put store k b w = (Inl e, w') \<Longrightarrow> objects w' = objects w \<or>
      (\<exists>meta. objects w' = (objects w)(k \<mapsto> \<lparr>sd_content = b, sd_meta = meta\<rparr>))"
    and delete_ok: "so_delete store k w = (Inr (), w') \<Longrightarrow> objects w' = (objects w)(k := None)"
    and delete_err: "so_delete store k w = (Inl e, w') \<Longrightarrow>
      objects w' = (objects w)(k := None) \<or> objects w' = objects w \<and> (\<forall>s. e \<noteq> StoreNotFound s)"
    and copy_ok: "so_copy store a b w = (Inr (), w') \<Longrightarrow> \<exists>src meta. objects w a = Some src \<and>
      objects w' = (objects w)(b \<mapsto> \<lparr>sd_content = sd_content src, sd_meta = meta\<rparr>)"
    and copy_err: "so_copy store a b w = (Inl e, w') \<Longrightarrow> objects w' = objects w \<or>
      (\<exists>src meta. objects w a = Some src \<and>
        objects w' = (objects w)(b \<mapsto> \<lparr>sd_content = sd_content src, sd_meta = meta\<rparr>))"
    and opened: "so_open store f = Inr evs \<Longrightarrow> read_error evs = None \<Longrightarrow> contents evs = local_content f"
    and put_multipart_keeps: "so_put_multipart store k w = (started, w') \<Longrightarrow> objects w' = objects w"
    and requests_keep: "\<forall>c. Complete c \<notin> set tr \<Longrightarrow> objects (so_requests store k tr w) = objects w"
    and complete_ok: "so_put_multipart store k w = (Inr answers, w') \<Longrightarrow>
      Complete (ua_complete answers) \<in> set tr \<Longrightarrow> ua_complete answers = Inr () \<Longrightarrow>
      \<exists>meta. objects (so_requests store k tr w') =
        (objects w')(k \<mapsto> \<lparr>sd_content = concat (parts_of tr), sd_meta = meta\<rparr>)"
    and complete_err: "so_put_multipart store k w = (Inr answers, w') \<Longrightarrow>
      Complete (ua_complete answers) \<in> set tr \<Longrightarrow> ua_complete answers = Inl ce \<Longrightarrow>
      objects (so_requests store k tr w') = objects w' \<or>
      (\<exists>meta. objects (so_requests store k tr w') =
        (objects w')(k \<mapsto> \<lparr>sd_content = concat (parts_of tr), sd_meta = meta\<rparr>))"
begin

lemma delete_object_cases:
  assumes "delete_object store k w = (r, w')"
  shows "objects w' = (objects w)(k := None) \<or> r \<noteq> Inr () \<and> objects w' = objects w"
proof -
  obtain r0 where d: "so_delete store k w = (r0, w')"
    using assms by (cases "so_delete store k w")
      (auto simp: delete_object_def split: sum.splits store_error.splits)
  show ?thesis
  proof (cases r0)
    case (Inr u)
    with d delete_ok [of k w w'] show ?thesis by auto
  next
    case (Inl e)
    with d delete_err [of k w e w'] assms show ?thesis
      by (cases e) (auto simp: delete_object_def)
  qed
qed

lemma delete_object_ok: "delete_object store k w = (Inr (), w') \<Longrightarrow> objects w' = (objects w)(k := None)"
  using delete_object_cases by fastforce

lemma delete_object_any:
  "delete_object store k w = (r, w') \<Longrightarrow> objects w' = (objects w)(k := None) \<or> objects w' = objects w"
  using delete_object_cases by blast

lemma head_object_ok:
  "head_object store k w = (r, w') \<Longrightarrow> objects w' = objects w \<and>
     (\<forall>meta. r = Inr meta \<longrightarrow> (\<exists>c. objects w k = Some \<lparr>sd_content = c, sd_meta = meta\<rparr>))"
  using head_keeps head_ok by (auto simp: head_object_def split: prod.splits)

lemma copy_object_cases:
  assumes "copy_staged_object store a b w = (r, w')"
  shows "(r \<noteq> Inr () \<and> objects w' = objects w) \<or>
   (\<exists>src meta. objects w a = Some src \<and>
      objects w' = (objects w)(b \<mapsto> \<lparr>sd_content = sd_content src, sd_meta = meta\<rparr>))"
proof -
  obtain r0 where c: "so_copy store a b w = (r0, w')" "r = map_err (UploadObject b) r0"
    using assms by (auto simp: copy_staged_object_def split: prod.splits)
  show ?thesis
  proof (cases r0)
    case (Inl e)
    with copy_err [of a b w e w'] c show ?thesis by auto
  next
    case (Inr u)
    with copy_ok [of a b w w'] c show ?thesis by auto
  qed
qed

lemma put_manifest_cases:
  assumes "put_manifest to_vec store m k w = (r, w')"
  shows "(r \<noteq> Inr () \<and> objects w' = objects w) \<or>
   (manifest_validate m = Inr () \<and> (\<exists>body meta. to_vec m = Inr body \<and>
      objects w' = (objects w)(k \<mapsto> \<lparr>sd_content = body, sd_meta = meta\<rparr>) \<and>
      (r = Inr () \<or> (\<exists>e. r = Inl (UploadObject k e)))))"
proof (cases "manifest_validate m")
  case (Inl e)
  with assms show ?thesis by (auto simp: put_manifest_def)
next
  case v: (Inr u)
  show ?thesis
  proof (cases "to_vec m")
    case (Inl e)
    with assms v show ?thesis by (auto simp: put_manifest_def)
  next
    case (Inr body)
    obtain r0 where p: "so_put store k body w = (r0, w')" "r = map_err (UploadObject k) r0"
      using assms v Inr by (auto simp: put_manifest_def split: prod.splits)
    show ?thesis
    proof (cases r0)
      case (Inl e)
      with put_err [of k body w e w'] p v Inr show ?thesis by auto
    next
      case r0: (Inr u2)
      with put_ok [of k body w w'] p v Inr show ?thesis by auto
    qed
  qed
qed

lemma put_manifest_err_keeps:
  "put_manifest to_vec store m k w = (Inl e, w') \<Longrightarrow> \<forall>k' s. e \<noteq> UploadObject k' s \<Longrightarrow> objects w' = objects w"
  using put_manifest_cases [of to_vec m k w "Inl e" w'] by auto

lemma requests_cases:
  assumes start: "so_put_multipart store k w = (Inr answers, w1)"
    and run: "write_multipart k f evs answers = (r, tr)" and src: "so_open store f = Inr evs"
  shows "(r \<noteq> Inr () \<and> objects (so_requests store k tr w1) = objects w1) \<or>
   (\<exists>meta. objects (so_requests store k tr w1) =
      (objects w1)(k \<mapsto> \<lparr>sd_content = local_content f, sd_meta = meta\<rparr>))"
proof (cases r)
  case (Inr u)
  with multipart_spec [OF run] obtain sent where ok: "ua_complete answers = Inr ()"
    and tr: "tr = sent @ [Complete (Inr ())]" and sent: "delivered evs sent" by auto
  have "concat (parts_of tr) = local_content f"
    using sent opened [OF src] by (simp add: tr delivered_def)
  moreover have "Complete (ua_complete answers) \<in> set tr" by (simp add: tr ok)
  ultimately show ?thesis using complete_ok [OF start _ ok] by metis
next
  case (Inl e)
  with multipart_spec [OF run] obtain sent source where
    tr: "tr = sent @ [Abort (ua_abort answers)]" and first: "first_failure k f evs sent source" by auto
  have smooth_none: "Complete c \<notin> set xs" if "list_all smooth xs" for c xs
    using that by (auto simp: list_all_iff)
  show ?thesis
  proof (cases "\<exists>ce pre. sent = pre @ [Complete (Inl ce)] \<and> delivered evs pre")
    case False
    with first have "\<forall>c. Complete c \<notin> set tr"
      by (auto simp: first_failure_def tr smooth_none)
    with requests_keep Inl show ?thesis by auto
  next
    case True
    then obtain ce pre where pre: "sent = pre @ [Complete (Inl ce)]" "delivered evs pre" by blast
    have ce: "ua_complete answers = Inl ce"
      using multipart_completes [OF run, of "Inl ce"] pre(1) by (simp add: tr)
    have "concat (parts_of tr) = local_content f"
      using pre opened [OF src] by (simp add: tr delivered_def)
    moreover have "Complete (ua_complete answers) \<in> set tr" by (simp add: tr pre ce)
    ultimately show ?thesis using complete_err [OF start _ ce, of tr] Inl by auto
  qed
qed

lemma upload_cases:
  assumes "upload_from_temp store f k w = (r, w')"
  shows "(r \<noteq> Inr () \<and> objects w' = objects w) \<or>
   (\<exists>meta. objects w' = (objects w)(k \<mapsto> \<lparr>sd_content = local_content f, sd_meta = meta\<rparr>))"
proof (cases "so_open store f")
  case (Inl e)
  with assms show ?thesis by (auto simp: upload_from_temp_def)
next
  case (Inr evs)
  note src = Inr
  obtain started w1 where start: "so_put_multipart store k w = (started, w1)" by fastforce
  note same = put_multipart_keeps [OF start]
  show ?thesis
  proof (cases started)
    case (Inl e)
    with assms src start same show ?thesis by (auto simp: upload_from_temp_def)
  next
    case (Inr answers)
    obtain r1 tr where run: "write_multipart k f evs answers = (r1, tr)" by fastforce
    have "r = r1" "w' = so_requests store k tr w1"
      using assms src start run Inr by (simp_all add: upload_from_temp_def)
    with requests_cases [OF start [unfolded Inr] run src] same show ?thesis by simp
  qed
qed

lemma filter_option_Some: "filter_option P x = Some y \<longleftrightarrow> x = Some y \<and> P y"
  by (cases x) (auto simp: filter_option_def)

lemma manifest_v2_binds:
  assumes "output_identity_new run out meta = Inr oi" and "manifest_new_v2 in_key in_meta rows digest oi = Inr m"
  shows "binds m out meta" and "describes_run in_key rows digest m"
proof -
  have "manifest_validate m = Inr ()" and "oi = \<lparr>oi_run_id = run, oi_key = out, oi_meta = meta\<rparr>"
    using assms by (auto simp: manifest_new_v2_def Let_def and_then_unit_ok output_identity_ok)
  with assms(2) show "binds m out meta" and "describes_run in_key rows digest m"
    by (auto simp: manifest_new_v2_def manifest_new_def Let_def and_then_unit_ok binds_def
        filter_option_Some describes_run_def)
qed

lemma publish_completion_spec:
  assumes run: "publish_completion to_vec store staged out man in_key in_meta rows digest w = (r, w')"
    and pub: "published c out (objects w)" and none: "objects w man = None" and keys: "out \<noteq> man"
  shows "(\<forall>k. k \<noteq> man \<longrightarrow> objects w' k = objects w k) \<and>
    (case r of
       Inr _ \<Rightarrow> completed to_vec (describes_run in_key rows digest) c out man (objects w')
     | Inl (phase, outcome, e) \<Rightarrow>
         outcome = PublishedWithoutCompletion \<and> objects w' man = None \<or>
         outcome = CompletionUnknown \<and>
           (objects w' man = None \<or> completed to_vec (describes_run in_key rows digest) c out man (objects w')))"
proof -
  obtain r4 w4 where hd: "head_object store out w = (r4, w4)" by fastforce
  note hd_ok = head_object_ok [OF hd]
  show ?thesis
  proof (cases "\<exists>meta oi m. r4 = Inr meta \<and> output_identity_new (rs_run_id staged) out meta = Inr oi \<and>
      manifest_new_v2 in_key in_meta rows digest oi = Inr m")
    case False
    then show ?thesis
      using run hd hd_ok none by (auto simp: publish_completion_def split: sum.splits)
  next
    case True
    then obtain meta oi m where m: "r4 = Inr meta" "output_identity_new (rs_run_id staged) out meta = Inr oi"
      "manifest_new_v2 in_key in_meta rows digest oi = Inr m" by blast
    obtain r5 w5 where put: "put_manifest to_vec store m man w4 = (r5, w5)" by fastforce
    have meta: "objects w out = Some \<lparr>sd_content = c, sd_meta = meta\<rparr>"
      using pub hd_ok m(1) by (auto simp: published_def)
    note binds = manifest_v2_binds [OF m(2,3)]
    have w': "w' = w5" and r: "r = (case r5 of
        Inl e \<Rightarrow> Inl (WriteCompletion, (case e of UploadObject _ _ \<Rightarrow> CompletionUnknown
           | _ \<Rightarrow> PublishedWithoutCompletion), e)
      | Inr _ \<Rightarrow> Inr ())"
      using run hd m put by (auto simp: publish_completion_def split: sum.splits)
    have finished: "completed to_vec (describes_run in_key rows digest) c out man (objects w5)"
      if "to_vec m = Inr body" "objects w5 = (objects w4)(man \<mapsto> \<lparr>sd_content = body, sd_meta = mm\<rparr>)" for body mm
      using that meta binds hd_ok keys unfolding completed_def by fastforce
    from put_manifest_cases [OF put] show ?thesis
    proof (elim disjE conjE exE)
      assume "r5 \<noteq> Inr ()" and same: "objects w5 = objects w4"
      then obtain e where "r5 = Inl e" by (cases r5) auto
      then show ?thesis using same hd_ok none
        by (cases e) (simp_all add: w' r)
    next
      fix body mm
      assume "to_vec m = Inr body" "objects w5 = (objects w4)(man \<mapsto> \<lparr>sd_content = body, sd_meta = mm\<rparr>)"
        and r5: "r5 = Inr ()"
      with finished [OF this(1,2)] hd_ok show ?thesis by (simp add: w' r)
    next
      fix body mm e
      assume "to_vec m = Inr body" "objects w5 = (objects w4)(man \<mapsto> \<lparr>sd_content = body, sd_meta = mm\<rparr>)"
        and r5: "r5 = Inl (UploadObject man e)"
      with finished [OF this(1,2)] hd_ok show ?thesis by (simp add: w' r)
    qed
  qed
qed

lemma publish_steps_spec:
  assumes run: "publish_steps to_vec store f staged out man in_key in_meta rows digest w = (r, w')"
    and keys: "rs_key staged \<noteq> out" "rs_key staged \<noteq> man" "out \<noteq> man"
  defines "c \<equiv> local_content f"
  shows "(\<forall>k. k \<noteq> rs_key staged \<longrightarrow> k \<noteq> out \<longrightarrow> k \<noteq> man \<longrightarrow> objects w' k = objects w k) \<and>
    (case r of
       Inr _ \<Rightarrow> completed to_vec (describes_run in_key rows digest) c out man (objects w')
     | Inl (phase, outcome, e) \<Rightarrow>
         outcome \<noteq> CompletedCleanupUnknown \<and>
         outcome_holds to_vec (describes_run in_key rows digest) c out man (objects w) (objects w') outcome)"
proof -
  let ?stg = "rs_key staged"
  obtain r1 w1 where up: "upload_from_temp store f ?stg w = (r1, w1)" by fastforce
  obtain r2 w2 where del: "delete_object store man w1 = (r2, w2)" by fastforce
  obtain r3 w3 where cp: "copy_staged_object store ?stg out w2 = (r3, w3)" by fastforce
  have w1: "objects w1 = objects w \<or> (\<exists>meta. objects w1 = (objects w)(?stg \<mapsto> \<lparr>sd_content = c, sd_meta = meta\<rparr>))"
    using upload_cases [OF up] unfolding c_def by blast
  show ?thesis
  proof (cases r1)
    case (Inl e)
    then show ?thesis using run up w1 keys by (auto simp: publish_steps_def)
  next
    case r1: (Inr u1)
    then obtain meta0 where w1: "objects w1 = (objects w)(?stg \<mapsto> \<lparr>sd_content = c, sd_meta = meta0\<rparr>)"
      using upload_cases [OF up] unfolding c_def by auto
    show ?thesis
    proof (cases r2)
      case (Inl e)
      then show ?thesis using run up r1 del w1 keys delete_object_any [OF del]
        by (auto simp: publish_steps_def)
    next
      case r2: (Inr u2)
      have w2: "objects w2 = (objects w1)(man := None)" using delete_object_ok del r2 by simp
      show ?thesis
      proof (cases r3)
        case (Inl e)
        then show ?thesis
          using run up r1 del r2 cp w1 w2 keys copy_object_cases [OF cp]
          by (auto simp: publish_steps_def published_def)
      next
        case r3: (Inr u3)
        then obtain meta3 where w3: "objects w3 = (objects w2)(out \<mapsto> \<lparr>sd_content = c, sd_meta = meta3\<rparr>)"
          using copy_object_cases [OF cp] w1 w2 keys by auto
        have now: "published c out (objects w3)" "objects w3 man = None"
          "\<forall>k. k \<noteq> ?stg \<longrightarrow> k \<noteq> out \<longrightarrow> k \<noteq> man \<longrightarrow> objects w3 k = objects w k"
          using w1 w2 w3 keys by (auto simp: published_def)
        have tail: "publish_completion to_vec store staged out man in_key in_meta rows digest w3 = (r, w')"
          using run up r1 del r2 cp r3 by (simp add: publish_steps_def)
        have "published c out (objects w')"
          using now(1) publish_completion_spec [OF tail now(1,2) keys(3)] keys(3)
          by (simp add: published_def)
        then show ?thesis
          using publish_completion_spec [OF tail now(1,2) keys(3)] now(3) keys
          by (auto split: sum.splits)
      qed
    qed
  qed
qed

lemma remote_publish_spec:
  assumes run: "remote_publish path_from to_vec tmp (Inr (path, Some rid)) store f out in_key in_meta rows digest w = (r, w')"
    and stg_def: "stg = path_from (out @ ''.staging/'' @ rid)" and man_def: "man = key_for path_from out"
    and keys: "stg \<noteq> out" "stg \<noteq> man" "out \<noteq> man"
  shows "(\<forall>k. k \<noteq> stg \<longrightarrow> k \<noteq> out \<longrightarrow> k \<noteq> man \<longrightarrow> objects w' k = objects w k) \<and>
    (case r of
       Inr _ \<Rightarrow> completed to_vec (describes_run in_key rows digest) (local_content f) out man (objects w') \<and> objects w' stg = None
     | Inl e \<Rightarrow> \<exists>re. e = RemotePublication re \<and> re_output_key re = out \<and> re_manifest_key re = man \<and>
         re_staging_key re = stg \<and>
         outcome_holds to_vec (describes_run in_key rows digest) (local_content f) out man (objects w) (objects w') (re_outcome re))"
proof -
  define staged where "staged = \<lparr>rs_run_id = rid, rs_key = stg\<rparr>"
  have new: "remote_staged_new path_from tmp (Inr (path, Some rid)) out = Inr staged"
    by (simp add: remote_staged_new_def staged_def stg_def)
  have keys': "rs_key staged \<noteq> out" "rs_key staged \<noteq> man" using keys by (simp_all add: staged_def)
  obtain r1 w1 where st: "publish_steps to_vec store f staged out man in_key in_meta rows digest w = (r1, w1)"
    by fastforce
  note spec = publish_steps_spec [OF st keys' keys(3)]
  obtain r2 w2 where del: "delete_object store stg w1 = (r2, w2)" by fastforce
  have w2: "objects w2 k = objects w1 k" if "k \<noteq> stg" for k
    using delete_object_any [OF del] that by auto
  have same: "outcome_holds to_vec (describes_run in_key rows digest) c out man old (objects w2) oc = outcome_holds to_vec (describes_run in_key rows digest) c out man old (objects w1) oc"
    "completed to_vec (describes_run in_key rows digest) c out man (objects w2) = completed to_vec (describes_run in_key rows digest) c out man (objects w1)" for c old oc
    using w2 [of out] w2 [of man] keys
    by (cases oc; simp add: published_def completed_def)+
  have "w' = w2"
    using run new st del
    by (auto simp: remote_publish_def man_def staged_def Let_def split: sum.splits prod.splits)
  moreover have "objects w2 stg = None" if "r2 = Inr ()"
    using delete_object_ok del that by simp
  moreover have "(case r of
       Inr _ \<Rightarrow> r1 = Inr () \<and> r2 = Inr ()
     | Inl e \<Rightarrow> \<exists>re. e = RemotePublication re \<and> re_output_key re = out \<and> re_manifest_key re = man \<and>
         re_staging_key re = stg \<and>
         ((\<exists>ph src. r1 = Inl (ph, re_outcome re, src)) \<or> r1 = Inr () \<and> re_outcome re = CompletedCleanupUnknown))"
    using run new st del
    by (auto simp: remote_publish_def man_def staged_def Let_def split: sum.splits prod.splits)
  ultimately show ?thesis
    using spec w2 same by (cases r) (auto simp: staged_def)
qed

end

subsection \<open>A reference store\<close>

text \<open>
  A store in memory whose calls follow a plan of faults, each with or without effect: the
  interface's laws hold of it, for every plan.
\<close>

record mem_store =
  ms_objects :: objects
  ms_faults :: "(bool \<times> foreign) option list"
  ms_writes :: nat

definition ms_step :: "(mem_store \<Rightarrow> mem_store) \<Rightarrow> mem_store \<Rightarrow> (store_error + unit) \<times> mem_store" where
  "ms_step act w =
     (case ms_faults w of
        Some (effect, e) # rest \<Rightarrow>
          (Inl (StoreOther e), (if effect then act (w\<lparr>ms_faults := rest\<rparr>) else w\<lparr>ms_faults := rest\<rparr>))
      | None # rest \<Rightarrow> (Inr (), act (w\<lparr>ms_faults := rest\<rparr>))
      | [] \<Rightarrow> (Inr (), act w))"

definition ms_write :: "object_path \<Rightarrow> string \<Rightarrow> mem_store \<Rightarrow> mem_store" where
  "ms_write k b w =
     w\<lparr>ms_objects := (ms_objects w)(k \<mapsto> \<lparr>sd_content = b, sd_meta =
          \<lparr>om_location = k, om_last_modified = '''', om_size = length b,
           om_e_tag = Some (digits (ms_writes w)), om_version = None\<rparr>\<rparr>),
       ms_writes := ms_writes w + 1\<rparr>"

fun completes :: "upload_event \<Rightarrow> bool" where
  "completes (Complete c) \<longleftrightarrow> True"
| "completes _ \<longleftrightarrow> False"

lemma completes_iff: "completes ev \<longleftrightarrow> (\<exists>c. ev = Complete c)"
  by (cases ev) auto

definition mem_ops :: "(file_path \<Rightarrow> string) \<Rightarrow> mem_store store_ops" where
  "mem_ops files =
     \<lparr>so_head = (\<lambda>k w. (case ms_objects w k of
          None \<Rightarrow> (Inl (StoreNotFound k), w)
        | Some obj \<Rightarrow> (case ms_step (\<lambda>w. w) w of
            (Inl e, w') \<Rightarrow> (Inl e, w') | (Inr _, w') \<Rightarrow> (Inr (sd_meta obj), w')))),
      so_put = (\<lambda>k b. ms_step (ms_write k b)),
      so_delete = (\<lambda>k. ms_step (\<lambda>w. w\<lparr>ms_objects := (ms_objects w)(k := None)\<rparr>)),
      so_copy = (\<lambda>a b w. (case ms_objects w a of
          None \<Rightarrow> (Inl (StoreNotFound a), w)
        | Some src \<Rightarrow> ms_step (ms_write b (sd_content src)) w)),
      so_rename = (\<lambda>a b w. (case ms_objects w a of
          None \<Rightarrow> (Inl (StoreNotFound a), w)
        | Some src \<Rightarrow> ms_step (\<lambda>w. (ms_write b (sd_content src) w)
            \<lparr>ms_objects := (ms_objects (ms_write b (sd_content src) w))(a := None)\<rparr>) w)),
      so_open = (\<lambda>f. Inr [Bytes (files f)]),
      so_put_multipart = (\<lambda>k w. (Inr \<lparr>ua_awaits = [],
          ua_complete = (case ms_faults w of Some (_, e) # _ \<Rightarrow> Inl (StoreOther e) | _ \<Rightarrow> Inr ()),
          ua_abort = Inr ()\<rparr>, w)),
      so_requests = (\<lambda>k tr w.
          if list_ex completes tr then snd (ms_step (ms_write k (concat (parts_of tr))) w) else w)\<rparr>"

lemma ms_step_cases:
  "ms_step act w = (r, w') \<Longrightarrow> \<exists>rest. (r = Inr () \<and> w' = act (w\<lparr>ms_faults := rest\<rparr>)) \<or>
     (\<exists>e. r = Inl (StoreOther e) \<and> (w' = act (w\<lparr>ms_faults := rest\<rparr>) \<or> w' = w\<lparr>ms_faults := rest\<rparr>))"
  by (auto simp: ms_step_def split: list.splits option.splits prod.splits if_splits)
    (metis mem_store.surjective mem_store.update_convs(2))

lemma ms_step_write:
  assumes "ms_step (ms_write k b) w = (r, w')"
  shows "(r = Inr () \<or> (\<exists>e. r = Inl (StoreOther e))) \<and>
    ((\<exists>meta. ms_objects w' = (ms_objects w)(k \<mapsto> \<lparr>sd_content = b, sd_meta = meta\<rparr>)) \<or>
     r \<noteq> Inr () \<and> ms_objects w' = ms_objects w)"
  using ms_step_cases [OF assms] by (auto simp: ms_write_def)

lemma ms_step_remove:
  assumes "ms_step (\<lambda>w. w\<lparr>ms_objects := (ms_objects w)(k := None)\<rparr>) w = (r, w')"
  shows "(r = Inr () \<or> (\<exists>e. r = Inl (StoreOther e))) \<and>
    (ms_objects w' = (ms_objects w)(k := None) \<or> r \<noteq> Inr () \<and> ms_objects w' = ms_objects w)"
  using ms_step_cases [OF assms] by auto

lemma ms_step_ok:
  assumes "(case ms_faults w of Some (effect, e) # rest \<Rightarrow> Inl (StoreOther e) | _ \<Rightarrow> Inr ()) = Inr ()"
  shows "\<exists>meta. ms_objects (snd (ms_step (ms_write k b) w)) = (ms_objects w)(k \<mapsto> \<lparr>sd_content = b, sd_meta = meta\<rparr>)"
  using assms by (auto simp: ms_step_def ms_write_def split: list.splits option.splits prod.splits)

interpretation memory: object_store "mem_ops files" ms_objects files for files
proof (unfold_locales, goal_cases)
  case (1 k w r w')
  then show ?case by (auto simp: mem_ops_def split: option.splits prod.splits sum.splits dest: ms_step_cases)
next
  case (2 k w meta w')
  then obtain obj where "ms_objects w k = Some obj" "meta = sd_meta obj"
    by (auto simp: mem_ops_def split: option.splits prod.splits sum.splits)
  then show ?case by (cases obj) auto
next
  case (3 k b w w')
  then show ?case by (auto simp: mem_ops_def dest: ms_step_write)
next
  case (4 k b w e w')
  then show ?case by (auto simp: mem_ops_def dest: ms_step_write)
next
  case (5 k w w')
  then show ?case by (auto simp: mem_ops_def dest: ms_step_remove)
next
  case (6 k w e w')
  then show ?case by (auto simp: mem_ops_def dest: ms_step_remove)
next
  case (7 a b w w')
  then show ?case by (auto simp: mem_ops_def split: option.splits dest!: ms_step_write)
next
  case (8 a b w e w')
  then show ?case by (auto simp: mem_ops_def split: option.splits dest!: ms_step_write)
next
  case (9 f evs)
  then show ?case by (auto simp: mem_ops_def)
next
  case (10 k w started w')
  then show ?case by (auto simp: mem_ops_def)
next
  case (11 tr k w)
  then show ?case by (auto simp: mem_ops_def list_ex_iff completes_iff)
next
  case (12 k w answers w' tr)
  from 12(2) have "list_ex completes tr" by (auto simp: list_ex_iff completes_iff)
  with 12 ms_step_ok show ?case by (auto simp: mem_ops_def)
next
  case (13 k w answers w' tr ce)
  from 13(2) have "list_ex completes tr" by (auto simp: list_ex_iff completes_iff)
  then show ?case
    using ms_step_write [OF prod.collapse [symmetric], of k "concat (parts_of tr)" w'] by (auto simp: mem_ops_def)
qed

lemma mem_upload:
  assumes "ms_faults w = []"
  shows "upload_from_temp (mem_ops files) f k w = (Inr (), ms_write k (files f) w)"
proof -
  let ?evs = "[Bytes (files f)]" and ?answers = "\<lparr>ua_awaits = [], ua_complete = Inr (), ua_abort = Inr ()\<rparr>"
  obtain r tr where run: "write_multipart k f ?evs ?answers = (r, tr)" by fastforce
  then have "r = Inr () \<and> (\<exists>sent. tr = sent @ [Complete (Inr ())] \<and> delivered ?evs sent)"
    by (intro multipart_succeeds) simp_all
  then obtain sent where ok: "r = Inr ()" "tr = sent @ [Complete (Inr ())]" "delivered ?evs sent" by blast
  then have "concat (parts_of sent) = files f" by (simp add: delivered_def)
  with run ok assms show ?thesis by (simp add: upload_from_temp_def mem_ops_def ms_step_def)
qed

subsection \<open>Properties\<close>

text \<open>
  C2. Every outcome of remote publication is true of the store, for any store whose failed
  mutations may or may not have taken effect: success means that output and completion
  record are both in place, that the record validates, describes the stored output and holds the run's row count and digest,
  and that staging is gone; each reported outcome bounds what happened to output and
  record as documented; no key but the output, its record and this run's staging key
  changes.
\<close>

theorem remote_publish_truthful:
  assumes "object_store store objects local_content"
    and "stg = path_from (out @ ''.staging/'' @ rid)" and "man = key_for path_from out"
    and "stg \<noteq> out" and "stg \<noteq> man" and "out \<noteq> man"
    and "remote_publish path_from to_vec tmp (Inr (path, Some rid)) store f out in_key in_meta rows digest w = (r, w')"
  shows "(\<forall>k. k \<noteq> stg \<longrightarrow> k \<noteq> out \<longrightarrow> k \<noteq> man \<longrightarrow> objects w' k = objects w k) \<and>
    (case r of
       Inr _ \<Rightarrow> completed to_vec (describes_run in_key rows digest) (local_content f) out man (objects w') \<and> objects w' stg = None
     | Inl e \<Rightarrow> \<exists>re. e = RemotePublication re \<and> re_output_key re = out \<and> re_manifest_key re = man \<and>
         re_staging_key re = stg \<and>
         outcome_holds to_vec (describes_run in_key rows digest) (local_content f) out man (objects w) (objects w') (re_outcome re))"
  by (rule object_store.remote_publish_spec [OF assms(1) assms(7) assms(2-6)])

definition sample_meta :: object_meta where
  "sample_meta = \<lparr>om_location = ''in'', om_last_modified = ''t'', om_size = 3, om_e_tag = Some ''e'', om_version = None\<rparr>"

definition sample_store :: mem_store where
  "sample_store = \<lparr>ms_objects = Map.empty, ms_faults = [None, None, Some (True, ''timeout'')], ms_writes = 0\<rparr>"

lemma remote_publish_truthful_witness:
  "case remote_publish (\<lambda>s. s) (\<lambda>m. Inr ''{}'') ''/tmp'' (Inr (''/tmp/r'', Some ''r'')) (mem_ops (\<lambda>_. ''data''))
      ''f'' ''o'' ''in'' sample_meta 1 0 sample_store of
     (Inr _, w') \<Rightarrow> completed (\<lambda>m. Inr ''{}'') (describes_run ''in'' 1 0) ''data'' ''o'' ''o.manifest.json'' (ms_objects w')
   | (Inl e, w') \<Rightarrow> (\<exists>re. e = RemotePublication re \<and>
       outcome_holds (\<lambda>m. Inr ''{}'') (describes_run ''in'' 1 0) ''data'' ''o'' ''o.manifest.json'' (ms_objects sample_store) (ms_objects w')
         (re_outcome re))"
proof -
  let ?run = "remote_publish (\<lambda>s. s) (\<lambda>m. Inr ''{}'') ''/tmp'' (Inr (''/tmp/r'', Some ''r'')) (mem_ops (\<lambda>_. ''data''))
      ''f'' ''o'' ''in'' sample_meta 1 0 sample_store"
  obtain r w' where run: "?run = (r, w')" by fastforce
  have keys: "''o.staging/r'' = (\<lambda>s. s) (''o'' @ ''.staging/'' @ ''r'')" "''o.manifest.json'' = key_for (\<lambda>s. s) ''o''"
    by (simp_all add: key_for_def)
  show ?thesis
    using remote_publish_truthful [OF memory.object_store_axioms keys _ _ _ run] run
    by (auto split: sum.splits)
qed

text \<open>The record in place, if there is one, was written for the output in place.\<close>

definition record_describes_output ::
  "(completion_manifest \<Rightarrow> foreign + string) \<Rightarrow> object_path \<Rightarrow> object_path \<Rightarrow> objects \<Rightarrow> bool" where
  "record_describes_output to_vec out man objs \<longleftrightarrow>
     (\<forall>rec. objs man = Some rec \<longrightarrow>
        (\<exists>m obj. to_vec m = Inr (sd_content rec) \<and> objs out = Some obj \<and> binds m out (sd_meta obj)))"

lemma completed_describes: "completed to_vec P c out man objs \<Longrightarrow> record_describes_output to_vec out man objs"
  by (fastforce simp: completed_def record_describes_output_def)

lemma outcome_describes:
  "outcome_holds to_vec P c out man old new oc \<Longrightarrow> record_describes_output to_vec out man old \<Longrightarrow>
   record_describes_output to_vec out man new"
  by (cases oc) (auto dest: completed_describes simp: record_describes_output_def)

text \<open>
  C24. Publication never leaves a completion record beside an output it does not describe:
  if the record in place described the output in place before the run, it does after it,
  whatever failed and whichever failed calls took effect.
\<close>

theorem completion_record_never_stale:
  assumes "object_store store objects local_content"
    and "path_from (out @ ''.staging/'' @ rid) \<noteq> out" and "path_from (out @ ''.staging/'' @ rid) \<noteq> key_for path_from out"
    and "out \<noteq> key_for path_from out"
    and "remote_publish path_from to_vec tmp (Inr (path, Some rid)) store f out in_key in_meta rows digest w = (r, w')"
    and "record_describes_output to_vec out (key_for path_from out) (objects w)"
  shows "record_describes_output to_vec out (key_for path_from out) (objects w')"
  using object_store.remote_publish_spec [OF assms(1,5) refl refl assms(2-4)] assms(6)
  by (cases r) (auto dest: completed_describes outcome_describes)

lemma completion_record_never_stale_witness:
  "record_describes_output (\<lambda>m. Inr ''{}'') ''o'' ''o.manifest.json''
     (ms_objects (snd (remote_publish (\<lambda>s. s) (\<lambda>m. Inr ''{}'') ''/tmp'' (Inr (''/tmp/r'', Some ''r''))
        (mem_ops (\<lambda>_. ''data'')) ''f'' ''o'' ''in'' sample_meta 1 0 sample_store)))"
proof -
  obtain r w' where run: "remote_publish (\<lambda>s. s) (\<lambda>m. Inr ''{}'') ''/tmp'' (Inr (''/tmp/r'', Some ''r''))
        (mem_ops (\<lambda>_. ''data'')) ''f'' ''o'' ''in'' sample_meta 1 0 sample_store = (r, w')" by fastforce
  have start: "record_describes_output (\<lambda>m. Inr ''{}'') ''o'' (key_for (\<lambda>s. s) ''o'') (ms_objects sample_store)"
    by (simp add: record_describes_output_def sample_store_def)
  show ?thesis
    using completion_record_never_stale [OF memory.object_store_axioms _ _ _ run start] run
    by (simp add: key_for_def)
qed

end
