(* ===== verification/BoundedRemote.thy ===== *)
theory BoundedRemote
  imports Bounded Publication
begin

text \<open>
  \<open>run_bounded_pipeline_s3\<close> (\<open>pipeline/src/bounded.rs\<close>): download the input object, run the
  local pipeline on it, publish the result remotely.  The store is a world \<open>'w\<close> of its own
  beside the local file system; publication reads the local output through \<open>store_of\<close>.
\<close>

subsection \<open>The driver\<close>

record remote_env =
  rv_cancelled_first :: bool
  rv_cancelled_before_publish :: bool
  rv_tempdir :: "foreign + file_path"
  rv_temp_dir :: file_path
  rv_namespace :: "foreign + file_path \<times> string option"
  rv_path_from :: "string \<Rightarrow> object_path"
  rv_to_vec :: "completion_manifest \<Rightarrow> foreign + string"
  rv_csv :: "string \<Rightarrow> (foreign + string list) list"

definition run_bounded_pipeline_s3 ::
  "'h hasher \<Rightarrow> builder \<Rightarrow> remote_env \<Rightarrow> driver_env \<Rightarrow> consumer_env \<Rightarrow> (nat \<Rightarrow> bool) \<Rightarrow>
   (pipeline_error + unit) list \<Rightarrow> 'w download_ops \<Rightarrow> ((file_path \<Rightarrow> string option) \<Rightarrow> 'w store_ops) \<Rightarrow>
   object_path \<Rightarrow> object_path \<Rightarrow> pipeline_config \<Rightarrow> callback option \<Rightarrow> 'w \<Rightarrow> fs \<Rightarrow>
   ((pipeline_error + pipeline_report) \<times> 'w \<times> fs) option" where
  "run_bounded_pipeline_s3 H try_new env denv cenv cancelled answers ops store_of in_key out_key config f w v =
     (if rv_cancelled_first env then Some (Inl Cancelled, w, v)
      else case rv_tempdir env of
        Inl source \<Rightarrow> Some (Inl (Io (OpenOutput (rv_temp_dir env) source)), w, v)
      | Inr dir \<Rightarrow>
     (let local_input = dir @ ''/input.csv''; local_output = dir @ ''/output.parquet''
      in case download_to_temp ops in_key local_input w of
        (Inl e, w1) \<Rightarrow> Some (Inl (Io e), w1, v)
      | (Inr (input_meta, body), w1) \<Rightarrow>
     (case run_bounded_pipeline H try_new denv cenv cancelled answers local_input
             (Inr (rv_csv env body)) local_output config f
             (v\<lparr>fs_files := (fs_files v)(local_input \<mapsto> body)\<rparr>) of
        None \<Rightarrow> None
      | Some (Inl e, v1) \<Rightarrow> Some (Inl e, w1, v1)
      | Some (Inr report, v1) \<Rightarrow>
          (if rv_cancelled_before_publish env then Some (Inl Cancelled, w1, v1)
           else (case remote_publish (rv_path_from env) (rv_to_vec env) (rv_temp_dir env) (rv_namespace env)
                        (store_of (fs_files v1)) local_output out_key in_key input_meta
                        (rows_written report) (report_digest report) w1 of
                   (Inl e, w2) \<Rightarrow> Some (Inl e, w2, v1)
                 | (Inr _, w2) \<Rightarrow> Some (Inr report, w2, v1))))))"

subsection \<open>End to end\<close>

text \<open>
  A download of the key that stores what it captured, whatever the store does meanwhile:
  every object's recorded size is that of its contents and fits \<open>u64\<close>.
\<close>

definition sized :: "'w download_ops \<Rightarrow> (object_path \<Rightarrow> string option \<Rightarrow> string option \<Rightarrow> string) \<Rightarrow> bool" where
  "sized ops blob \<longleftrightarrow>
     (\<forall>key w meta w'. do_head ops key w = (Inr meta, w') \<longrightarrow>
        om_size meta \<le> u64_max \<and> length (blob_of blob key meta) = om_size meta)"

lemma download_to_temp_ok:
  assumes "honours_conditions ops blob" and "sized ops blob"
    and "download_to_temp ops key dest w = (Inr (meta, body), w')"
  shows "om_location meta = key \<and> body = blob_of blob key meta"
proof -
  obtain captured w1 w2 where hd: "do_head ops key w1 = (Inr captured, w2)"
    and cap: "download_captured ops key dest captured w2 = (Inr (meta, body), w')"
    using assms(3) by (auto simp: download_to_temp_def split: prod.splits sum.splits)
  have size: "om_size captured \<le> u64_max" "length (blob_of blob key captured) = om_size captured"
    using assms(2) hd unfolding sized_def by blast+
  from download_captured_ok [OF assms(1) size(1) cap] size(2) show ?thesis by simp
qed

lemma s3_published:
  assumes "run_bounded_pipeline_s3 H try_new env denv cenv cancelled answers ops store_of in_key out_key config f w v =
      Some (Inr report, w', v')"
  obtains dir meta body w1 where
    "rv_tempdir env = Inr dir"
    "download_to_temp ops in_key (dir @ ''/input.csv'') w = (Inr (meta, body), w1)"
    "run_bounded_pipeline H try_new denv cenv cancelled answers (dir @ ''/input.csv'') (Inr (rv_csv env body))
       (dir @ ''/output.parquet'') config f (v\<lparr>fs_files := (fs_files v)(dir @ ''/input.csv'' \<mapsto> body)\<rparr>) =
     Some (Inr report, v')"
    "remote_publish (rv_path_from env) (rv_to_vec env) (rv_temp_dir env) (rv_namespace env)
       (store_of (fs_files v')) (dir @ ''/output.parquet'') out_key in_key meta
       (rows_written report) (report_digest report) w1 = (Inr (), w')"
  using assms
  by (auto simp: run_bounded_pipeline_s3_def Let_def split: if_splits sum.splits prod.splits option.splits)

text \<open>A run against the store in memory, whose input object has one version.\<close>

definition sample_download :: "mem_store download_ops" where
  "sample_download =
     (let ops = one_object_ops ''in'' ''v1'' ''1,a,''
      in \<lparr>do_head = (\<lambda>k w. (fst (do_head ops k ()), w)),
          do_get_opts = (\<lambda>k opts w. (fst (do_get_opts ops k opts ()), w)),
          do_write_all = (\<lambda>bytes w. (Inr (), w)), do_create = (\<lambda>p w. (Inr (), w))\<rparr>)"

definition sample_remote :: remote_env where
  "sample_remote = \<lparr>rv_cancelled_first = False, rv_cancelled_before_publish = False, rv_tempdir = Inr ''d'',
     rv_temp_dir = ''tmp'', rv_namespace = Inr (''tmp/r'', Some ''r''), rv_path_from = (\<lambda>s. s),
     rv_to_vec = (\<lambda>_. Inr ''{}''), rv_csv = (\<lambda>text. [Inr [''1'', ''a'', '''']])\<rparr>"

definition local_files :: "(file_path \<Rightarrow> string option) \<Rightarrow> file_path \<Rightarrow> string" where
  "local_files files p = (case files p of Some c \<Rightarrow> c | None \<Rightarrow> '''')"

definition sample_meta_v1 :: object_meta where
  "sample_meta_v1 = \<lparr>om_location = ''in'', om_last_modified = '''', om_size = 4, om_e_tag = None, om_version = Some ''v1''\<rparr>"

lemma sample_honest:
  "honours_conditions sample_download (\<lambda>k v e. if v = Some ''v1'' then ''1,a,'' else '''')"
  "sized sample_download (\<lambda>k v e. if v = Some ''v1'' then ''1,a,'' else '''')"
  by (auto simp: honours_conditions_def sized_def sample_download_def one_object_ops_def Let_def
      nonempty_def filter_option_def u64_max_def split: if_splits)

lemma sample_downloaded:
  "download_to_temp sample_download ''in'' dest w = (Inr (sample_meta_v1, ''1,a,''), w)"
  by (simp add: download_to_temp_def download_captured_def download_ranges.simps read_range_def
      sample_download_def one_object_ops_def Let_def nonempty_def filter_option_def range_end_def
      saturating_add_def CHUNK_BYTES_def u64_max_def identity_matches_def byte_range_def sample_meta_v1_def)

definition sample_objects :: mem_store where
  "sample_objects = \<lparr>ms_objects = Map.empty, ms_faults = [], ms_writes = 0\<rparr>"

lemma sample_published:
  "\<exists>w'. remote_publish (\<lambda>s. s) (\<lambda>_. Inr ''{}'') ''tmp'' (Inr (''tmp/r'', Some ''r''))
     (mem_ops files) f ''o'' ''in'' sample_meta_v1 rows digest sample_objects = (Inr (), w')"
proof -
  have "\<not> blank ''r''" "\<not> blank ''o''" "\<not> blank (digits (Suc 0))"
    by (simp_all add: blank_def digits.simps)
  then show ?thesis
    by (simp add: remote_publish_def remote_staged_new_def publish_steps_def
        mem_upload sample_objects_def key_for_def)
      (simp add: publish_completion_def delete_object_def copy_staged_object_def head_object_def put_manifest_def mem_ops_def
        ms_step_def ms_write_def output_identity_new_def is_none_or_def filter_option_def manifest_new_v2_def
        manifest_new_def required_def sample_meta_v1_def manifest_validate_def legacy_scheme_not_blank Let_def)
qed

text \<open>
  C5. End to end, success means success: the object published under the output key is the
  encoding of every row of the captured input object, in batches as configured, transformed
  and checked; and the completion record beside it validates, binds that object's identity
  and holds the input key, the number of rows written and their digest.
\<close>

theorem s3_end_to_end:
  assumes run: "run_bounded_pipeline_s3 H try_new env denv cenv cancelled answers ops store_of in_key out_key
      config f w v = Some (Inr report, w', v')"
    and store: "\<And>files. object_store (store_of files) objects (\<lambda>p. case files p of Some c \<Rightarrow> c | None \<Rightarrow> '''')"
    and honest: "honours_conditions ops blob" "sized ops blob"
    and meet: "\<And>dir meta body w1. rv_tempdir env = Inr dir \<Longrightarrow>
      download_to_temp ops in_key (dir @ ''/input.csv'') w = (Inr (meta, body), w1) \<Longrightarrow>
      threads_meet try_new (dir @ ''/input.csv'') (Inr (rv_csv env body)) (pc_batch_size config)
        cancelled answers cenv"
    and doc: "try_new_documented try_new" and size: "pc_batch_size config > 0"
    and temp: "\<And>dir. rv_tempdir env = Inr dir \<Longrightarrow> fresh_tempfiles denv (dir @ ''/output.parquet'')"
    and name: "rv_namespace env = Inr (path, Some rid)"
    and keys: "rv_path_from env (out_key @ ''.staging/'' @ rid) \<notin> {out_key, key_for (rv_path_from env) out_key}"
      "out_key \<noteq> key_for (rv_path_from env) out_key"
  shows "\<exists>meta rows cbs. om_location meta = in_key \<and>
    collect_rows parse_row 0 (rv_csv env (blob_of blob in_key meta)) = Inr rows \<and>
    list_all2 (writes_as f) (map (cb_batch \<circ> checked_of_rows) (chunks (pc_batch_size config) rows)) cbs \<and>
    rows_written report = sum_list (map (\<lambda>cb. b_rows (cb_batch cb)) cbs) \<and>
    completed (rv_to_vec env)
      (describes_run in_key (rows_written report) (foldl (accumulate_batch_digest H) 0 cbs))
      (de_encode denv (map cb_batch cbs)) out_key (key_for (rv_path_from env) out_key) (objects w')"
proof -
  obtain dir meta body w1 where
    dir: "rv_tempdir env = Inr dir" and
    down: "download_to_temp ops in_key (dir @ ''/input.csv'') w = (Inr (meta, body), w1)"
    and ran: "run_bounded_pipeline H try_new denv cenv cancelled answers (dir @ ''/input.csv'') (Inr (rv_csv env body))
       (dir @ ''/output.parquet'') config f (v\<lparr>fs_files := (fs_files v)(dir @ ''/input.csv'' \<mapsto> body)\<rparr>) =
     Some (Inr report, v')"
    and pub: "remote_publish (rv_path_from env) (rv_to_vec env) (rv_temp_dir env) (Inr (path, Some rid))
       (store_of (fs_files v')) (dir @ ''/output.parquet'') out_key in_key meta
       (rows_written report) (report_digest report) w1 = (Inr (), w')"
    using s3_published [OF run] name by metis
  have input: "om_location meta = in_key" "body = blob_of blob in_key meta"
    using download_to_temp_ok [OF honest down] by simp_all
  from run_complete [OF ran meet [OF dir down] doc size temp [OF dir]] obtain rows cbs where
    rows: "read_csv_rows (dir @ ''/input.csv'') (Inr (rv_csv env body)) parse_row = Inr rows"
    "list_all2 (writes_as f) (map (cb_batch \<circ> checked_of_rows) (chunks (pc_batch_size config) rows)) cbs"
    "fs_files v' (dir @ ''/output.parquet'') = Some (de_encode denv (map cb_batch cbs))"
    "rows_written report = sum_list (map (\<lambda>cb. b_rows (cb_batch cb)) cbs)"
    "report_digest report = foldl (accumulate_batch_digest H) 0 cbs"
    by blast
  have "completed (rv_to_vec env) (describes_run in_key (rows_written report) (report_digest report))
      (de_encode denv (map cb_batch cbs)) out_key (key_for (rv_path_from env) out_key) (objects w')"
    using object_store.remote_publish_spec [OF store pub refl refl] keys rows(3) by simp
  with rows input show ?thesis
    by (intro exI [of _ meta] exI [of _ rows] exI [of _ cbs]) (simp add: read_csv_rows_def)
qed

lemma sample_local_run:
  "\<exists>report v'. run_bounded_pipeline sample_hasher arrow_try_new sample_driver sample_consumer (\<lambda>_. False)
     [Inr ()] ''d/input.csv'' (Inr [Inr [''1'', ''a'', '''']]) ''d/output.parquet'' sample_config None
     (sample_fs\<lparr>fs_files := (fs_files sample_fs)(''d/input.csv'' \<mapsto> ''1,a,'')\<rparr>) = Some (Inr report, v')"
  using sample_production
  by (simp add: run_bounded_pipeline_def sample_driver_def sample_consumer_def sample_config_def
      sample_fs_def default_config_def staged_new_def staged_file_def consume_batches_def Let_def
      transform_lease_def into_parts_def uncharged_def checked_of_rows_ok publish_def publish_with_def
      filesystem_defs produce_batches_def)

lemma s3_end_to_end_witness:
  "\<exists>report w' v' body. run_bounded_pipeline_s3 sample_hasher arrow_try_new sample_remote sample_driver sample_consumer
     (\<lambda>_. False) [Inr ()] sample_download (\<lambda>files. mem_ops (local_files files)) ''in'' ''o'' sample_config None
     sample_objects sample_fs = Some (Inr report, w', v') \<and>
   completed (\<lambda>_. Inr ''{}'') (\<lambda>m. row_count m = rows_written report) body ''o'' ''o.manifest.json'' (ms_objects w')"
proof -
  let ?run = "run_bounded_pipeline_s3 sample_hasher arrow_try_new sample_remote sample_driver sample_consumer
     (\<lambda>_. False) [Inr ()] sample_download (\<lambda>files. mem_ops (local_files files)) ''in'' ''o'' sample_config None
     sample_objects sample_fs"
  obtain report v' where ran: "run_bounded_pipeline sample_hasher arrow_try_new sample_driver sample_consumer (\<lambda>_. False)
     [Inr ()] ''d/input.csv'' (Inr [Inr [''1'', ''a'', '''']]) ''d/output.parquet'' sample_config None
     (sample_fs\<lparr>fs_files := (fs_files sample_fs)(''d/input.csv'' \<mapsto> ''1,a,'')\<rparr>) = Some (Inr report, v')"
    using sample_local_run by blast
  obtain w' where "remote_publish (\<lambda>s. s) (\<lambda>_. Inr ''{}'') ''tmp'' (Inr (''tmp/r'', Some ''r''))
     (mem_ops (local_files (fs_files v'))) ''d/output.parquet'' ''o'' ''in'' sample_meta_v1
     (rows_written report) (report_digest report) sample_objects = (Inr (), w')"
    using sample_published by blast
  with ran have run: "?run = Some (Inr report, w', v')"
    by (simp add: run_bounded_pipeline_s3_def sample_remote_def sample_downloaded)
  have store: "object_store (mem_ops (local_files files)) ms_objects
      (\<lambda>p. case files p of Some c \<Rightarrow> c | None \<Rightarrow> '''')" for files
    using memory.object_store_axioms [of "local_files files"] by (simp add: local_files_def [abs_def])
  have env: "rv_tempdir sample_remote = Inr ''d''" "rv_namespace sample_remote = Inr (''tmp/r'', Some ''r'')"
    "rv_path_from sample_remote = (\<lambda>s. s)" "rv_to_vec sample_remote = (\<lambda>_. Inr ''{}'')"
    "rv_csv sample_remote x = [Inr [''1'', ''a'', '''']]" for x
    by (simp_all add: sample_remote_def)
  have meets: "threads_meet arrow_try_new (dir @ ''/input.csv'') (Inr (rv_csv sample_remote body))
      (pc_batch_size sample_config) (\<lambda>_. False) [Inr ()] sample_consumer" for dir body
    using sample_meets
    by (simp add: env threads_meet_def produce_batches_def sample_config_def default_config_def)
  have temp: "fresh_tempfiles sample_driver (dir @ ''/output.parquet'')" if "rv_tempdir sample_remote = Inr dir" for dir
    using that by (simp add: env fresh_tempfiles_def sample_driver_def)
  have size: "pc_batch_size sample_config > 0" by (simp add: sample_config_def default_config_def)
  from s3_end_to_end [OF run store sample_honest meets arrow_try_new_documented size temp env(2)]
  obtain cbs :: "checked_batch list" where "completed (\<lambda>_. Inr ''{}'')
      (describes_run ''in'' (rows_written report) (foldl (accumulate_batch_digest sample_hasher) 0 cbs))
      (de_encode sample_driver (map cb_batch cbs)) ''o'' ''o.manifest.json'' (ms_objects w')"
    by (auto simp: env key_for_def)
  then have "completed (\<lambda>_. Inr ''{}'') (\<lambda>m. row_count m = rows_written report)
      (de_encode sample_driver (map cb_batch cbs)) ''o'' ''o.manifest.json'' (ms_objects w')"
    by (auto simp: completed_def describes_run_def)
  with run show ?thesis by blast
qed

end
