(* ===== verification/PipelineBuilder.thy ===== *)
theory PipelineBuilder
  imports BoundedRemote
begin

text \<open>
  The typestate builders (src/crates/typestate/src/lib.rs).

  The markers \<open>Missing\<close> and \<open>Present\<close> are types here as there: a stage operation and
  \<open>build\<close> exist only at the types the Rust \<open>impl\<close> blocks name, so an incomplete pipeline
  is not a term.  The callbacks of the local builder run once and may read and change a
  world \<open>'s\<close>.
\<close>

subsection \<open>The local builder\<close>

datatype missing = Missing

datatype 'a present = Present (present_value: 'a)

record ('src, 'xf, 'snk) pipeline_builder =
  pb_source :: 'src
  pb_transform :: 'xf
  pb_sink :: 'snk

type_synonym 's batch_callback = "ingest_batch \<Rightarrow> 's \<Rightarrow> (pipeline_io_error + ingest_batch) \<times> 's"

definition builder_new :: "(missing, missing, missing) pipeline_builder" where
  "builder_new = \<lparr>pb_source = Missing, pb_transform = Missing, pb_sink = Missing\<rparr>"

definition builder_source ::
    "file_path \<Rightarrow> (missing, 'xf, 'snk) pipeline_builder \<Rightarrow> (file_path present, 'xf, 'snk) pipeline_builder"
where
  "builder_source path b =
     \<lparr>pb_source = Present path, pb_transform = pb_transform b, pb_sink = pb_sink b\<rparr>"

definition builder_transform ::
    "'s batch_callback \<Rightarrow> ('src, missing, 'snk) pipeline_builder \<Rightarrow>
     ('src, 's batch_callback present, 'snk) pipeline_builder" where
  "builder_transform f b =
     \<lparr>pb_source = pb_source b, pb_transform = Present f, pb_sink = pb_sink b\<rparr>"

definition builder_sink ::
    "'s batch_callback \<Rightarrow> ('src, 'xf, missing) pipeline_builder \<Rightarrow>
     ('src, 'xf, 's batch_callback present) pipeline_builder" where
  "builder_sink f b =
     \<lparr>pb_source = pb_source b, pb_transform = pb_transform b, pb_sink = Present f\<rparr>"

text \<open>\<open>read\<close> is what the path opens to: the CSV reader's records, or its failure.\<close>

definition builder_build ::
    "(arrow_schema \<Rightarrow> ingest_array list \<Rightarrow> foreign + ingest_batch) \<Rightarrow>
     (file_path \<Rightarrow> foreign + (foreign + string list) list) \<Rightarrow>
     (file_path present, 's batch_callback present, 's batch_callback present) pipeline_builder \<Rightarrow>
     's \<Rightarrow> (pipeline_io_error + ingest_batch) \<times> 's" where
  "builder_build try_new read b s =
     (case fixture_to_record_batch try_new (present_value (pb_source b))
             (read (present_value (pb_source b))) of
        Inl e \<Rightarrow> (Inl e, s)
      | Inr batch \<Rightarrow>
     (case present_value (pb_transform b) batch s of
        (Inl source, s1) \<Rightarrow> (Inl (PipelineErrors.Callback PipelineErrors.Transform 0 source), s1)
      | (Inr batch, s1) \<Rightarrow>
     (case validate_ingest_batch batch of
        Inl e \<Rightarrow> (Inl e, s1)
      | Inr _ \<Rightarrow>
     (case present_value (pb_sink b) batch s1 of
        (Inl source, s2) \<Rightarrow> (Inl (PipelineErrors.Callback PipelineErrors.Sink 0 source), s2)
      | (Inr batch, s2) \<Rightarrow>
     (case validate_ingest_batch batch of
        Inl e \<Rightarrow> (Inl e, s2)
      | Inr _ \<Rightarrow> (Inr batch, s2))))))"

subsection \<open>The remote builder\<close>

record ('store, 'src, 'xf, 'snk) remote_builder =
  rb_store :: 'store
  rb_config :: pipeline_config
  rb_source :: 'src
  rb_transform :: 'xf
  rb_sink :: 'snk

definition remote_new ::
    "'store \<Rightarrow> pipeline_config \<Rightarrow> ('store, missing, missing, missing) remote_builder" where
  "remote_new store config =
     \<lparr>rb_store = store, rb_config = config, rb_source = Missing, rb_transform = Missing,
      rb_sink = Missing\<rparr>"

definition remote_source ::
    "object_path \<Rightarrow> ('store, missing, 'xf, 'snk) remote_builder \<Rightarrow>
     ('store, object_path present, 'xf, 'snk) remote_builder" where
  "remote_source key b =
     \<lparr>rb_store = rb_store b, rb_config = rb_config b, rb_source = Present key,
      rb_transform = rb_transform b, rb_sink = rb_sink b\<rparr>"

definition remote_transform ::
    "callback \<Rightarrow> ('store, 'src, missing, 'snk) remote_builder \<Rightarrow>
     ('store, 'src, callback present, 'snk) remote_builder" where
  "remote_transform f b =
     \<lparr>rb_store = rb_store b, rb_config = rb_config b, rb_source = rb_source b,
      rb_transform = Present f, rb_sink = rb_sink b\<rparr>"

definition remote_sink ::
    "object_path \<Rightarrow> ('store, 'src, 'xf, missing) remote_builder \<Rightarrow>
     ('store, 'src, 'xf, object_path present) remote_builder" where
  "remote_sink key b =
     \<lparr>rb_store = rb_store b, rb_config = rb_config b, rb_source = rb_source b,
      rb_transform = rb_transform b, rb_sink = Present key\<rparr>"

text \<open>The store is its download half and, given the local files an upload reads, its other half.\<close>

type_synonym 'w object_store_ops = "'w download_ops \<times> ((file_path \<Rightarrow> string option) \<Rightarrow> 'w store_ops)"

definition remote_build ::
    "'h hasher \<Rightarrow> builder \<Rightarrow> remote_env \<Rightarrow> driver_env \<Rightarrow> consumer_env \<Rightarrow> (nat \<Rightarrow> bool) \<Rightarrow>
     (pipeline_error + unit) list \<Rightarrow>
     ('w object_store_ops, object_path present, callback present, object_path present) remote_builder \<Rightarrow>
     'w \<Rightarrow> fs \<Rightarrow> ((pipeline_error + pipeline_report) \<times> 'w \<times> fs) option" where
  "remote_build H try_new env denv cenv cancelled answers b w v =
     run_bounded_pipeline_s3 H try_new env denv cenv cancelled answers
       (fst (rb_store b)) (snd (rb_store b)) (present_value (rb_source b)) (present_value (rb_sink b))
       (rb_config b) (Some (present_value (rb_transform b))) w v"

subsection \<open>What a build promises\<close>

text \<open>
  The local build runs the stages in the order read, transform, sink, whatever order
  they were supplied in. The sink is called on a batch that satisfies the ingest contract
  and so is the batch the build returns; an error is the reader's, a callback's own with
  its stage, or a violation of the contract by what a callback returned.
\<close>

theorem builder_build_checked:
  assumes "b \<in> {builder_sink k (builder_transform f (builder_source path builder_new)),
                builder_source path (builder_sink k (builder_transform f builder_new)),
                builder_transform f (builder_source path (builder_sink k builder_new))}"
    and "builder_build try_new read b s = (r, s')"
  shows "(\<forall>out. r = Inr out \<longrightarrow>
      (\<exists>batch mid s1. fixture_to_record_batch try_new path (read path) = Inr batch \<and>
         f batch s = (Inr mid, s1) \<and> validate_ingest_batch mid = Inr () \<and>
         k mid s1 = (Inr out, s') \<and> validate_ingest_batch out = Inr ())) \<and>
    (\<forall>e. r = Inl e \<longrightarrow>
      (fixture_to_record_batch try_new path (read path) = Inl e \<and> s' = s) \<or>
      (\<exists>batch. fixture_to_record_batch try_new path (read path) = Inr batch \<and>
        ((\<exists>cause. f batch s = (Inl cause, s') \<and>
            e = PipelineErrors.Callback PipelineErrors.Transform 0 cause) \<or>
         (\<exists>mid. f batch s = (Inr mid, s') \<and> validate_ingest_batch mid = Inl e) \<or>
         (\<exists>mid s1. f batch s = (Inr mid, s1) \<and> validate_ingest_batch mid = Inr () \<and>
            ((\<exists>cause. k mid s1 = (Inl cause, s') \<and>
                e = PipelineErrors.Callback PipelineErrors.Sink 0 cause) \<or>
             (\<exists>out. k mid s1 = (Inr out, s') \<and> validate_ingest_batch out = Inl e))))))"
proof -
  have b: "pb_source b = Present path" "pb_transform b = Present f" "pb_sink b = Present k"
    using assms(1) by (auto simp: builder_sink_def builder_transform_def builder_source_def)
  from assms(2) show ?thesis
    by (auto simp: builder_build_def b split: sum.splits prod.splits)
qed

definition empty_fixture :: "foreign + (foreign + string list) list" where
  "empty_fixture = Inr []"

lemma builder_build_checked_witness:
  "\<exists>e. fst (builder_build (\<lambda>schema arrays. Inl ''rejected'') (\<lambda>_. empty_fixture)
      (builder_sink (\<lambda>b s. (Inr b, s)) (builder_transform (\<lambda>b s. (Inr b, s))
        (builder_source ''f.csv'' builder_new))) ()) = Inl e \<and> e = BuildBatch ''rejected''"
proof -
  let ?b = "builder_sink (\<lambda>b s. (Inr b, s)) (builder_transform (\<lambda>b s. (Inr b, s))
        (builder_source ''f.csv'' builder_new))"
  let ?build = "builder_build (\<lambda>schema arrays. Inl ''rejected'') (\<lambda>_. empty_fixture) ?b ()"
  have fails: "fixture_to_record_batch (\<lambda>schema arrays. Inl ''rejected'') ''f.csv'' empty_fixture =
      Inl (BuildBatch ''rejected'')"
    by (simp add: fixture_to_record_batch_def read_csv_rows_def empty_fixture_def batch_from_rows_def)
  have "?build = (fst ?build, snd ?build)" by (rule surjective_pairing)
  from builder_build_checked [OF _ this, of "\<lambda>b s. (Inr b, s)" "\<lambda>b s. (Inr b, s)" "''f.csv''"] fails
  show ?thesis by (cases "fst ?build") auto
qed

text \<open>
  The remote build is the remote pipeline on exactly the store, keys, configuration and
  transform supplied, in whatever order they were.
\<close>

lemma remote_build_orders:
  assumes "b \<in> {remote_sink out_key (remote_transform f (remote_source in_key (remote_new store config))),
                remote_source in_key (remote_sink out_key (remote_transform f (remote_new store config))),
                remote_transform f (remote_source in_key (remote_sink out_key (remote_new store config)))}"
  shows "remote_build H try_new env denv cenv cancelled answers b w v =
    run_bounded_pipeline_s3 H try_new env denv cenv cancelled answers (fst store) (snd store)
      in_key out_key config (Some f) w v"
  using assms
  by (auto simp: remote_build_def remote_sink_def remote_transform_def remote_source_def remote_new_def)

end
