(* ===== verification/Spec2Isabelle.thy ===== *)
theory Spec2Isabelle
  imports CsvBatch FileRaces PipelineTexts ContractTexts CliTexts CsvSelect DeriveMacros PolicyOrder
    UdfDeclarations ColumnarLayout SimdAdd PipelineBuilder ScaffoldCli BoundedRemote
begin

text \<open>
  Verification of the datacrate workspace: the contract checker, the ingest pipeline, the
  query functions, the code generators and the command lines around them.

  The crate \<open>contracts\<close> compares the declared shape of a producer with that of a contract under
  one of eight policies, at compile time; maps shapes to Arrow schemas; and validates Arrow
  batches against them at run time.  The crate \<open>typestate\<close> composes pipelines whose stages
  carry such contracts.  The crate \<open>pipeline\<close> reads CSV rows into checked batches, moves them
  through a bounded channel between a producer and a consumer thread, and publishes the
  result, locally by sync and rename, remotely by upload, copy and a completion record that
  binds the output's identity.  The crate \<open>schema-codegen\<close> turns schemas from several sources
  into contract structs and whole programs over \<open>typestate\<close>, and \<open>scaffold-cli\<close> drives it.
  All paths below are under src/crates.

  \<^bold>\<open>Shared.\<close>
  \<^item> \<open>Prelude\<close>: results as sums (\<open>Inl\<close> an error), option and list helpers, checked machine
    arithmetic, characters as bytes.  \<open>RustStr\<close>: the functions of \<open>str\<close> the grammars use.
    \<open>Decimal\<close>: printing and parsing integers.  \<open>StepInvariant\<close>: reachable states of a step
    relation and the invariant rule, as the locale \<open>step_invariant\<close>.  \<open>ArrowTypes\<close>: Arrow's
    \<open>DataType\<close> and \<open>Field\<close>.  \<open>UdfValues\<close>: the values DataFusion hands to a function.

  \<^bold>\<open>Contracts\<close> (contracts/src).
  \<^item> \<open>ContractTypes\<close>, \<open>ContractShape\<close> (lib.rs): shapes, policies, name and shape comparison; the
    accumulator with its 8-segment paths and 128 difference slots; the recursive traversal
    \<open>compare_shapes\<close> and the verdict \<open>conforms\<close>.
  \<^item> \<open>ContractSpec\<close>: the declarative reading \<open>shape_ok\<close>, and that the traversal decides it.
    The locale \<open>diff_sink\<close> carries an invariant of pushing differences through the traversal.
  \<^item> \<open>ContractPolicy\<close>, \<open>PolicyOrder\<close>: the algebra of the policies over that reading (equality,
    reversal, transitivity), and their order as an instance of \<open>preorder\<close>.
  \<^item> \<open>ContractRender\<close>: the compile-time panic message of \<open>SchemaConforms::CHECK\<close>.
  \<^item> \<open>ArrowMapping\<close> (arrow.rs), \<open>ArrowValidation\<close> (arrow/validation.rs): the physical schema of
    a shape, and the prepared validator of a batch.
  \<^item> \<open>DeriveMacros\<close> (contracts-derive, connectors-derive): what the derives accept and emit.

  \<^bold>\<open>Pipelines with contracts\<close> (typestate/src).
  \<^item> \<open>ContractPipeline\<close> (contract_pipeline.rs): composition, preflight and the streaming
    driver; \<open>ContractTexts\<close>: its messages.
  \<^item> \<open>PipelineBuilder\<close> (lib.rs): both type-state builders, a stage marker being a type.

  \<^bold>\<open>The ingest pipeline\<close> (pipeline/src).
  \<^item> \<open>PipelineErrors\<close>, \<open>PipelineTexts\<close>: errors, their causes and their messages.
  \<^item> \<open>IngestBatch\<close> (lib.rs, batch_contract.rs): rows, ids, batches and the runtime contract.
  \<^item> \<open>Manifest\<close> (manifest.rs): the content digest and the completion record.
  \<^item> \<open>Staging\<close> (staging.rs): local publication over the locale \<open>publication_io\<close>, interpreted on
    a file system whose calls can fail at any point, the removal of a temporary file included.
  \<^item> \<open>ObjectDownload\<close>, \<open>ObjectUpload\<close> (object_store_io.rs): ranged download of one captured
    object; multipart upload with at most two parts in flight, as the trace of its requests
    and what each was answered.
  \<^item> \<open>Publication\<close> (publication.rs): the remote publication protocol, which starts with that
    upload, over the locale \<open>object_store\<close>, interpreted on an in-memory store with failures.
    The locale states what a completed, a failed and an unfinished multipart upload do to the
    stored objects; what that makes of \<open>upload_from_temp\<close> is proved from its trace.
  \<^item> \<open>Transport\<close> (bounded/transport.rs): every critical section of the channel.
    \<open>TransportSystem\<close>: their interleaving as a step relation, with the accounts, the order of
    delivery and the progress of the threads as invariants.
  \<^item> \<open>CancellationToken\<close>, \<open>Bounded\<close>, \<open>BoundedRemote\<close> (bounded.rs): the token as a step system;
    producer, consumer, and the local and the remote driver.
  \<^item> \<open>ColumnarLayout\<close> (layout.rs), \<open>SimdAdd\<close> (simd_add.rs, simd_add_udf.rs): the transposes and
    the vector kernels at machine width.
  \<^item> \<open>OrderRows\<close>, \<open>QueryFunctions\<close>, \<open>UdfDeclarations\<close> (datafusion_query.rs): the fixtures, the
    user-defined functions, the row cap, the in-memory table, and what is declared of them.

  \<^bold>\<open>Generators and command lines.\<close>
  \<^item> \<open>StructSource\<close>, \<open>DeclaredTypes\<close> (schema-codegen/src: lib.rs, text_types.rs, dbt.rs,
    erwin.rs): structs from schemas and back; the type notation, dbt models, Erwin entities.
  \<^item> \<open>TransformOps\<close>, \<open>PipelineTemplate\<close> (dataframe_ops.rs, pipeline_template.rs): the grammar of
    transforms; a generated program as its parts, and as the pipeline they compose.
  \<^item> \<open>ScaffoldCli\<close>, \<open>CliTexts\<close> (scaffold-cli/src/main.rs, delta.rs): both commands and messages.
    Reading a schema or a file does not change the world, which is what the documented calls
    behind it do; only the output does.
  \<^item> \<open>CsvSelect\<close> (csv-cli/src/bin/csv-select.rs): the column selection command, over a writer
    that buffers.
  \<^item> \<open>CsvBatch\<close>, \<open>FileRaces\<close> (dtl-core/src): borrowed rows and UTF-8; file creation as
    interleaved system calls, beside other programs that may change any file in between.

  \<^bold>\<open>How the theories build on each other.\<close>  The driver of \<open>Bounded\<close> runs on the channel of
  \<open>TransportSystem\<close> and publishes through \<open>Staging\<close>; \<open>BoundedRemote\<close> runs the same driver
  between \<open>ObjectDownload\<close> and \<open>Publication\<close>.  \<open>ContractPipeline\<close> checks compositions with
  \<open>conforms\<close> and batches with the validator.  A program of \<open>PipelineTemplate\<close> is composed of the
  structs of \<open>StructSource\<close> and runs in \<open>ContractPipeline\<close>; the property below goes from its
  specification to what its sink receives.

  \<^bold>\<open>Conventions.\<close>  A string is a list of characters; where the code looks at bytes so does the
  model.  \<open>usize\<close> is a natural number where only its bound matters, with every addition that
  could pass the bound checked where the code checks it, and a word where it wraps; hashes
  and ids are 64-bit words.  A panic is the outer \<open>None\<close>.  Code of other crates (the object
  store, the JSON, YAML and XML parsers, the hash function, the CSV tokeniser, the Parquet
  codec, DataFusion, \<open>syn\<close>) is a parameter, with what the code relies on as a named hypothesis.

  \<^bold>\<open>Bounds and fuel.\<close>  Recursions are structural or have a measure; drivers over an iterator
  that need not end are partial functions, so that a result is always proved, and
  \<open>contract_run_ends\<close> shows that a finite source gives one.  The depth limit 128 of the Arrow
  mapping, the two parts an upload has in flight, the 128 slots and 8 segments of the accumulator are
  the code's own.  Links are followed 40 times, the limit of the operating system.

  \<^bold>\<open>Not modelled.\<close>  Reading and writing Parquet files and the mapped IPC decoder, which are codec
  calls; the SQL and \<open>DataFrame\<close> queries and the distributed application, which are texts and
  calls handed to DataFusion and Ballista; argument parsing; the literal Rust text around the
  generated parts; the measurement binaries, examples, tests and their fixtures; the
  exercises of dtl-core that move, borrow or return a value.
\<close>

subsection \<open>From the command line to the sink\<close>

text \<open>The pipeline a program composes, and the contract its sink is attached with.\<close>

lemma compose_main_parts:
  assumes "compose_main engine sql table calls factory nxt hand env main_fn = Some (Inr cs)"
  obtains target p where "env (gm_target main_fn) = Some target" and "composed p"
    and "contract_sink_attach target (hand (gm_sink main_fn)) p = Inr cs"
proof -
  from assms obtain source target where env: "env (gm_source main_fn) = Some source"
    "env (gm_target main_fn) = Some target"
    by (auto simp: compose_main_def split: option.splits)
  let ?p = "contract_source source factory nxt"
  have start: "composed ?p" by (rule composed.from_source)
  show thesis
  proof (cases "gm_stage main_fn")
    case None
    with assms env have "contract_sink_attach target (hand (gm_sink main_fn)) ?p = Inr cs"
      by (simp add: compose_main_def Let_def)
    with that env(2) start show thesis by blast
  next
    case (Some stage)
    then obtain f p where p: "contract_transform (cp_declaration ?p) target f ?p = Inr p"
      "contract_sink_attach target (hand (gm_sink main_fn)) p = Inr cs"
      using assms env
      by (cases stage)
        (auto simp: compose_main_def Let_def and_then_eq_Inr sql_transform_def dataframe_transform_def)
    from that env(2) composed.then_transform [OF start p(1)] p(2) show thesis by blast
  qed
qed

text \<open>
  C9. End to end: when a program generated from a specification is built and run, every batch
  its sink is handed has the schema of the specified target - up to the list items, large
  lists and metadata that the generated struct does not keep - and has passed the validator
  of the target's contract; so, where its arrays are laid out as Arrow says, every value
  the target requires is present, at every depth.  This holds whatever the query engine,
  the reader and the sink do.
\<close>

theorem generated_run_delivers_target:
  assumes "file_structs spec = Inr structs" and "distinct (map rs_name structs)"
    and "derive_contracts Map.empty structs = Some env"
    and "pipeline_main is_finite spec (ps_name spec @ ''Source'') (target_name spec) = Some main_fn"
    and "compose_main engine sql table calls factory nxt hand env main_fn = Some (Inr cs)"
    and "contract_build cs = Inr prep"
    and "contract_run (with_log prep) (s, []) = Some (r, s', l)"
  shows "\<exists>v. batch_validator_new (Struct (map gen_field (target_schema spec))) = Inr v \<and>
    (\<forall>(b, ok) \<in> set l. batch_validate v b = Some (Inr ()) \<and>
       fields_match (map regen_field (target_schema spec)) (rb_schema b) \<and>
       (batch_ok (rb_schema b) b \<longrightarrow>
          (\<forall>(f, a) \<in> set (zip (map regen_field (target_schema spec)) (rb_columns b)).
             \<forall>row < rb_num_rows b. required_present f (decode_row a row))))"
proof -
  let ?target = "Struct (map gen_field (target_schema spec))"
  obtain target p where p: "env (gm_target main_fn) = Some target" "composed p"
    "contract_sink_attach target (hand (gm_sink main_fn)) p = Inr cs"
    by (rule compose_main_parts [OF assms(5)])
  have target: "target = ?target"
    using file_compiles [OF assms(1,2)] assms(3) main_parts(2) [OF assms(4)] p(1) by auto
  from contract_run_log [OF p(2,3) assms(6,7)] obtain v where
    v: "batch_validator_new ?target = Inr v" "\<forall>(b, ok) \<in> set l. batch_validate v b = Some (Inr ())"
    unfolding target by blast
  have "schema ?target = Inr (bv_schema v)"
    using v(1) by (auto simp: batch_validator_new_def split: sum.splits)
  then have "map_type (gen_shape (StructOf (target_schema spec))) '''' 0 = Inr (StructOf (bv_schema v))"
    by (simp add: struct_fields_def)
  from gen_mapped_as [OF file_generable(2) [OF assms(1)] this]
  have sch: "bv_schema v = map regen_field (target_schema spec)" by (simp add: regen_type_struct del: regen_type.simps)
  have matches: "fields_match (bv_schema v) (rb_schema b)" if "batch_validate v b = Some (Inr ())" for b
    using that by (simp add: batch_validate_def split: if_splits)
  have present: "\<forall>(f, a) \<in> set (zip (bv_schema v) (rb_columns b)).
      \<forall>row < rb_num_rows b. required_present f (decode_row a row)"
    if "batch_validate v b = Some (Inr ())" "batch_ok (rb_schema b) b" for b
  proof -
    from batch_validate_spec [OF v(1) that(2)] obtain r where "batch_validate v b = Some r"
      "r = Inr () \<longleftrightarrow> map plain_field (bv_schema v) = map plain_field (rb_schema b) \<and>
         (\<forall>(f, a) \<in> set (zip (bv_schema v) (rb_columns b)).
            \<forall>row < rb_num_rows b. required_present f (decode_row a row))" by blast
    with that(1) show ?thesis by simp
  qed
  show ?thesis
  proof (intro exI [of _ v] conjI)
    show "batch_validator_new ?target = Inr v" by (rule v(1))
    show "\<forall>(b, ok) \<in> set l. batch_validate v b = Some (Inr ()) \<and>
       fields_match (map regen_field (target_schema spec)) (rb_schema b) \<and>
       (batch_ok (rb_schema b) b \<longrightarrow>
          (\<forall>(f, a) \<in> set (zip (map regen_field (target_schema spec)) (rb_columns b)).
             \<forall>row < rb_num_rows b. required_present f (decode_row a row)))"
      using v(2) matches present unfolding sch [symmetric] by blast
  qed
qed

lemma generated_run_delivers_target_witness:
  "\<exists>v. batch_validator_new (Struct [FieldShape ''id'' (Primitive ''i64'') False]) = Inr v \<and>
     batch_validate v sample_batch = Some (Inr ()) \<and> rb_num_rows sample_batch = 1"
proof -
  let ?spec = "sample_passthrough\<lparr>ps_transform := None\<rparr>"
  let ?structs = "[\<lparr>rs_name = ''OrdersSource'', rs_connector = True, rs_fields = [(''id'', PrimType ''i64'')]\<rparr>]"
  let ?env = "[''OrdersSource'' \<mapsto> sample_shape]"
  have "struct_items ''OrdersSource'' [Field ''id'' Int64 False []] = Inr ?structs" by code_simp
  then have structs: "file_structs ?spec = Inr ?structs"
    by (simp add: file_structs_def sample_passthrough_def)
  have env: "derive_contracts Map.empty ?structs = Some ?env" by (simp add: sample_shape_def)
  obtain m where m: "pipeline_main (\<lambda>_. True) ?spec (ps_name ?spec @ ''Source'') (target_name ?spec) = Some m"
    "gm_source m = ''OrdersSource''" "gm_target m = ''OrdersSource''" "gm_stage m = None"
    by (simp add: pipeline_main_def transform_tokens_def target_name_def sample_passthrough_def)
  have composed: "compose_main engine sql table calls (\<lambda>s. (Inr 1, s)) repeat_step (\<lambda>_ b s. (Inr (), s)) ?env m =
      Some (Inr sample_sink)" for engine :: "(unit, string) query_engine" and sql and
      table :: "string \<Rightarrow> (unit \<Rightarrow> string + unit) \<Rightarrow> _" and calls
    using m sample_attach by (simp add: compose_main_def sample_pipeline_def)
  from generated_run_delivers_target [OF structs _ env m(1) composed sample_build one_batch_run]
  show ?thesis
    by (auto simp: target_schema_def sample_passthrough_def gen_field_def sample_batch_def
        simp del: schema.simps)
qed

end
